(* ===== verification/Prelude.thy ===== *)
theory Prelude
  imports Main "HOL-Library.Product_Lexorder"
begin

text \<open>
  Generic material the components share: the rule collections of the development, facts on
  lists of records addressed by a key, and the SQL window function
  \<open>row_number() OVER (PARTITION BY p ORDER BY k)\<close> with the counting facts the claim query
  rests on. Nothing in this theory mentions the program.
\<close>

named_theorems inv_intro \<open>one operation keeps one invariant\<close>
named_theorems op_defs \<open>definitions of operations, unfolded by the functional lemmas\<close>

section \<open>Lists addressed by a key\<close>

lemma distinct_map_filter_eq:
  "distinct (map f xs) \<Longrightarrow> x \<in> set xs \<Longrightarrow> y \<in> set xs \<Longrightarrow> f x = f y \<Longrightarrow> x = y"
  by (auto simp: distinct_map inj_on_def)

lemma filter_key_unique:
  "distinct (map f xs) \<Longrightarrow> x \<in> set xs \<Longrightarrow> filter (\<lambda>y. f y = f x) xs = [x]"
proof (induction xs)
  case Nil
  then show ?case by simp
next
  case (Cons a xs)
  show ?case
  proof (cases "x = a")
    case True
    with Cons.prems have "\<forall>y\<in>set xs. f y \<noteq> f x" by (auto simp: image_iff)
    then have "filter (\<lambda>y. f y = f x) xs = []" by (simp add: filter_empty_conv)
    with True show ?thesis by simp
  next
    case False
    with Cons.prems have "x \<in> set xs" "f a \<noteq> f x" by force+
    with Cons show ?thesis by simp
  qed
qed

lemma find_key_Some:
  "distinct (map f xs) \<Longrightarrow> x \<in> set xs \<Longrightarrow> List.find (\<lambda>y. f y = f x) xs = Some x"
proof (induction xs)
  case (Cons a xs)
  then show ?case by (cases "x = a") (force split: if_splits)+
qed simp

lemma find_Some_mem: "List.find P xs = Some x \<Longrightarrow> x \<in> set xs \<and> P x"
  by (induction xs) (auto split: if_splits)

lemma find_None: "List.find P xs = None \<longleftrightarrow> (\<forall>x\<in>set xs. \<not> P x)"
  by (auto simp: find_None_iff)

lemma map_key_id:
  "(\<And>x. x \<in> set xs \<Longrightarrow> f (g x) = f x) \<Longrightarrow> map f (map g xs) = map f xs"
  by simp

lemma set_map_upd:
  "set (map (\<lambda>x. if P x then g x else x) xs) = g ` {x \<in> set xs. P x} \<union> {x \<in> set xs. \<not> P x}"
  by auto

lemma distinct_map_filter: "distinct (map f xs) \<Longrightarrow> distinct (map f (filter P xs))"
  by (induction xs) auto

lemma filter_if_map:
  "(\<And>x. x \<in> set xs \<Longrightarrow> P (g x) = Q x) \<Longrightarrow> filter P (map g xs) = map g (filter Q xs)"
  by (induction xs) auto

lemma length_filter_subset:
  assumes "distinct xs" "\<And>x. x \<in> set xs \<Longrightarrow> P x \<Longrightarrow> x \<in> A" "finite A"
  shows "length (filter P xs) \<le> card A"
proof -
  have "length (filter P xs) = card (set (filter P xs))"
    using distinct_card [of "filter P xs"] assms(1) by (simp only: distinct_filter)
  also have "\<dots> \<le> card A"
    using assms(2,3) by (intro card_mono) auto
  finally show ?thesis .
qed

section \<open>Results that may be errors\<close>

text \<open>Sequencing of two steps either of which may throw; the second sees the first's value.\<close>

definition sbind :: "'e + 'a \<Rightarrow> ('a \<Rightarrow> 'e + 'b) \<Rightarrow> 'e + 'b" where
  "sbind m f = (case m of Inl e \<Rightarrow> Inl e | Inr x \<Rightarrow> f x)"

lemma sbind_simps [simp]: "sbind (Inl e) f = Inl e" "sbind (Inr x) f = f x"
  by (simp_all add: sbind_def)

lemma sbind_Inr_iff: "sbind m f = Inr y \<longleftrightarrow> (\<exists>x. m = Inr x \<and> f x = Inr y)"
  by (cases m) simp_all

lemma sbind_InrE:
  assumes "sbind m f = Inr y"
  obtains x where "m = Inr x" "f x = Inr y"
  using assms by (auto simp: sbind_Inr_iff)

section \<open>The window function row\_number\<close>

text \<open>
  The position, from 1, of \<open>x\<close> in its partition of \<open>xs\<close> ordered by \<open>k\<close>. SQL leaves the
  order of rows with equal keys open; here it is the order of \<open>xs\<close> (\<open>sort_key\<close> is stable), and
  every fact below holds for every \<open>xs\<close>, hence for every way of breaking ties by a scan order.
\<close>

definition row_number :: "('a \<Rightarrow> 'p) \<Rightarrow> ('a \<Rightarrow> 'k::linorder) \<Rightarrow> 'a list \<Rightarrow> 'a \<Rightarrow> nat" where
  "row_number p k xs x =
     Suc (length (takeWhile (\<lambda>y. y \<noteq> x) (sort_key k (filter (\<lambda>y. p y = p x) xs))))"

lemma takeWhile_neq_take:
  "x \<in> set zs \<Longrightarrow> length (takeWhile (\<lambda>y. y \<noteq> x) zs) < n \<Longrightarrow> x \<in> set (take n zs)"
proof (induction zs arbitrary: n)
  case (Cons z zs)
  then show ?case by (cases n) (auto split: if_splits)
qed simp

lemma row_number_le_take:
  assumes "x \<in> set xs" "row_number p k xs x \<le> n"
  shows "x \<in> set (take n (sort_key k (filter (\<lambda>y. p y = p x) xs)))"
proof -
  have "x \<in> set (sort_key k (filter (\<lambda>y. p y = p x) xs))" using assms(1) by simp
  moreover have "length (takeWhile (\<lambda>y. y \<noteq> x) (sort_key k (filter (\<lambda>y. p y = p x) xs))) < n"
    using assms(2) by (simp add: row_number_def)
  ultimately show ?thesis by (rule takeWhile_neq_take)
qed

lemma count_row_number_le:
  assumes "distinct xs"
  shows "length (filter (\<lambda>x. p x = c \<and> row_number p k xs x \<le> n) xs) \<le> n"
proof -
  let ?zs = "sort_key k (filter (\<lambda>y. p y = c) xs)"
  have "length (filter (\<lambda>x. p x = c \<and> row_number p k xs x \<le> n) xs) \<le> card (set (take n ?zs))"
    using assms by (rule length_filter_subset) (auto dest: row_number_le_take)
  also have "\<dots> \<le> length (take n ?zs)" by (rule card_length)
  also have "\<dots> \<le> n" by simp
  finally show ?thesis .
qed

lemma row_number_one_hd:
  assumes "x \<in> set xs" "row_number p k xs x = 1"
  shows "x = hd (sort_key k (filter (\<lambda>y. p y = p x) xs))"
proof -
  let ?zs = "sort_key k (filter (\<lambda>y. p y = p x) xs)"
  have "x \<in> set (take 1 ?zs)" using assms by (intro row_number_le_take) simp_all
  then show ?thesis by (cases ?zs) auto
qed

lemma row_number_one_unique:
  assumes "x \<in> set xs" "y \<in> set xs" "p x = p y"
    and "row_number p k xs x = 1" "row_number p k xs y = 1"
  shows "x = y"
  using row_number_one_hd [OF assms(1,4)] row_number_one_hd [OF assms(2,5)] assms(3) by simp

lemma row_number_one_least:
  assumes "x \<in> set xs" "row_number p k xs x = 1" "y \<in> set xs" "p y = p x"
  shows "k x \<le> k y"
proof -
  let ?zs = "sort_key k (filter (\<lambda>y. p y = p x) xs)"
  have x: "x = hd ?zs" using assms by (intro row_number_one_hd)
  have y: "y \<in> set ?zs" using assms by simp
  then obtain z zs where zs: "?zs = z # zs" by (cases ?zs) auto
  have "sorted (map k ?zs)" by simp
  then have "\<forall>w\<in>set ?zs. k (hd ?zs) \<le> k w" unfolding zs by auto
  then show ?thesis using x y by simp
qed

lemma row_number_one_exists:
  assumes "x \<in> set xs"
  shows "\<exists>y\<in>set xs. p y = p x \<and> row_number p k xs y = 1"
proof -
  let ?zs = "sort_key k (filter (\<lambda>y. p y = p x) xs)"
  have x: "x \<in> set ?zs" using assms by simp
  then obtain z zs where zs: "?zs = z # zs" by (cases ?zs) auto
  then have z: "z \<in> set xs \<and> p z = p x" 
    using set_sort [of k "filter (\<lambda>y. p y = p x) xs"] by auto
  then have "sort_key k (filter (\<lambda>y. p y = p z) xs) = z # zs" using zs by simp
  then have "row_number p k xs z = 1" by (simp add: row_number_def)
  with z show ?thesis by blast
qed

lemma takeWhile_neq_split: "x \<notin> set us \<Longrightarrow> takeWhile (\<lambda>w. w \<noteq> x) (us @ x # vs) = us"
  by (induction us) auto

lemma row_number_mono:
  assumes "x \<in> set xs" "y \<in> set xs" "p x = p y" "k x < k y"
  shows "row_number p k xs x \<le> row_number p k xs y"
proof -
  let ?zs = "sort_key k (filter (\<lambda>w. p w = p y) xs)"
  have "y \<in> set ?zs" using assms(2) by simp
  then obtain us vs where zs: "?zs = us @ y # vs" and us: "y \<notin> set us" by (meson split_list_first)
  have "sorted (map k (us @ y # vs))" using sorted_sort_key [of k "filter (\<lambda>w. p w = p y) xs"] zs by simp
  then have "\<forall>w\<in>set vs. k y \<le> k w" by (simp add: sorted_append)
  moreover have "x \<in> set ?zs" using assms(1,3) by simp
  ultimately have x: "x \<in> set us" using zs assms(4) by force
  then obtain us1 us2 where us12: "us = us1 @ x # us2" "x \<notin> set us1" by (meson split_list_first)
  have "takeWhile (\<lambda>w. w \<noteq> x) ?zs = us1"
    using takeWhile_neq_split [OF us12(2), of "us2 @ y # vs"] us12(1) zs by simp
  moreover have "takeWhile (\<lambda>w. w \<noteq> y) ?zs = us"
    using takeWhile_neq_split [OF us, of vs] zs by simp
  ultimately show ?thesis using us12 assms(3) by (simp add: row_number_def)
qed

lemma length_filter_le_filter:
  assumes "distinct xs" "\<And>x. x \<in> set xs \<Longrightarrow> P x \<Longrightarrow> x \<in> set ys \<and> Q x"
  shows "length (filter P xs) \<le> length (filter Q ys)"
proof -
  have "length (filter P xs) \<le> card (set (filter Q ys))"
    using assms by (intro length_filter_subset) auto
  also have "\<dots> \<le> length (filter Q ys)" by (rule card_length)
  finally show ?thesis .
qed

lemma sort_key_Nil_iff [simp]: "sort_key k xs = [] \<longleftrightarrow> xs = []"
  by (metis length_0_conv length_sort)

lemma sort_take_least:
  assumes "x \<in> set (take n (sort_key k xs))" "y \<in> set xs" "y \<notin> set (take n (sort_key k xs))"
  shows "k x \<le> k y"
proof -
  let ?zs = "sort_key k xs"
  have "sorted (map k (take n ?zs @ drop n ?zs))" by simp
  moreover have "y \<in> set (drop n ?zs)"
    using assms(2,3) by (metis append_take_drop_id set_append set_sort Un_iff)
  ultimately show ?thesis using assms(1) unfolding map_append sorted_append by simp
qed

lemma insort_key_cong_order:
  "(\<And>y. y \<in> set ys \<Longrightarrow> k a \<le> k y \<longleftrightarrow> l a \<le> l y) \<Longrightarrow> insort_key k a ys = insort_key l a ys"
  by (induction ys) auto

lemma sort_key_cong_order:
  "(\<And>x y. x \<in> set xs \<Longrightarrow> y \<in> set xs \<Longrightarrow> k x \<le> k y \<longleftrightarrow> l x \<le> l y) \<Longrightarrow> sort_key k xs = sort_key l xs"
proof (induction xs)
  case (Cons a xs)
  have "sort_key k xs = sort_key l xs" using Cons by simp
  moreover have "insort_key k a (sort_key l xs) = insort_key l a (sort_key l xs)"
    by (rule insort_key_cong_order) (use Cons.prems in simp)
  ultimately show ?case by simp
qed simp

lemma row_number_cong:
  assumes "filter (\<lambda>y. p y = p x) xs = filter (\<lambda>y. q y = q x) xs"
    and "\<And>u v. u \<in> set xs \<Longrightarrow> v \<in> set xs \<Longrightarrow> p u = p x \<Longrightarrow> p v = p x \<Longrightarrow> k u \<le> k v \<longleftrightarrow> l u \<le> l v"
  shows "row_number p k xs x = row_number q l xs x"
proof -
  have "sort_key k (filter (\<lambda>y. p y = p x) xs) = sort_key l (filter (\<lambda>y. p y = p x) xs)"
    by (rule sort_key_cong_order) (use assms(2) in simp)
  with assms(1) show ?thesis by (simp add: row_number_def)
qed

lemma append_sep_inject:
  assumes "xs @ [d] @ ys = xs' @ [d] @ ys'" "d \<notin> set xs" "d \<notin> set xs'"
  shows "xs = xs' \<and> ys = ys'"
proof -
  have "takeWhile (\<lambda>c. c \<noteq> d) (xs @ d # ys) = takeWhile (\<lambda>c. c \<noteq> d) (xs' @ d # ys')"
    using assms(1) by simp
  then have "xs = xs'" using takeWhile_neq_split assms(2,3) by metis
  with assms(1) show ?thesis by simp
qed

lemma append_last_sep_inject:
  assumes "xs @ [d] @ ys = xs' @ [d] @ ys'" "d \<notin> set ys" "d \<notin> set ys'"
  shows "xs = xs' \<and> ys = ys'"
proof -
  have "rev (xs @ [d] @ ys) = rev (xs' @ [d] @ ys')" using assms(1) by simp
  then have "rev ys @ [d] @ rev xs = rev ys' @ [d] @ rev xs'" by simp
  from append_sep_inject [OF this] assms(2,3) show ?thesis by simp
qed

end
