(* ===== verification/Js_Runtime.thy ===== *)
theory Js_Runtime
  imports Prelude "HOL-Library.Sublist" "HOL-Library.Log_Nat"
begin

text \<open>
  What the program uses of its language: numbers, JSON values and string operations. A string is
  a list of characters, read as UTF-16 code units below 256; code units above that range are
  outside the model. \<open>undefined\<close> is \<open>None\<close>, a value is \<open>Some\<close>.
\<close>

section \<open>Numbers\<close>

text \<open>A number is a binary64 value: not-a-number, an infinity or a rational. The two zeros are
  one value here.\<close>

datatype jsnum = NaN | PosInf | NegInf | Fin rat

text \<open>Rounding to nearest, ties to even, at 53 significant bits with the binary64 exponent
  range.\<close>

definition round_half_even :: "rat \<Rightarrow> int" where
  "round_half_even y =
     (let f = \<lfloor>y\<rfloor>; d = y - of_int f
      in if d < 1 / 2 then f else if d > 1 / 2 then f + 1 else if even f then f else f + 1)"

definition pow2 :: "int \<Rightarrow> rat" where
  "pow2 e = (if 0 \<le> e then 2 ^ nat e else 1 / 2 ^ nat (- e))"

definition double_exp :: "rat \<Rightarrow> int" where
  "double_exp x =
     (let (p, q) = quotient_of x;
          e = int (floorlog 2 (nat p)) - int (floorlog 2 (nat q)) - 53;
          e' = (if x / pow2 e < 2 ^ 53 then e else e + 1)
      in max e' (- 1074))"

definition to_double :: "rat \<Rightarrow> jsnum" where
  "to_double x =
     (if x = 0 then Fin 0
      else let e = double_exp \<bar>x\<bar>; m = of_int (round_half_even (\<bar>x\<bar> / pow2 e)) * pow2 e
           in if m \<ge> pow2 1024 then (if x < 0 then NegInf else PosInf)
              else Fin (if x < 0 then - m else m))"

definition is_integer :: "jsnum \<Rightarrow> bool" where
  "is_integer n = (case n of Fin x \<Rightarrow> of_int \<lfloor>x\<rfloor> = x | _ \<Rightarrow> False)"

definition is_finite :: "jsnum \<Rightarrow> bool" where
  "is_finite n = (case n of Fin _ \<Rightarrow> True | _ \<Rightarrow> False)"

text \<open>Comparison with a number, and the rounded product and sum with a finite one; the factor of the
  product is positive.\<close>

definition jsnum_less :: "jsnum \<Rightarrow> rat \<Rightarrow> bool" where
  "jsnum_less n x = (case n of Fin y \<Rightarrow> y < x | NegInf \<Rightarrow> True | _ \<Rightarrow> False)"

definition jsnum_greater :: "jsnum \<Rightarrow> rat \<Rightarrow> bool" where
  "jsnum_greater n x = (case n of Fin y \<Rightarrow> x < y | PosInf \<Rightarrow> True | _ \<Rightarrow> False)"

definition js_scale :: "rat \<Rightarrow> jsnum \<Rightarrow> jsnum" where
  "js_scale k n = (case n of Fin y \<Rightarrow> to_double (y * k) | _ \<Rightarrow> n)"

definition js_plus :: "rat \<Rightarrow> jsnum \<Rightarrow> jsnum" where
  "js_plus x n = (case n of Fin y \<Rightarrow> to_double (x + y) | _ \<Rightarrow> n)"

text \<open>The variables of the process.\<close>

type_synonym process_env = "string \<Rightarrow> string option"

section \<open>JSON values\<close>

text \<open>An object lists its own enumerable keys in the order \<open>Object.keys\<close> gives them.\<close>

datatype json =
    JNull
  | JBool bool
  | JNum jsnum
  | JStr string
  | JArr "json list"
  | JObj "(string \<times> json) list"

type_synonym jsval = "json option"

fun isPlainObject :: "jsval \<Rightarrow> bool" where
  "isPlainObject (Some (JObj _)) = True"
| "isPlainObject _ = False"

fun obj_fields :: "jsval \<Rightarrow> (string \<times> json) list" where
  "obj_fields (Some (JObj kvs)) = kvs"
| "obj_fields _ = []"

definition obj_get :: "(string \<times> json) list \<Rightarrow> string \<Rightarrow> jsval" where
  "obj_get kvs k = map_of kvs k"

text \<open>\<open>v?.k\<close>: undefined on undefined and null, the field of an object, undefined otherwise.\<close>

definition opt_field :: "jsval \<Rightarrow> string \<Rightarrow> jsval" where
  "opt_field v k = obj_get (obj_fields v) k"

text \<open>\<open>v ?? w\<close>.\<close>

definition nullish :: "jsval \<Rightarrow> bool" where
  "nullish v = (v = None \<or> v = Some JNull)"

definition coalesce :: "jsval \<Rightarrow> jsval \<Rightarrow> jsval" where
  "coalesce v w = (if nullish v then w else v)"

text \<open>What counts as true in a condition.\<close>

fun js_truthy :: "jsval \<Rightarrow> bool" where
  "js_truthy None = False"
| "js_truthy (Some JNull) = False"
| "js_truthy (Some (JBool b)) = b"
| "js_truthy (Some (JNum n)) = (n \<noteq> NaN \<and> n \<noteq> Fin 0)"
| "js_truthy (Some (JStr t)) = (t \<noteq> [])"
| "js_truthy (Some _) = True"

definition json_of_opt_string :: "string option \<Rightarrow> json" where
  "json_of_opt_string s = (case s of None \<Rightarrow> JNull | Some t \<Rightarrow> JStr t)"

text \<open>An object literal as \<open>JSON.stringify\<close> keeps it: fields whose value is undefined are
  dropped.\<close>

definition obj_literal :: "(string \<times> jsval) list \<Rightarrow> json" where
  "obj_literal kvs = JObj (map (\<lambda>(k, v). (k, the v)) (filter (\<lambda>(k, v). v \<noteq> None) kvs))"

section \<open>Strings\<close>

definition char_code :: "char \<Rightarrow> nat" where
  "char_code c = of_char c"

definition is_ws :: "char \<Rightarrow> bool" where
  "is_ws c = (char_code c \<in> set [9, 10, 11, 12, 13, 32, 160])"

definition is_digit :: "char \<Rightarrow> bool" where
  "is_digit c = (48 \<le> char_code c \<and> char_code c \<le> 57)"

definition is_alpha :: "char \<Rightarrow> bool" where
  "is_alpha c = (65 \<le> char_code c \<and> char_code c \<le> 90 \<or> 97 \<le> char_code c \<and> char_code c \<le> 122)"

definition to_lower_char :: "char \<Rightarrow> char" where
  "to_lower_char c =
     (let n = char_code c
      in if 65 \<le> n \<and> n \<le> 90 \<or> 192 \<le> n \<and> n \<le> 222 \<and> n \<noteq> 215 then char_of (n + 32) else c)"

definition to_lower :: "string \<Rightarrow> string" where
  "to_lower s = map to_lower_char s"

definition js_trim :: "string \<Rightarrow> string" where
  "js_trim s = rev (dropWhile is_ws (rev (dropWhile is_ws s)))"

fun str_includes :: "string \<Rightarrow> string \<Rightarrow> bool" where
  "str_includes [] needle = (needle = [])"
| "str_includes (c # cs) needle = (prefix needle (c # cs) \<or> str_includes cs needle)"

definition starts_with :: "string \<Rightarrow> string \<Rightarrow> bool" where
  "starts_with s p = prefix p s"

definition ends_with :: "string \<Rightarrow> string \<Rightarrow> bool" where
  "ends_with s p = suffix p s"

text \<open>\<open>s.split(c)\<close> for a one-character separator: never the empty list.\<close>

fun split_on :: "char \<Rightarrow> string \<Rightarrow> string list" where
  "split_on d [] = [[]]"
| "split_on d (c # cs) =
     (if c = d then [] # split_on d cs
      else case split_on d cs of w # ws \<Rightarrow> (c # w) # ws | [] \<Rightarrow> [[c]])"

fun join_with :: "string \<Rightarrow> string list \<Rightarrow> string" where
  "join_with sep [] = []"
| "join_with sep [w] = w"
| "join_with sep (w # ws) = w @ sep @ join_with sep ws"

lemma split_on_nonempty: "split_on d s \<noteq> []"
  by (induction s) (auto split: list.splits)

lemma split_on_no_sep: "d \<notin> set w \<Longrightarrow> split_on d w = [w]"
  by (induction w) auto

lemma split_on_append: "d \<notin> set w \<Longrightarrow> split_on d (w @ d # s) = w # split_on d s"
  by (induction w) auto

lemma split_on_join:
  "ws \<noteq> [] \<Longrightarrow> \<forall>w\<in>set ws. d \<notin> set w \<Longrightarrow> split_on d (join_with [d] ws) = ws"
proof (induction ws rule: induct_list012)
  case (3 v w ws)
  then show ?case by (simp add: split_on_append)
qed (simp_all add: split_on_no_sep)

lemma no_sep_join: "d \<notin> set sep \<Longrightarrow> \<forall>w\<in>set ws. d \<notin> set w \<Longrightarrow> d \<notin> set (join_with sep ws)"
  by (induction sep ws rule: join_with.induct) auto

section \<open>Reading numbers\<close>

fun digits_value :: "nat \<Rightarrow> string \<Rightarrow> nat" where
  "digits_value acc [] = acc"
| "digits_value acc (c # cs) = digits_value (10 * acc + (char_code c - 48)) cs"

section \<open>Writing integers\<close>

fun nat_digits :: "nat \<Rightarrow> string" where
  "nat_digits n = (if n < 10 then [char_of (48 + n)] else nat_digits (n div 10) @ [char_of (48 + n mod 10)])"

declare nat_digits.simps [simp del]

definition int_to_string :: "int \<Rightarrow> string" where
  "int_to_string i = (if i < 0 then CHR ''-'' # nat_digits (nat (- i)) else nat_digits (nat i))"

text \<open>\<open>Number.parseInt(s, 10)\<close>: leading white space, a sign, the longest run of digits; the rest
  is ignored, and no digit at all is NaN.\<close>

definition parseInt10 :: "string \<Rightarrow> jsnum" where
  "parseInt10 s =
     (let t = dropWhile is_ws s;
          neg = (case t of c # _ \<Rightarrow> c = CHR ''-'' | [] \<Rightarrow> False);
          u = (case t of c # cs \<Rightarrow> if c = CHR ''-'' \<or> c = CHR ''+'' then cs else t | [] \<Rightarrow> t);
          ds = takeWhile is_digit u
      in if ds = [] then NaN
         else to_double (if neg then - of_nat (digits_value 0 ds) else of_nat (digits_value 0 ds)))"

lemma char_code_digit: "n < 10 \<Longrightarrow> char_code (char_of (48 + n)) = 48 + n"
  by (simp add: char_code_def)

lemma digits_value_append:
  "digits_value acc (ds @ [c]) = 10 * digits_value acc ds + (char_code c - 48)"
  by (induction acc ds rule: digits_value.induct) simp_all

lemma nat_digits_value: "digits_value 0 (nat_digits n) = n"
proof (induction n rule: nat_digits.induct)
  case (1 n)
  show ?case
  proof (cases "n < 10")
    case True
    then show ?thesis by (simp add: nat_digits.simps [of n] char_code_digit)
  next
    case False
    have "char_code (char_of (48 + n mod 10)) = 48 + n mod 10" by (rule char_code_digit) simp
    then show ?thesis using 1 False by (simp add: nat_digits.simps [of n] digits_value_append)
  qed
qed

lemma nat_digits_digits: "\<forall>c\<in>set (nat_digits n). is_digit c"
proof (induction n rule: nat_digits.induct)
  case (1 n)
  have d: "is_digit (char_of (48 + k))" if "k < 10" for k :: nat
    using char_code_digit [OF that] that by (simp add: is_digit_def)
  show ?case
    using 1 d [of n] d [of "n mod 10"] by (cases "n < 10") (auto simp: nat_digits.simps [of n])
qed

lemma int_to_string_inject: "int_to_string a = int_to_string b \<longleftrightarrow> a = b"
proof
  assume eq: "int_to_string a = int_to_string b"
  have inj: "nat_digits m = nat_digits n \<Longrightarrow> m = n" for m n by (metis nat_digits_value)
  have minus: "CHR ''-'' \<notin> set (nat_digits n)" for n
    using nat_digits_digits [of n] by (auto simp: is_digit_def char_code_def)
  have hd: "nat_digits n \<noteq> CHR ''-'' # ds" "CHR ''-'' # ds \<noteq> nat_digits n" for ds n
    using minus by (metis list.set_intros(1))+
  show "a = b"
  proof (cases "a < 0")
    case True
    with eq hd have "b < 0" "nat_digits (nat (- a)) = nat_digits (nat (- b))"
      by (auto simp: int_to_string_def split: if_splits)
    with inj True show ?thesis by fastforce
  next
    case False
    with eq hd have "\<not> b < 0" "nat_digits (nat a) = nat_digits (nat b)"
      by (auto simp: int_to_string_def split: if_splits)
    with inj False show ?thesis by fastforce
  qed
qed simp

lemma int_to_string_chars: "c \<in> set (int_to_string a) \<Longrightarrow> is_digit c \<or> c = CHR ''-''"
  using nat_digits_digits by (auto simp: int_to_string_def split: if_splits)

section \<open>Number(s)\<close>

fun digits_in :: "nat \<Rightarrow> (char \<Rightarrow> nat option) \<Rightarrow> nat \<Rightarrow> string \<Rightarrow> nat option" where
  "digits_in base d acc [] = Some acc"
| "digits_in base d acc (c # cs) =
     (case d c of None \<Rightarrow> None | Some n \<Rightarrow> if n < base then digits_in base d (base * acc + n) cs else None)"

definition hex_digit :: "char \<Rightarrow> nat option" where
  "hex_digit c =
     (let n = char_code (to_lower_char c)
      in if is_digit c then Some (char_code c - 48)
         else if 97 \<le> n \<and> n \<le> 102 then Some (n - 87) else None)"

definition radix_literal :: "nat \<Rightarrow> string \<Rightarrow> jsnum" where
  "radix_literal base ds =
     (if ds = [] then NaN
      else case digits_in base hex_digit 0 ds of None \<Rightarrow> NaN | Some n \<Rightarrow> to_double (of_nat n))"

definition pow10 :: "int \<Rightarrow> rat" where
  "pow10 e = (if 0 \<le> e then 10 ^ nat e else 1 / 10 ^ nat (- e))"

text \<open>An exponent part: absent, or a marker, a sign and at least one digit.\<close>

definition exponent_of :: "string \<Rightarrow> int option" where
  "exponent_of s =
     (case s of
        [] \<Rightarrow> Some 0
      | c # cs \<Rightarrow>
          if to_lower_char c \<noteq> CHR ''e'' then None
          else let neg = (case cs of d # _ \<Rightarrow> d = CHR ''-'' | [] \<Rightarrow> False);
                   ds = (case cs of d # r \<Rightarrow> if d = CHR ''-'' \<or> d = CHR ''+'' then r else cs | [] \<Rightarrow> [])
               in if ds = [] \<or> \<not> list_all is_digit ds then None
                  else Some (if neg then - int (digits_value 0 ds) else int (digits_value 0 ds)))"

text \<open>An unsigned decimal literal: digits, an optional fraction, an optional exponent, with a digit
  somewhere before the exponent.\<close>

definition decimal_literal :: "string \<Rightarrow> rat option" where
  "decimal_literal s =
     (let whole = takeWhile is_digit s; r = dropWhile is_digit s;
          point = (case r of c # _ \<Rightarrow> c = CHR ''.'' | [] \<Rightarrow> False);
          frac = (if point then takeWhile is_digit (tl r) else []);
          rest = (if point then dropWhile is_digit (tl r) else r)
      in if whole = [] \<and> frac = [] then None
         else case exponent_of rest of
                None \<Rightarrow> None
              | Some e \<Rightarrow> Some (of_nat (digits_value 0 (whole @ frac)) * pow10 (e - int (length frac))))"

definition signed_literal :: "string \<Rightarrow> jsnum" where
  "signed_literal s =
     (let neg = (case s of c # _ \<Rightarrow> c = CHR ''-'' | [] \<Rightarrow> False);
          u = (case s of c # cs \<Rightarrow> if c = CHR ''-'' \<or> c = CHR ''+'' then cs else s | [] \<Rightarrow> s)
      in if u = ''Infinity'' then (if neg then NegInf else PosInf)
         else case decimal_literal u of
                None \<Rightarrow> NaN | Some x \<Rightarrow> to_double (if neg then - x else x))"

definition js_Number :: "string \<Rightarrow> jsnum" where
  "js_Number s =
     (let t = js_trim s
      in if t = [] then Fin 0
         else if prefix ''0x'' t \<or> prefix ''0X'' t then radix_literal 16 (drop 2 t)
         else if prefix ''0o'' t \<or> prefix ''0O'' t then radix_literal 8 (drop 2 t)
         else if prefix ''0b'' t \<or> prefix ''0B'' t then radix_literal 2 (drop 2 t)
         else signed_literal t)"

subsection \<open>Small integers are exact\<close>

lemma round_half_even_of_int [simp]: "round_half_even (of_int n) = n"
  by (simp add: round_half_even_def)

lemma double_exp_small:
  assumes "0 < n" "n < 2 ^ 53"
  shows "double_exp (of_int n) \<le> 0"
proof -
  have q: "quotient_of (rat_of_int n) = (n, 1)"
    by (simp add: of_int_rat quotient_of_Fract normalize_def)
  have "nat n < 2 ^ 53" using assms by (simp add: nat_less_iff)
  then have "floorlog 2 (nat n) \<le> 53" using floorlog_leI [of "nat n" 2 53] by simp
  moreover have "floorlog 2 1 = (1::nat)" by (simp add: floorlog_def)
  ultimately show ?thesis by (auto simp: double_exp_def q Let_def)
qed

lemma pow2_scale: "e \<le> 0 \<Longrightarrow> rat_of_int n / pow2 e = of_int (n * 2 ^ nat (- e))"
  by (cases "e = 0") (simp_all add: pow2_def)

lemma to_double_small_pos:
  assumes "0 < n" "n < 2 ^ 53"
  shows "to_double (of_int n) = Fin (of_int n)" "to_double (- of_int n) = Fin (- of_int n)"
proof -
  let ?e = "double_exp (of_int n)"
  have r: "round_half_even (of_int n / pow2 ?e) = n * 2 ^ nat (- ?e)"
    unfolding pow2_scale [OF double_exp_small [OF assms]] by (rule round_half_even_of_int)
  have "of_int (round_half_even (of_int n / pow2 ?e)) * pow2 ?e = rat_of_int n"
    unfolding r using double_exp_small [OF assms] by (cases "?e = 0") (simp_all add: pow2_def)
  moreover have "rat_of_int n < pow2 1024"
  proof -
    have "n < 2 ^ 1024" using assms(2) by (rule less_trans) simp
    then have "rat_of_int n < of_int (2 ^ 1024)" by (simp only: of_int_less_iff)
    then show ?thesis by (simp add: pow2_def)
  qed
  ultimately show "to_double (of_int n) = Fin (of_int n)" "to_double (- of_int n) = Fin (- of_int n)"
    using assms(1) by (simp_all add: to_double_def Let_def)
qed

lemma to_double_small: "\<bar>n\<bar> < 2 ^ 53 \<Longrightarrow> to_double (of_int n) = Fin (of_int n)"
  using to_double_small_pos(1) [of n] to_double_small_pos(2) [of "- n"]
  by (cases "n = 0"; cases "0 < n") (simp_all add: to_double_def)

lemma double_exp_large:
  assumes "2 ^ 53 \<le> n"
  shows "0 \<le> double_exp (of_int n)"
proof -
  have "2 ^ 53 \<le> nat n" using assms by simp
  then have "54 \<le> floorlog 2 (nat n)" using floorlog_ge_SucI [of 2 53 "nat n"] by simp
  moreover have "floorlog 2 1 = 1" by (simp add: floorlog_def)
  moreover have "quotient_of (of_int n) = (n, 1)" by simp
  ultimately show ?thesis by (simp add: double_exp_def Let_def)
qed

lemma to_double_integer:
  assumes "to_double (of_int n) = Fin x"
  shows "\<exists>z. x = of_int z"
proof (cases "\<bar>n\<bar> < 2 ^ 53")
  case True
  then show ?thesis using to_double_small [of n] assms by auto
next
  case False
  let ?e = "double_exp (rat_of_int \<bar>n\<bar>)"
  have "0 \<le> ?e" using False by (intro double_exp_large) simp
  then have p: "pow2 ?e = of_int (2 ^ nat ?e)" by (simp add: pow2_def)
  have "\<exists>z. x = of_int z * pow2 ?e"
    using assms unfolding to_double_def Let_def of_int_abs [symmetric]
    by (auto split: if_splits intro: exI [of _ "- _"])
  then show ?thesis unfolding p by (metis of_int_mult)
qed

lemma parseInt10_integer: "parseInt10 s = Fin x \<Longrightarrow> \<exists>z. x = of_int z"
  using to_double_integer [of "int (digits_value 0 ds)" for ds] to_double_integer [of "- int (digits_value 0 ds)" for ds]
  by (auto simp: parseInt10_def Let_def split: if_splits)

lemma parseInt10_positive: "parseInt10 s = Fin x \<Longrightarrow> 0 < x \<Longrightarrow> 0 < \<lfloor>x\<rfloor>"
  using parseInt10_integer by fastforce

subsection \<open>Rounding loses little\<close>

lemma pow2_powi: "pow2 e = 2 powi e"
  by (simp add: pow2_def power_int_def field_simps)

lemma floorlog_between:
  assumes "0 < n"
  shows "(2::rat) powi (int (floorlog 2 n) - 1) \<le> of_nat n" "of_nat n < (2::rat) powi (int (floorlog 2 n))"
proof -
  have b: "2 ^ (floorlog 2 n - 1) \<le> n" "n < 2 ^ floorlog 2 n" using floorlog_bounds [of n 2] assms by auto
  have "0 < floorlog 2 n" using assms by (simp add: floorlog_def)
  then have e: "int (floorlog 2 n) - 1 = int (floorlog 2 n - 1)" by simp
  have "rat_of_nat (2 ^ (floorlog 2 n - 1)) \<le> of_nat n" using b(1) by (simp only: of_nat_le_iff)
  then show "(2::rat) powi (int (floorlog 2 n) - 1) \<le> of_nat n" unfolding e by simp
  have "rat_of_nat n < of_nat (2 ^ floorlog 2 n)" using b(2) by (simp only: of_nat_less_iff)
  then show "of_nat n < (2::rat) powi (int (floorlog 2 n))" by simp
qed

text \<open>The unit in the last place of a double is at most its value divided by \<open>2 ^ 52\<close>, except where the
  exponent range ends.\<close>

lemma double_exp_ulp:
  assumes "0 < x"
  shows "pow2 (double_exp x) * 2 ^ 52 \<le> x \<or> double_exp x = - 1074"
proof -
  obtain p q where pq: "quotient_of x = (p, q)" by fastforce
  have q: "0 < q" using quotient_of_denom_pos [OF pq] .
  have x: "x = of_int p / of_int q" by (rule quotient_of_div [OF pq])
  have p: "0 < p" using assms x q by (simp add: zero_less_divide_iff)
  let ?fp = "int (floorlog 2 (nat p))" and ?fq = "int (floorlog 2 (nat q))"
  let ?e = "?fp - ?fq - 53"
  have P: "(2::rat) powi (?fp - 1) \<le> of_int p" using floorlog_between(1) [of "nat p"] p by simp
  have Q: "of_int q < (2::rat) powi ?fq" using floorlog_between(2) [of "nat q"] q by simp
  have lo: "(2::rat) powi ?e * 2 ^ 52 \<le> x"
  proof -
    have "(2::rat) powi (?e + 52) = 2 powi ?e * 2 powi 52" by (rule power_int_add) simp
    moreover have "?e + 52 = (?fp - 1) - ?fq" by simp
    ultimately have "(2::rat) powi ?e * 2 ^ 52 = 2 powi ((?fp - 1) - ?fq)" by simp
    also have "\<dots> = 2 powi (?fp - 1) / 2 powi ?fq" by (rule power_int_diff) simp
    also have "\<dots> \<le> of_int p / of_int q" using P Q p q by (intro frac_le) auto
    finally show ?thesis using x by simp
  qed
  let ?e' = "if x / pow2 ?e < 2 ^ 53 then ?e else ?e + 1"
  have "double_exp x = max ?e' (- 1074)" by (simp add: double_exp_def pq Let_def)
  moreover have "pow2 ?e' * 2 ^ 52 \<le> x"
  proof -
    have "(2::rat) powi (?e + 1) = 2 powi ?e * 2 powi 1" by (rule power_int_add) simp
    then have "(2::rat) powi (?e + 1) = 2 * 2 powi ?e" by simp
    then show ?thesis using lo by (simp add: pow2_powi divide_less_eq not_less)
  qed
  ultimately show ?thesis by (auto simp: max_def)
qed

lemma round_half_even_close: "\<bar>of_int (round_half_even y) - y\<bar> \<le> 1 / 2"
proof -
  have "of_int \<lfloor>y\<rfloor> \<le> y" "y < of_int \<lfloor>y\<rfloor> + 1" using floor_correct [of y] by simp_all
  then show ?thesis unfolding round_half_even_def Let_def by (cases "even \<lfloor>y\<rfloor>") auto
qed

lemma round_half_even_le: "y \<le> of_int n \<Longrightarrow> round_half_even y \<le> n"
  using round_half_even_close [of y] floor_correct [of y]
  by (cases "\<lfloor>y\<rfloor> = n") (auto simp: round_half_even_def Let_def floor_le_iff floor_less_iff not_less less_le)

lemma round_half_even_nonneg: "0 \<le> y \<Longrightarrow> 0 \<le> round_half_even y"
  by (auto simp: round_half_even_def Let_def)

text \<open>Rounding a positive number below \<open>2 ^ 53\<close> never passes an integer above it, and loses at most the
  part \<open>1 / 2 ^ 53\<close> of a number that is at least one.\<close>

lemma to_double_le_int:
  assumes "0 < x" "x \<le> of_int n" "n < 2 ^ 53"
  obtains y where "to_double x = Fin y" "y \<le> of_int n" "1 \<le> x \<longrightarrow> x - x / 2 ^ 53 \<le> y"
proof -
  let ?e = "double_exp x"
  let ?u = "pow2 ?e" and ?y = "of_int (round_half_even (x / pow2 ?e)) * pow2 ?e"
  have u: "0 < ?u" by (simp add: pow2_def)
  have ulp: "?u * 2 ^ 52 \<le> x \<or> ?e = - 1074" by (rule double_exp_ulp [OF assms(1)])
  have small: "x < 2 ^ 53" using assms(2,3) by (meson le_less_trans of_int_less_numeral_power_cancel_iff)
  have e: "?e \<le> 0"
  proof (rule ccontr)
    assume "\<not> ?thesis"
    then have "0 < ?e" "?u * 2 ^ 52 \<le> x" using ulp by auto
    moreover from \<open>0 < ?e\<close> have "(2::rat) ^ 1 \<le> 2 ^ nat ?e" by (intro power_increasing) auto
    ultimately show False using small by (simp add: pow2_def)
  qed
  have "x / ?u \<le> of_int n / ?u" using assms(2) u by (simp add: divide_right_mono)
  then have "round_half_even (x / ?u) \<le> n * 2 ^ nat (- ?e)"
    unfolding pow2_scale [OF e] by (rule round_half_even_le)
  then have "rat_of_int (round_half_even (x / ?u)) \<le> of_int n / ?u"
    unfolding pow2_scale [OF e] by (simp only: of_int_le_iff)
  then have le: "?y \<le> of_int n" using u by (simp add: field_simps)
  have "1 \<le> x \<longrightarrow> x - x / 2 ^ 53 \<le> ?y"
  proof
    assume "1 \<le> x"
    then have "?u * 2 ^ 52 \<le> x" using ulp by (auto simp: pow2_def)
    moreover have "x / ?u - 1 / 2 \<le> of_int (round_half_even (x / ?u))"
      using round_half_even_close [of "x / ?u"] by linarith
    then have "(x / ?u - 1 / 2) * ?u \<le> ?y" using u by (intro mult_right_mono) simp_all
    ultimately show "x - x / 2 ^ 53 \<le> ?y" using u by (simp add: left_diff_distrib)
  qed
  moreover have "?y < pow2 1024"
  proof -
    have "of_int n < (2::rat) ^ 53" using assms(3) by simp
    also have "\<dots> \<le> 2 ^ 1024" by (rule power_increasing) simp_all
    finally show ?thesis using le by (simp add: pow2_def)
  qed
  ultimately show ?thesis using assms(1) le that [of ?y] by (simp add: to_double_def Let_def)
qed

end
