(* ===== verification/Token_Provider.thy ===== *)
theory Token_Provider
  imports Js_Runtime
begin

text \<open>
  The two OAuth client-credentials providers, \<open>src/config/IgaTokenProvider.ts\<close> of the service and
  \<open>clients/node/src/tokenProvider.js\<close> of the client. The token endpoint is an argument: what each
  request is answered is part of the run. A provider is called at a time, and its answer may arrive
  after other calls, so a run is a list of what happens to the cache.
\<close>

section \<open>Requests and replies\<close>

record iga_token_options =
  to_tokenUrl :: string
  to_clientId :: string
  to_clientSecret :: string
  to_scope :: "string option"
  to_audience :: "string option"
  to_resource :: "string option"

text \<open>A response, with the text of its body and what its JSON parses to, or the message \<open>fetch\<close>,
  \<open>text\<close> or \<open>json\<close> rejects with.\<close>

record http_reply =
  rep_status :: nat
  rep_statusText :: string
  rep_text :: "string + string"
  rep_json :: "string + json"

type_synonym token_reply = "string + http_reply"

datatype token_error =
    FetchRejected string
  | TokenRequestFailed nat string string
  | JsonRejected string
  | NullReply
  | AccessTokenMissing

definition res_ok :: "http_reply \<Rightarrow> bool" where
  "res_ok r = (200 \<le> rep_status r \<and> rep_status r \<le> 299)"

definition failed_text :: "http_reply \<Rightarrow> string" where
  "failed_text r = take 200 (case rep_text r of Inl _ \<Rightarrow> [] | Inr t \<Rightarrow> t)"

definition set_given :: "string \<Rightarrow> string option \<Rightarrow> (string \<times> string) list \<Rightarrow> (string \<times> string) list" where
  "set_given k v body = (case v of Some t \<Rightarrow> if t = [] then body else body @ [(k, t)] | None \<Rightarrow> body)"

definition credentials :: "iga_token_options \<Rightarrow> (string \<times> string) list" where
  "credentials opts =
     [(''grant_type'', ''client_credentials''), (''client_id'', to_clientId opts),
      (''client_secret'', to_clientSecret opts)]"

definition token_request_body :: "iga_token_options \<Rightarrow> (string \<times> string) list" where
  "token_request_body opts =
     set_given ''resource'' (to_resource opts)
       (set_given ''audience'' (to_audience opts) (set_given ''scope'' (to_scope opts) (credentials opts)))"

text \<open>The access token of a reply: \<open>null\<close> as a body throws on the property access.\<close>

definition reply_fields :: "token_reply \<Rightarrow> token_error + json" where
  "reply_fields rep =
     (case rep of
        Inl msg \<Rightarrow> Inl (FetchRejected msg)
      | Inr r \<Rightarrow>
          if \<not> res_ok r then Inl (TokenRequestFailed (rep_status r) (rep_statusText r) (failed_text r))
          else case rep_json r of
                 Inl msg \<Rightarrow> Inl (JsonRejected msg)
               | Inr JNull \<Rightarrow> Inl NullReply
               | Inr j \<Rightarrow> Inr j)"

definition access_token_of :: "json \<Rightarrow> token_error + string" where
  "access_token_of j =
     (case opt_field (Some j) ''access_token'' of
        Some (JStr t) \<Rightarrow> if t = [] then Inl AccessTokenMissing else Inr t
      | _ \<Rightarrow> Inl AccessTokenMissing)"

definition token_of_reply :: "token_reply \<Rightarrow> token_error + string" where
  "token_of_reply rep = sbind (reply_fields rep) access_token_of"

section \<open>The provider of the service\<close>

record token_cache =
  tc_accessToken :: "string option"
  tc_expiresAt :: jsnum

definition new_token_cache :: token_cache where
  "new_token_cache = \<lparr> tc_accessToken = None, tc_expiresAt = Fin 0 \<rparr>"

definition EARLY_EXPIRY_MS :: int where
  "EARLY_EXPIRY_MS = 30000"

definition token_invalidate :: "token_cache \<Rightarrow> token_cache" where
  "token_invalidate c = c\<lparr>tc_accessToken := None, tc_expiresAt := Fin 0\<rparr>"

definition isTokenValid :: "int \<Rightarrow> token_cache \<Rightarrow> bool" where
  "isTokenValid now c =
     (tc_accessToken c \<noteq> None \<and> jsnum_greater (tc_expiresAt c) (of_int (now + EARLY_EXPIRY_MS)))"

definition getTokenExpiryTime :: "token_cache \<Rightarrow> jsnum" where
  "getTokenExpiryTime c = tc_expiresAt c"

text \<open>\<open>expires_in\<close> as a number or a text, with 300 for anything that is no positive finite number.\<close>

definition expires_in_sec :: "json \<Rightarrow> jsnum" where
  "expires_in_sec j =
     (let expires = (case opt_field (Some j) ''expires_in'' of
                       Some (JNum n) \<Rightarrow> Some n | Some (JStr t) \<Rightarrow> Some (parseInt10 t) | _ \<Rightarrow> None)
      in case expires of
           Some n \<Rightarrow> if is_finite n \<and> jsnum_greater n 0 then n else Fin 300
         | None \<Rightarrow> Fin 300)"

definition lifetime_of :: "(json \<Rightarrow> jsnum) \<Rightarrow> token_reply \<Rightarrow> jsnum" where
  "lifetime_of expires rep = (case reply_fields rep of Inl _ \<Rightarrow> NaN | Inr j \<Rightarrow> expires j)"

definition expires_at :: "int \<Rightarrow> jsnum \<Rightarrow> jsnum" where
  "expires_at now expiresInSec = js_plus (of_int now) (js_scale 1000 expiresInSec)"

text \<open>\<open>getToken\<close> up to its request, and what it does with the reply.\<close>

datatype token_answer = FromCache string | Requesting "(string \<times> string) list"

definition get_token_call :: "iga_token_options \<Rightarrow> int \<Rightarrow> token_cache \<Rightarrow> token_answer" where
  "get_token_call opts now c =
     (if isTokenValid now c then FromCache (the (tc_accessToken c)) else Requesting (token_request_body opts))"

definition on_token_reply :: "int \<Rightarrow> token_reply \<Rightarrow> token_cache \<Rightarrow> (token_error + string) \<times> token_cache" where
  "on_token_reply now rep c =
     (case token_of_reply rep of
        Inl e \<Rightarrow> (Inl e, c)
      | Inr t \<Rightarrow> (Inr t, c\<lparr>tc_accessToken := Some t, tc_expiresAt := expires_at now (lifetime_of expires_in_sec rep)\<rparr>))"

section \<open>The provider of the client\<close>

definition DEFAULT_EARLY_EXPIRY_MS :: jsnum where
  "DEFAULT_EARLY_EXPIRY_MS = Fin 30000"

datatype provider_error = TokenUrlRequired | ClientIdRequired | ClientSecretRequired

definition createTokenProvider ::
  "string option \<Rightarrow> string option \<Rightarrow> string option \<Rightarrow> string option \<Rightarrow> string option \<Rightarrow> string option
     \<Rightarrow> provider_error + iga_token_options \<times> token_cache" where
  "createTokenProvider tokenUrl clientId clientSecret audience scope resource =
     (if tokenUrl \<in> {None, Some []} then Inl TokenUrlRequired
      else if clientId \<in> {None, Some []} then Inl ClientIdRequired
      else if clientSecret \<in> {None, Some []} then Inl ClientSecretRequired
      else Inr (\<lparr> to_tokenUrl = the tokenUrl, to_clientId = the clientId, to_clientSecret = the clientSecret,
                  to_scope = scope, to_audience = audience, to_resource = resource \<rparr>, new_token_cache))"

definition client_request_body :: "iga_token_options \<Rightarrow> (string \<times> string) list" where
  "client_request_body opts =
     set_given ''resource'' (to_resource opts)
       (set_given ''scope'' (to_scope opts) (set_given ''audience'' (to_audience opts) (credentials opts)))"

definition client_valid :: "int \<Rightarrow> int \<Rightarrow> jsnum \<Rightarrow> bool" where
  "client_valid early now expiresAt = jsnum_greater (js_plus (of_int (- early)) expiresAt) (of_int now)"

definition getAccessToken_call :: "int \<Rightarrow> iga_token_options \<Rightarrow> int \<Rightarrow> token_cache \<Rightarrow> token_answer" where
  "getAccessToken_call early opts now c =
     (case tc_accessToken c of
        Some t \<Rightarrow> if t \<noteq> [] \<and> client_valid early now (tc_expiresAt c) then FromCache t
                  else Requesting (client_request_body opts)
      | None \<Rightarrow> Requesting (client_request_body opts))"

definition client_expires_in :: "json \<Rightarrow> jsnum" where
  "client_expires_in j =
     (case opt_field (Some j) ''expires_in'' of
        Some (JNum n) \<Rightarrow> if jsnum_greater n 0 then n else Fin 300
      | _ \<Rightarrow> Fin 300)"

definition getAccessToken_reply :: "int \<Rightarrow> token_reply \<Rightarrow> token_cache \<Rightarrow> (token_error + string) \<times> token_cache" where
  "getAccessToken_reply now rep c =
     (case token_of_reply rep of
        Inl e \<Rightarrow> (Inl e, c)
      | Inr t \<Rightarrow> (Inr t, c\<lparr>tc_accessToken := Some t, tc_expiresAt := expires_at now (lifetime_of client_expires_in rep)\<rparr>))"

section \<open>The contract both keep\<close>

datatype token_event = Invalidated | Replied int token_reply

fun run_tokens ::
  "(int \<Rightarrow> token_reply \<Rightarrow> token_cache \<Rightarrow> (token_error + string) \<times> token_cache)
     \<Rightarrow> token_event list \<Rightarrow> token_cache \<Rightarrow> token_cache" where
  "run_tokens receive [] c = c"
| "run_tokens receive (Invalidated # es) c = run_tokens receive es (token_invalidate c)"
| "run_tokens receive (Replied now rep # es) c = run_tokens receive es (snd (receive now rep c))"

lemma run_tokens_append: "run_tokens receive (es @ fs) c = run_tokens receive fs (run_tokens receive es c)"
  by (induction receive es c rule: run_tokens.induct) simp_all

definition answered_by ::
  "(int \<Rightarrow> token_reply \<Rightarrow> int \<Rightarrow> bool) \<Rightarrow> token_event list \<Rightarrow> int \<Rightarrow> string \<Rightarrow> bool" where
  "answered_by lives es now t =
     (\<exists>before then_at rep after. es = before @ Replied then_at rep # after \<and> token_of_reply rep = Inr t \<and>
        lives then_at rep now \<and> Invalidated \<notin> set after \<and>
        (\<forall>s r. Replied s r \<in> set after \<longrightarrow> (\<exists>e. token_of_reply r = Inl e)))"

text \<open>A provider remembers the last accepted reply until it is invalidated, for as long as the reply
  lives.\<close>

locale token_provider =
  fixes cached :: "int \<Rightarrow> token_cache \<Rightarrow> string option"
    and receive :: "int \<Rightarrow> token_reply \<Rightarrow> token_cache \<Rightarrow> (token_error + string) \<times> token_cache"
    and lives :: "int \<Rightarrow> token_reply \<Rightarrow> int \<Rightarrow> bool"
  assumes nothing_new: "cached now new_token_cache = None"
    and nothing_invalidated: "cached now (token_invalidate c) = None"
    and answers: "fst (receive now rep c) = token_of_reply rep"
    and keeps_on_failure: "token_of_reply rep = Inl e \<Longrightarrow> snd (receive now rep c) = c"
    and remembers: "token_of_reply rep = Inr t \<Longrightarrow>
      cached later (snd (receive now rep c)) = (if lives now rep later then Some t else None)"
begin

lemma answered_by_later:
  assumes "answered_by lives es now t" "e \<noteq> Invalidated" "\<And>s r. e = Replied s r \<Longrightarrow> \<exists>x. token_of_reply r = Inl x"
  shows "answered_by lives (es @ [e]) now t"
proof -
  obtain before s rep after where e: "es = before @ Replied s rep # after" "token_of_reply rep = Inr t"
    "lives s rep now" "Invalidated \<notin> set after"
    "\<forall>s r. Replied s r \<in> set after \<longrightarrow> (\<exists>e. token_of_reply r = Inl e)"
    using assms(1) unfolding answered_by_def by blast
  show ?thesis unfolding answered_by_def
    using e assms(2,3) by (intro exI [of _ before] exI [of _ s] exI [of _ rep] exI [of _ "after @ [e]"]) auto
qed

lemma cached_answered:
  "cached now (run_tokens receive es new_token_cache) = Some t \<Longrightarrow> answered_by lives es now t"
proof (induction es rule: rev_induct)
  case Nil
  then show ?case by (simp add: nothing_new)
next
  case (snoc e es)
  show ?case
  proof (cases e)
    case Invalidated
    with snoc.prems show ?thesis by (simp add: run_tokens_append nothing_invalidated)
  next
    case (Replied s rep)
    show ?thesis
    proof (cases "token_of_reply rep")
      case (Inl x)
      then have "cached now (run_tokens receive es new_token_cache) = Some t"
        using snoc.prems Replied by (simp add: run_tokens_append keeps_on_failure)
      from answered_by_later [OF snoc.IH [OF this], of e] show ?thesis by (simp add: Replied Inl)
    next
      case (Inr u)
      then have "lives s rep now \<and> u = t"
        using snoc.prems Replied by (simp add: run_tokens_append remembers split: if_splits)
      with Inr Replied show ?thesis unfolding answered_by_def
        by (intro exI [of _ es] exI [of _ s] exI [of _ rep] exI [of _ "[]"]) simp
    qed
  qed
qed

lemma fresh_reply_cached:
  "token_of_reply rep = Inr t \<Longrightarrow>
   cached later (run_tokens receive (es @ [Replied now rep]) c) = (if lives now rep later then Some t else None)"
  by (simp add: run_tokens_append remembers)

lemma invalidated_not_cached: "cached now (run_tokens receive (es @ [Invalidated]) c) = None"
  by (simp add: run_tokens_append nothing_invalidated)

end

definition cached_answer :: "token_answer \<Rightarrow> string option" where
  "cached_answer a = (case a of FromCache t \<Rightarrow> Some t | Requesting _ \<Rightarrow> None)"

definition iga_lives :: "int \<Rightarrow> token_reply \<Rightarrow> int \<Rightarrow> bool" where
  "iga_lives received rep now =
     jsnum_greater (expires_at received (lifetime_of expires_in_sec rep)) (of_int (now + EARLY_EXPIRY_MS))"

definition client_lives :: "int \<Rightarrow> int \<Rightarrow> token_reply \<Rightarrow> int \<Rightarrow> bool" where
  "client_lives early received rep now =
     client_valid early now (expires_at received (lifetime_of client_expires_in rep))"

lemma token_of_reply_nonempty: "token_of_reply rep \<noteq> Inr []"
  by (auto simp: token_of_reply_def sbind_def access_token_of_def split: sum.splits option.splits json.splits if_splits)

interpretation iga: token_provider "\<lambda>now c. cached_answer (get_token_call opts now c)" on_token_reply iga_lives
  by unfold_locales
    (auto simp: cached_answer_def get_token_call_def isTokenValid_def new_token_cache_def token_invalidate_def
      on_token_reply_def iga_lives_def split: sum.splits)

interpretation client: token_provider
  "\<lambda>now c. cached_answer (getAccessToken_call early opts now c)" getAccessToken_reply "client_lives early"
  using token_of_reply_nonempty
  by unfold_locales
    (auto simp: cached_answer_def getAccessToken_call_def new_token_cache_def token_invalidate_def
      getAccessToken_reply_def client_lives_def split: sum.splits)

section \<open>How long a token is used\<close>

lemma expires_at_int:
  assumes "0 \<le> t0" "t0 < 2 ^ 51" "\<bar>n\<bar> \<le> 1000000000"
  shows "expires_at t0 (Fin (of_int n)) = Fin (of_int (t0 + n * 1000))"
proof -
  have "to_double (of_int (n * 1000)) = Fin (of_int (n * 1000))"
    using assms(3) by (intro to_double_small) simp
  moreover have "to_double (of_int (t0 + n * 1000)) = Fin (of_int (t0 + n * 1000))"
    using assms by (intro to_double_small) simp
  ultimately show ?thesis by (simp add: expires_at_def js_plus_def js_scale_def)
qed

lemma jsnum_greater_int: "jsnum_greater (Fin (of_int a)) (of_int b) \<longleftrightarrow> b < a"
  by (simp add: jsnum_greater_def)

lemma expires_in_sec_positive: "jsnum_greater (expires_in_sec j) 0"
proof -
  have "jsnum_greater (Fin 300) 0" by (simp add: jsnum_greater_def)
  then show ?thesis unfolding expires_in_sec_def Let_def by (simp split: option.split)
qed

lemma lifetime_positive: "token_of_reply rep = Inr t \<Longrightarrow> jsnum_greater (lifetime_of expires_in_sec rep) 0"
  using expires_in_sec_positive
  by (cases "reply_fields rep") (simp_all add: token_of_reply_def lifetime_of_def)

text \<open>C40: A token is used while it lives and no longer: whatever order requests, replies and
  invalidations take, a token the service's provider answers without asking the endpoint was given by
  the last accepted reply, was not invalidated since, and more than thirty seconds remain of the
  life that reply stated; and a reply that states \<open>n\<close> seconds is answered from the cache exactly
  while that holds, so a token of thirty seconds or less is never reused.\<close>

theorem token_reuse_bounded:
  assumes reused: "get_token_call opts now (run_tokens on_token_reply es new_token_cache) = FromCache t"
    and reply: "token_of_reply rep = Inr u" "lifetime_of expires_in_sec rep = Fin (of_int n)"
    and sane: "0 \<le> t0" "t0 < 2 ^ 51" "n \<le> 1000000000"
  shows "answered_by (\<lambda>received r at_time. jsnum_greater (expires_at received (lifetime_of expires_in_sec r))
           (of_int (at_time + 30000))) es now t \<and>
    (get_token_call opts later (run_tokens on_token_reply (es @ [Replied t0 rep]) new_token_cache) =
       (if later + 30000 < t0 + n * 1000 then FromCache u else Requesting (token_request_body opts)))"
proof
  have "cached_answer (get_token_call opts now (run_tokens on_token_reply es new_token_cache)) = Some t"
    by (simp add: reused cached_answer_def)
  from iga.cached_answered [OF this]
  show "answered_by (\<lambda>received r at_time. jsnum_greater (expires_at received (lifetime_of expires_in_sec r))
      (of_int (at_time + 30000))) es now t"
    by (simp add: iga_lives_def [abs_def] EARLY_EXPIRY_MS_def)
next
  have "0 < n" using lifetime_positive [OF reply(1)] by (simp add: reply(2) jsnum_greater_def)
  then have nonneg: "\<bar>n\<bar> \<le> 1000000000" using sane(3) by simp
  have "iga_lives t0 rep later \<longleftrightarrow> later + 30000 < t0 + n * 1000"
    unfolding iga_lives_def reply(2)
    by (simp only: expires_at_int [OF sane(1,2) nonneg] jsnum_greater_int EARLY_EXPIRY_MS_def)
  then show "get_token_call opts later (run_tokens on_token_reply (es @ [Replied t0 rep]) new_token_cache) =
      (if later + 30000 < t0 + n * 1000 then FromCache u else Requesting (token_request_body opts))"
    using iga.fresh_reply_cached [OF reply(1), where opts = opts and es = es and later = later and now = t0
        and c = new_token_cache]
    by (simp add: cached_answer_def get_token_call_def split: token_answer.splits if_splits)
qed

definition example_options :: iga_token_options where
  "example_options =
     \<lparr> to_tokenUrl = ''https://am.example/token'', to_clientId = ''prov'', to_clientSecret = ''s'',
       to_scope = None, to_audience = Some ''iga'', to_resource = None \<rparr>"

definition token_body :: "string \<Rightarrow> rat \<Rightarrow> token_reply" where
  "token_body t seconds =
     Inr \<lparr> rep_status = 200, rep_statusText = ''OK'', rep_text = Inr [],
           rep_json = Inr (JObj [(''access_token'', JStr t), (''expires_in'', JNum (Fin seconds))]) \<rparr>"

lemma token_body_parts:
  "t \<noteq> [] \<Longrightarrow> token_of_reply (token_body t n) = Inr t"
  "0 < n \<Longrightarrow> lifetime_of expires_in_sec (token_body t n) = Fin n"
  by (simp_all add: token_body_def token_of_reply_def reply_fields_def res_ok_def access_token_of_def opt_field_def
      obj_get_def lifetime_of_def expires_in_sec_def is_finite_def jsnum_greater_def)

theorem token_reuse_bounded_witness:
  "answered_by (\<lambda>received r at_time. jsnum_greater (expires_at received (lifetime_of expires_in_sec r))
      (of_int (at_time + 30000))) [Invalidated, Replied 1000 (token_body ''a'' 60)] 30999 ''a'' \<and>
   get_token_call example_options 5000 (run_tokens on_token_reply
     [Invalidated, Replied 1000 (token_body ''a'' 60), Replied 5000 (token_body ''b'' 30)] new_token_cache) =
     Requesting (token_request_body example_options)"
proof -
  let ?es = "[Invalidated, Replied 1000 (token_body ''a'' 60)]"
  have e: "expires_at 1000 (Fin 60) = Fin 61000"
    using expires_at_int [of 1000 60] by simp
  have cached: "get_token_call example_options 30999 (run_tokens on_token_reply ?es new_token_cache) = FromCache ''a''"
    by (simp add: on_token_reply_def token_body_parts e get_token_call_def isTokenValid_def EARLY_EXPIRY_MS_def
        jsnum_greater_def)
  show ?thesis
    using token_reuse_bounded [OF cached, of "token_body ''b'' 30" "''b''" 30 5000 5000]
    by (simp add: token_body_parts)
qed

lemma client_token_reuse:
  "getAccessToken_call early opts now (run_tokens getAccessToken_reply es new_token_cache) = FromCache t \<Longrightarrow>
   answered_by (client_lives early) es now t"
  by (rule client.cached_answered [where opts = opts]) (simp add: cached_answer_def)

text \<open>A client is told an infinite life where the service falls back to five minutes: \<open>1e999\<close> parses to
  infinity.\<close>

lemma infinite_life:
  "client_expires_in (JObj [(''expires_in'', JNum PosInf)]) = PosInf"
  "expires_in_sec (JObj [(''expires_in'', JNum PosInf)]) = Fin 300"
  "client_valid early now (expires_at received PosInf)"
  by (simp_all add: client_expires_in_def expires_in_sec_def opt_field_def obj_get_def jsnum_greater_def is_finite_def
      client_valid_def expires_at_def js_plus_def js_scale_def)

text \<open>A text life is only read by the service.\<close>

lemma text_life:
  "client_expires_in (JObj [(''expires_in'', JStr t)]) = Fin 300"
  "expires_in_sec (JObj [(''expires_in'', JStr t)]) =
     (if is_finite (parseInt10 t) \<and> jsnum_greater (parseInt10 t) 0 then parseInt10 t else Fin 300)"
  by (simp_all add: client_expires_in_def expires_in_sec_def opt_field_def obj_get_def)

text \<open>A reply to a request made before an invalidation is kept: the next call does not fetch.\<close>

lemma invalidate_overtaken:
  "get_token_call example_options 2000
     (run_tokens on_token_reply [Invalidated, Replied 1000 (token_body ''a'' 60)] new_token_cache) = FromCache ''a''"
proof -
  have "expires_at 1000 (Fin 60) = Fin 61000" using expires_at_int [of 1000 60] by simp
  then show ?thesis
    by (simp add: on_token_reply_def token_body_parts get_token_call_def isTokenValid_def EARLY_EXPIRY_MS_def
        jsnum_greater_def)
qed

end
