(* ===== verification/Node_Client.thy ===== *)
theory Node_Client
  imports Token_Provider
begin

text \<open>
  The client package \<open>clients/node/src\<close>: idempotency keys, the request path with its mapping of errors,
  the object calls with the reader of the search stream, and the wait for an outcome. The transport
  is an argument: every request has a reply or a rejection. \<open>JSON.parse\<close> and the decoding of a chunk
  are arguments of the stream reader.
\<close>

section \<open>Errors\<close>

text \<open>The message is the value given to the constructor of \<open>Error\<close>.\<close>

datatype client_error =
    HttpError json nat jsval json
  | AdmissionRejected jsval jsval json nat
  | NotFound json nat json
  | WaitTimeout string int
  | TypeErrorThrown
  | FetchFailed string
  | NoToken token_error

definition isAdmissionRejected :: "client_error \<Rightarrow> bool" where
  "isAdmissionRejected e = (case e of AdmissionRejected _ _ _ _ \<Rightarrow> True | _ \<Rightarrow> False)"

definition isHttpError :: "client_error \<Rightarrow> bool" where
  "isHttpError e =
     (case e of HttpError _ _ _ _ \<Rightarrow> True | AdmissionRejected _ _ _ _ \<Rightarrow> True | NotFound _ _ _ \<Rightarrow> True | _ \<Rightarrow> False)"

section \<open>Idempotency keys\<close>

definition assertNonEmpty :: "jsval \<Rightarrow> string \<Rightarrow> string + string" where
  "assertNonEmpty v name =
     (case v of Some (JStr t) \<Rightarrow> if js_trim t = [] then Inl name else Inr t | _ \<Rightarrow> Inl name)"

definition buildKey :: "jsval \<Rightarrow> jsval \<Rightarrow> jsval \<Rightarrow> jsval \<Rightarrow> string + string" where
  "buildKey instanceId objectClass identity orderingKey =
     sbind (assertNonEmpty instanceId ''instanceId'') (\<lambda>i.
     sbind (assertNonEmpty objectClass ''objectClass'') (\<lambda>c.
     sbind (assertNonEmpty identity ''identity'') (\<lambda>u.
     sbind (assertNonEmpty orderingKey ''orderingKey'') (\<lambda>k. Inr (i @ '':'' @ c @ '':'' @ u @ '':'' @ k)))))"

definition buildMutationKey :: "jsval \<Rightarrow> jsval \<Rightarrow> jsval \<Rightarrow> jsval \<Rightarrow> string + string" where
  "buildMutationKey instanceId objectClass uid orderingKey = buildKey instanceId objectClass uid orderingKey"

definition buildCreateKey :: "jsval \<Rightarrow> jsval \<Rightarrow> jsval \<Rightarrow> jsval \<Rightarrow> string + string" where
  "buildCreateKey instanceId objectClass nameAttrValue orderingKey =
     buildKey instanceId objectClass nameAttrValue orderingKey"

section \<open>The request path\<close>

record client_request =
  cq_method :: string
  cq_path :: string
  cq_authorization :: string
  cq_idempotency_key :: "string option"
  cq_body :: jsval

text \<open>What a call sends, given the token.\<close>

definition call_request :: "string \<Rightarrow> string \<Rightarrow> jsval \<Rightarrow> string option \<Rightarrow> string \<Rightarrow> client_request" where
  "call_request meth path body key token =
     \<lparr> cq_method = meth, cq_path = path, cq_authorization = ''Bearer '' @ token,
       cq_idempotency_key = (if key = Some [] then None else key), cq_body = body \<rparr>"

definition error_message :: "http_reply \<Rightarrow> json \<Rightarrow> json" where
  "error_message r problem =
     (let m = opt_field (Some problem) ''message''
      in if js_truthy m then the m
         else if rep_statusText r \<noteq> [] then JStr (rep_statusText r)
         else JStr (''request failed with status '' @ int_to_string (int (rep_status r))))"

definition mapErrorResponse :: "http_reply \<Rightarrow> client_error" where
  "mapErrorResponse r =
     (let problem = (case rep_json r of Inl _ \<Rightarrow> JObj [] | Inr j \<Rightarrow> j); message = error_message r problem
      in if problem = JNull then TypeErrorThrown
         else if rep_status r = 429
         then AdmissionRejected (opt_field (Some problem) ''backlogDepth'') (opt_field (Some problem) ''priority'')
                message (rep_status r)
         else if rep_status r = 404 then NotFound message (rep_status r) problem
         else HttpError message (rep_status r) (opt_field (Some problem) ''error'') problem)"

definition call_reply :: "token_reply \<Rightarrow> client_error + json" where
  "call_reply rep =
     (case rep of
        Inl msg \<Rightarrow> Inl (FetchFailed msg)
      | Inr r \<Rightarrow>
          if 400 \<le> rep_status r then Inl (mapErrorResponse r)
          else if rep_status r = 204 then Inr JNull
          else case rep_json r of Inl msg \<Rightarrow> Inl (FetchFailed msg) | Inr j \<Rightarrow> Inr j)"

definition client_call ::
  "token_error + string \<Rightarrow> (client_request \<Rightarrow> token_reply) \<Rightarrow> (string \<Rightarrow> client_request) \<Rightarrow> client_error + json" where
  "client_call token transport request =
     (case token of Inl e \<Rightarrow> Inl (NoToken e) | Inr t \<Rightarrow> call_reply (transport (request t)))"

section \<open>The object calls\<close>

definition objects_path :: "string \<Rightarrow> string \<Rightarrow> string" where
  "objects_path instanceId objectClass = ''/instances/'' @ instanceId @ ''/objects/'' @ objectClass"

definition attributes_body :: "json \<Rightarrow> jsval" where
  "attributes_body attributes = Some (JObj [(''attributes'', attributes)])"

definition createObject :: "string \<Rightarrow> string \<Rightarrow> json \<Rightarrow> jsval \<Rightarrow> string option \<Rightarrow> string \<Rightarrow> client_request" where
  "createObject i oc attributes priority key =
     call_request ''POST'' (objects_path i oc)
       (Some (obj_literal [(''attributes'', Some attributes), (''priority'', priority)])) key"

definition replaceObject :: "string \<Rightarrow> string \<Rightarrow> string \<Rightarrow> json \<Rightarrow> string option \<Rightarrow> string \<Rightarrow> client_request" where
  "replaceObject i oc uid attributes key =
     call_request ''PUT'' (objects_path i oc @ ''/'' @ uid) (attributes_body attributes) key"

definition deleteObject :: "string \<Rightarrow> string \<Rightarrow> string \<Rightarrow> string option \<Rightarrow> string \<Rightarrow> client_request" where
  "deleteObject i oc uid key = call_request ''DELETE'' (objects_path i oc @ ''/'' @ uid) None key"

definition addValues :: "string \<Rightarrow> string \<Rightarrow> string \<Rightarrow> json \<Rightarrow> string option \<Rightarrow> string \<Rightarrow> client_request" where
  "addValues i oc uid attributes key =
     call_request ''POST'' (objects_path i oc @ ''/'' @ uid @ ''/add-values'') (attributes_body attributes) key"

definition removeValues :: "string \<Rightarrow> string \<Rightarrow> string \<Rightarrow> json \<Rightarrow> string option \<Rightarrow> string \<Rightarrow> client_request" where
  "removeValues i oc uid attributes key =
     call_request ''POST'' (objects_path i oc @ ''/'' @ uid @ ''/remove-values'') (attributes_body attributes) key"

definition getObject :: "string \<Rightarrow> string \<Rightarrow> string \<Rightarrow> string \<Rightarrow> client_request" where
  "getObject i oc uid = call_request ''GET'' (objects_path i oc @ ''/'' @ uid) None None"

section \<open>The search stream\<close>

type_synonym parser = "string \<Rightarrow> string + json"

definition newline :: char where
  "newline = CHR 0x0A"

text \<open>The inner loop: what it yields, and the rest of the buffer or what \<open>JSON.parse\<close> threw.\<close>

function drain_lines :: "parser \<Rightarrow> string \<Rightarrow> json list \<times> (string + string)" where
  "drain_lines parse buffer =
     (if newline \<notin> set buffer then ([], Inr buffer)
      else let line = takeWhile (\<lambda>c. c \<noteq> newline) buffer; rest = drop (Suc (length line)) buffer
           in if line = [] then drain_lines parse rest
              else case parse line of
                     Inl e \<Rightarrow> ([], Inl e)
                   | Inr j \<Rightarrow> (case drain_lines parse rest of (js, r) \<Rightarrow> (j # js, r)))"
  by pat_completeness auto
termination by (relation "measure (\<lambda>(_, buffer). length buffer)") (auto dest: length_pos_if_in_set)

declare drain_lines.simps [simp del]

fun read_chunks :: "parser \<Rightarrow> string list \<Rightarrow> string \<Rightarrow> json list \<times> string option" where
  "read_chunks parse [] buffer =
     (if js_trim buffer \<noteq> []
      then (case parse buffer of Inl e \<Rightarrow> ([], Some e) | Inr j \<Rightarrow> ([j], None))
      else ([], None))"
| "read_chunks parse (c # cs) buffer =
     (case drain_lines parse (buffer @ c) of
        (js, Inl e) \<Rightarrow> (js, Some e)
      | (js, Inr rest) \<Rightarrow> (case read_chunks parse cs rest of (ks, r) \<Rightarrow> (js @ ks, r)))"

definition search_objects ::
  "parser \<Rightarrow> ('b \<Rightarrow> string) \<Rightarrow> token_reply \<Rightarrow> 'b list \<Rightarrow> client_error + json list \<times> string option" where
  "search_objects parse decode reply chunks =
     (case reply of
        Inl msg \<Rightarrow> Inl (FetchFailed msg)
      | Inr r \<Rightarrow>
          if \<not> res_ok r then Inl (mapErrorResponse r) else Inr (read_chunks parse (map decode chunks) []))"

section \<open>Waiting for an outcome\<close>

datatype wait_result = Polling | Outcome json | WaitFailed client_error

text \<open>The loop over what it observes: the time at its head and the answer of the poll.\<close>

fun wait_loop :: "string \<Rightarrow> int \<Rightarrow> int \<Rightarrow> (int \<times> (client_error + json)) list \<Rightarrow> wait_result" where
  "wait_loop oid timeoutMs deadline [] = Polling"
| "wait_loop oid timeoutMs deadline ((now, answer) # obs) =
     (if \<not> now < deadline then WaitFailed (WaitTimeout oid timeoutMs)
      else case answer of
             Inl e \<Rightarrow> WaitFailed e
           | Inr JNull \<Rightarrow> WaitFailed TypeErrorThrown
           | Inr state \<Rightarrow>
               if js_truthy (opt_field (Some state) ''outcome'') then Outcome state
               else wait_loop oid timeoutMs deadline obs)"

definition waitForOutcome :: "string \<Rightarrow> int option \<Rightarrow> int \<Rightarrow> (int \<times> (client_error + json)) list \<Rightarrow> wait_result" where
  "waitForOutcome oid timeoutMs called obs =
     (let t = (case timeoutMs of Some n \<Rightarrow> n | None \<Rightarrow> 30000) in wait_loop oid t (called + t) obs)"

section \<open>Building a client\<close>

datatype client_config_error = BaseUrlRequired | NoAuth | BothAuths | ProviderError provider_error

text \<open>Either a token function of the caller, or the options of the built-in provider.\<close>

datatype token_source = CustomTokens | ProviderTokens iga_token_options token_cache

record auth_options =
  ao_tokenUrl :: "string option"
  ao_clientId :: "string option"
  ao_clientSecret :: "string option"
  ao_audience :: "string option"
  ao_scope :: "string option"
  ao_resource :: "string option"

definition createProvisioningClient ::
  "string option \<Rightarrow> auth_options option \<Rightarrow> bool \<Rightarrow> client_config_error + token_source" where
  "createProvisioningClient baseUrl auth custom =
     (if baseUrl \<in> {None, Some []} then Inl BaseUrlRequired
      else if auth = None \<and> \<not> custom then Inl NoAuth
      else if auth \<noteq> None \<and> custom then Inl BothAuths
      else case auth of
             None \<Rightarrow> Inr CustomTokens
           | Some a \<Rightarrow>
               (case createTokenProvider (ao_tokenUrl a) (ao_clientId a) (ao_clientSecret a) (ao_audience a)
                       (ao_scope a) (ao_resource a) of
                  Inl e \<Rightarrow> Inl (ProviderError e)
                | Inr (opts, cache) \<Rightarrow> Inr (ProviderTokens opts cache)))"

text \<open>\<open>invalidateToken\<close> of the client.\<close>

definition invalidateToken :: "token_source \<Rightarrow> token_source" where
  "invalidateToken t = (case t of CustomTokens \<Rightarrow> CustomTokens | ProviderTokens opts c \<Rightarrow> ProviderTokens opts (token_invalidate c))"

section \<open>Keys tell writes apart\<close>

lemma assertNonEmpty_Inr: "assertNonEmpty v name = Inr t \<longleftrightarrow> v = Some (JStr t) \<and> js_trim t \<noteq> []"
  by (auto simp: assertNonEmpty_def split: option.splits json.splits)

lemma buildKey_Inr:
  "buildKey i c u k = Inr key \<longleftrightarrow>
   (\<exists>i' c' u' k'. i = Some (JStr i') \<and> c = Some (JStr c') \<and> u = Some (JStr u') \<and> k = Some (JStr k') \<and>
      js_trim i' \<noteq> [] \<and> js_trim c' \<noteq> [] \<and> js_trim u' \<noteq> [] \<and> js_trim k' \<noteq> [] \<and>
      key = i' @ '':'' @ c' @ '':'' @ u' @ '':'' @ k')"
  by (auto simp: buildKey_def sbind_Inr_iff assertNonEmpty_Inr)

text \<open>Two writes get the same idempotency key only if they are the same write: when the instances, the
  object classes and the identities of two accepted keys contain no colon, equal keys come from equal
  instances, classes, identities and task ids.\<close>

theorem keys_tell_writes_apart:
  assumes "buildMutationKey (Some (JStr i)) (Some (JStr c)) (Some (JStr u)) (Some (JStr k)) = Inr key"
    and "buildMutationKey (Some (JStr i')) (Some (JStr c')) (Some (JStr u')) (Some (JStr k')) = Inr key"
    and "CHR '':'' \<notin> set (i @ c @ u) \<union> set (i' @ c' @ u')"
  shows "i = i' \<and> c = c' \<and> u = u' \<and> k = k'"
proof -
  have "split_on (CHR '':'') (i @ '':'' @ c @ '':'' @ u @ '':'' @ k) =
      i # c # u # split_on (CHR '':'') k" for k
    using assms(3) by (simp add: split_on_append)
  moreover have "split_on (CHR '':'') (i' @ '':'' @ c' @ '':'' @ u' @ '':'' @ k) =
      i' # c' # u' # split_on (CHR '':'') k" for k
    using assms(3) by (simp add: split_on_append)
  moreover have "i @ '':'' @ c @ '':'' @ u @ '':'' @ k = i' @ '':'' @ c' @ '':'' @ u' @ '':'' @ k'"
    using assms(1,2) by (simp add: buildMutationKey_def buildKey_Inr)
  ultimately show ?thesis by (metis list.inject append_same_eq same_append_eq)
qed

theorem keys_tell_writes_apart_witness:
  "buildMutationKey (Some (JStr ''ad'')) (Some (JStr ''user'')) (Some (JStr ''u1'')) (Some (JStr ''t:1'')) = Inr ''ad:user:u1:t:1'' \<and>
   buildMutationKey (Some (JStr ''ad'')) (Some (JStr ''group'')) (Some (JStr ''u1'')) (Some (JStr ''t:1'')) \<noteq> Inr ''ad:user:u1:t:1''"
proof -
  have t: "js_trim ''ad'' \<noteq> []" "js_trim ''user'' \<noteq> []" "js_trim ''u1'' \<noteq> []" "js_trim ''t:1'' \<noteq> []" by code_simp+
  then have k: "buildMutationKey (Some (JStr ''ad'')) (Some (JStr ''user'')) (Some (JStr ''u1'')) (Some (JStr ''t:1'')) =
      Inr ''ad:user:u1:t:1''"
    by (simp add: buildMutationKey_def buildKey_Inr)
  then show ?thesis
    using keys_tell_writes_apart [OF k, of "''ad''" "''group''" "''u1''" "''t:1''"] by auto
qed

text \<open>With a colon inside a component two different writes share a key.\<close>

lemma keys_collide:
  "buildCreateKey (Some (JStr ''ad'')) (Some (JStr ''user'')) (Some (JStr ''a:b'')) (Some (JStr ''t'')) =
   buildMutationKey (Some (JStr ''ad'')) (Some (JStr ''user:a'')) (Some (JStr ''b'')) (Some (JStr ''t''))"
  by code_simp

text \<open>Path components are not escaped: another object class reaches the route of the deltas.\<close>

lemma paths_collide:
  "cq_path (createObject ''ad'' ''user/u1/add-values'' a p key token) = cq_path (addValues ''ad'' ''user'' ''u1'' b key' token')"
  by (simp add: createObject_def addValues_def call_request_def objects_path_def)

section \<open>The stream is cut anywhere\<close>

lemma drain_line:
  assumes "newline \<notin> set line"
  shows "drain_lines parse (line @ newline # rest) =
    (if line = [] then drain_lines parse rest
     else case parse line of
            Inl e \<Rightarrow> ([], Inl e)
          | Inr j \<Rightarrow> (case drain_lines parse rest of (js, r) \<Rightarrow> (j # js, r)))"
proof -
  have "takeWhile (\<lambda>c. c \<noteq> newline) (line @ newline # rest) = line"
    using assms by (induction line) auto
  then show ?thesis by (simp add: drain_lines.simps [of parse "line @ newline # rest"])
qed

lemma drain_no_line: "newline \<notin> set buffer \<Longrightarrow> drain_lines parse buffer = ([], Inr buffer)"
  by (simp add: drain_lines.simps [of parse buffer])

lemma line_induct [case_names rest line]:
  assumes "\<And>b. newline \<notin> set b \<Longrightarrow> P b" "\<And>line b. newline \<notin> set line \<Longrightarrow> P b \<Longrightarrow> P (line @ newline # b)"
  shows "P (b::string)"
proof (induction b rule: length_induct)
  case (1 b)
  show ?case
  proof (cases "newline \<in> set b")
    case True
    then obtain line rest where b: "b = line @ newline # rest" "newline \<notin> set line" by (metis split_list_first)
    with 1 show ?thesis using assms(2) by simp
  qed (rule assms(1))
qed

lemma drain_append:
  "drain_lines parse (b @ c) =
     (case drain_lines parse b of
        (js, Inl e) \<Rightarrow> (js, Inl e)
      | (js, Inr rest) \<Rightarrow> (case drain_lines parse (rest @ c) of (ks, r) \<Rightarrow> (js @ ks, r)))"
proof (induction b rule: line_induct)
  case (rest b)
  then show ?case by (simp add: drain_no_line)
next
  case (line line b)
  have e: "(line @ newline # b) @ c = line @ newline # (b @ c)" by simp
  show ?case unfolding e drain_line [OF line(1)]
    using line(2) by (auto split: sum.splits prod.splits)
qed

definition stream_end :: "parser \<Rightarrow> json list \<times> (string + string) \<Rightarrow> json list \<times> string option" where
  "stream_end parse d =
     (case d of
        (js, Inl e) \<Rightarrow> (js, Some e)
      | (js, Inr rest) \<Rightarrow> (case read_chunks parse [] rest of (ks, r) \<Rightarrow> (js @ ks, r)))"

lemma drain_rest: "drain_lines parse b = (js, Inr rest) \<Longrightarrow> newline \<notin> set rest"
proof (induction b arbitrary: js rule: line_induct)
  case (line line b)
  then show ?case by (auto simp: drain_line split: sum.splits prod.splits if_splits)
qed (auto simp: drain_no_line)

lemma read_chunks_concat:
  "newline \<notin> set b \<Longrightarrow> read_chunks parse cs b = stream_end parse (drain_lines parse (b @ concat cs))"
proof (induction cs arbitrary: b)
  case Nil
  then show ?case by (simp add: stream_end_def drain_no_line split: sum.split)
next
  case (Cons c cs)
  obtain js r where d: "drain_lines parse (b @ c) = (js, r)" by fastforce
  show ?case
  proof (cases r)
    case (Inl e)
    then show ?thesis using d drain_append [of parse "b @ c" "concat cs"] by (simp add: stream_end_def)
  next
    case (Inr rest)
    then have "newline \<notin> set rest" using d drain_rest by blast
    then show ?thesis using d Inr drain_append [of parse "b @ c" "concat cs"] Cons.IH [of rest]
      by (auto simp: stream_end_def split: prod.splits sum.splits)
  qed
qed

lemma drain_objects:
  assumes "\<forall>x\<in>set xs. parse (show_json x) = Inr x \<and> show_json x \<noteq> [] \<and> newline \<notin> set (show_json x)"
  shows "drain_lines parse (concat (map (\<lambda>x. show_json x @ [newline]) xs)) = (xs, Inr [])"
  using assms by (induction xs) (simp_all add: drain_no_line drain_line)

lemma read_objects:
  assumes "\<forall>x\<in>set xs. parse (show_json x) = Inr x \<and> show_json x \<noteq> [] \<and> newline \<notin> set (show_json x)"
    and "concat cs = concat (map (\<lambda>x. show_json x @ [newline]) xs)"
  shows "read_chunks parse cs [] = (xs, None)"
  using drain_objects [OF assms(1)]
  by (simp add: read_chunks_concat assms(2) stream_end_def js_trim_def)

section \<open>The wait\<close>

lemma wait_outcome:
  "wait_loop oid t d obs = Outcome st \<Longrightarrow>
   \<exists>now. (now, Inr st) \<in> set obs \<and> now < d \<and> js_truthy (opt_field (Some st) ''outcome'')"
proof (induction oid t d obs rule: wait_loop.induct)
  case (2 oid t d now answer obs)
  then show ?case by (auto split: if_splits sum.splits json.splits)
qed simp

lemma wait_ends:
  "\<exists>x\<in>set obs. d \<le> fst x \<Longrightarrow> wait_loop oid t d obs \<noteq> Polling"
proof (induction oid t d obs rule: wait_loop.induct)
  case (2 oid t d now answer obs)
  then have "now < d \<Longrightarrow> \<exists>x\<in>set obs. d \<le> fst x" by auto
  with 2 show ?case by (auto split: sum.split json.split)
qed simp

end
