(* ===== verification/Op_Types.thy ===== *)
theory Op_Types
  imports Js_Runtime
begin

text \<open>
  The vocabulary of a durable operation row (\<open>src/ops/types.ts\<close> and the types of
  \<open>src/ops/OperationStore.ts\<close>): kinds, priority classes, statuses, the hot and the history row,
  and what the store's operations take and return. Times in rows are microseconds since the epoch,
  as a \<open>timestamptz\<close> is; the program's own clock counts milliseconds.
\<close>

section \<open>Kinds, classes and statuses\<close>

datatype op_type = CREATE | UPDATE | DELETE | ADD_VALUES | REMOVE_VALUES

datatype priority = Interactive | Batch

text \<open>\<open>ORDER BY (priority = 'interactive') DESC\<close>: interactive before batch.\<close>

instantiation priority :: linorder
begin

definition less_eq_priority :: "priority \<Rightarrow> priority \<Rightarrow> bool" where
  "less_eq_priority a b = (a = Interactive \<or> b = Batch)"

definition less_priority :: "priority \<Rightarrow> priority \<Rightarrow> bool" where
  "less_priority a b = (a = Interactive \<and> b = Batch)"

instance
proof
  fix x y z :: priority
  show "(x < y) = (x \<le> y \<and> \<not> y \<le> x)"
    by (cases x; cases y) (simp_all add: less_priority_def less_eq_priority_def)
  show "x \<le> x" by (cases x) (simp_all add: less_eq_priority_def)
  show "x \<le> y \<Longrightarrow> y \<le> z \<Longrightarrow> x \<le> z"
    by (cases x; cases y; cases z) (simp_all add: less_eq_priority_def)
  show "x \<le> y \<Longrightarrow> y \<le> x \<Longrightarrow> x = y"
    by (cases x; cases y) (simp_all add: less_eq_priority_def)
  show "x \<le> y \<or> y \<le> x" by (cases x; cases y) (simp_all add: less_eq_priority_def)
qed

end

lemma priority_less_simps [simp]:
  "Interactive < Batch" "\<not> Batch < p" "\<not> p < Interactive" "p \<le> Batch" "Interactive \<le> p"
  "Batch \<le> p \<longleftrightarrow> p = Batch" "p \<le> Interactive \<longleftrightarrow> p = Interactive"
  by (cases p; simp add: less_priority_def less_eq_priority_def)+

datatype outcome = SUCCEEDED | REJECTED_PRE_DISPATCH | FAILED_CONFIRMED | INDETERMINATE

datatype pending_status = PENDING | RUNNING | AWAITING_READBACK

text \<open>The union of the non-terminal states and the outcomes.\<close>

datatype op_status = Pend pending_status | Outc outcome

definition TERMINAL_STATUSES :: "op_status list" where
  "TERMINAL_STATUSES =
     map Outc [SUCCEEDED, REJECTED_PRE_DISPATCH, FAILED_CONFIRMED, INDETERMINATE]"

text \<open>The generated column \<open>terminal\<close> of the table: the status is none of the non-terminal
  three.\<close>

definition terminal :: "op_status \<Rightarrow> bool" where
  "terminal s = (s \<notin> set (map Pend [PENDING, RUNNING, AWAITING_READBACK]))"

lemma terminal_simps [simp]: "terminal (Outc x)" "\<not> terminal (Pend y)"
  by (cases y; simp add: terminal_def)+

lemma terminal_iff_TERMINAL_STATUSES: "terminal s \<longleftrightarrow> s \<in> set TERMINAL_STATUSES"
proof (cases s)
  case (Pend p)
  then show ?thesis by (simp add: TERMINAL_STATUSES_def)
next
  case (Outc x)
  then show ?thesis by (cases x) (simp_all add: TERMINAL_STATUSES_def)
qed

lemma not_terminal_iff: "\<not> terminal s \<longleftrightarrow> (\<exists>p. s = Pend p)"
  by (cases s) auto

section \<open>Rows\<close>

record op_row =
  r_id :: string
  r_instance_id :: string
  r_object_class :: string
  r_op_type :: op_type
  r_priority :: priority
  r_status :: op_status
  r_lane_key :: string
  r_uid :: "string option"
  r_name_attr_value :: "string option"
  r_attrs :: "json option"
  r_result :: "json option"
  r_error_code :: "string option"
  r_attempt_count :: nat
  r_created_at :: int
  r_claimed_at :: "int option"
  r_finalized_at :: "int option"
  r_idempotency_key :: string
  r_not_before :: "int option"

record history_row =
  h_id :: string
  h_instance_id :: string
  h_object_class :: string
  h_op_type :: op_type
  h_status :: op_status
  h_uid :: "string option"
  h_error_code :: "string option"
  h_created_at :: int
  h_finalized_at :: int

section \<open>What the operations take and return\<close>

record enqueue_input =
  e_instance_id :: string
  e_object_class :: string
  e_op_type :: op_type
  e_lane_key :: string
  e_idempotency_key :: string
  e_priority :: "priority option"
  e_uid :: "string option"
  e_name_attr_value :: "string option"
  e_attrs :: "json option"

record enqueue_result =
  er_id :: string
  er_deduplicated :: bool

record claimed_op =
  c_id :: string
  c_instance_id :: string
  c_object_class :: string
  c_op_type :: op_type
  c_priority :: priority
  c_lane_key :: string
  c_uid :: "string option"
  c_name_attr_value :: "string option"
  c_attrs :: "json option"
  c_attempt_count :: nat
  c_created_at :: int
  c_idempotency_key :: string
  c_prior_status :: op_status

record reap_result =
  deferredForReadback :: nat
  requeued :: nat

record status_row =
  s_id :: string
  s_instance_id :: string
  s_object_class :: string
  s_op_type :: op_type
  s_status :: op_status
  s_attempt_count :: nat
  s_result :: "json option"
  s_error_code :: "string option"
  s_created_at :: int
  s_finalized_at :: "int option"
  s_from_history :: bool
  s_priority :: "priority option"

record pending_counts =
  interactive_count :: nat
  batch_count :: nat

text \<open>How many rows an instance may contribute to a cycle: batch rows, and rows in total.\<close>

record availability =
  batchFree :: int
  totalFree :: int

end
