(* ===== verification/Metrics.thy ===== *)
theory Metrics
  imports Op_Types
begin

text \<open>
  \<open>src/ops/metrics.ts\<close>: the names of the measurements, the calls of the sink the framework
  declares (\<open>counter\<close>, \<open>gauge\<close>, \<open>histogram\<close>: name, value, labels), recorded in the order they are
  made, and the label texts.
\<close>

section \<open>Names\<close>

definition BACKLOG_DEPTH :: string where "BACKLOG_DEPTH = ''gcf.operations.backlog_depth''"
definition OLDEST_PENDING_AGE_MS :: string where
  "OLDEST_PENDING_AGE_MS = ''gcf.operations.oldest_pending_age_ms''"
definition CLAIM_CYCLE_MS :: string where "CLAIM_CYCLE_MS = ''gcf.dispatcher.claim_cycle_ms''"
definition CLAIMED :: string where "CLAIMED = ''gcf.dispatcher.claimed''"
definition OUTCOME :: string where "OUTCOME = ''gcf.operations.outcome''"
definition REQUEUED :: string where "REQUEUED = ''gcf.operations.requeued''"
definition DEFERRED_READBACK :: string where
  "DEFERRED_READBACK = ''gcf.operations.deferred_readback''"
definition REAPED :: string where "REAPED = ''gcf.operations.reaped''"
definition ATTEMPT_LATENCY_MS :: string where
  "ATTEMPT_LATENCY_MS = ''gcf.operations.attempt_latency_ms''"
definition PARTITION_DAYS_AHEAD :: string where
  "PARTITION_DAYS_AHEAD = ''gcf.operations.partition_days_ahead''"
definition PARTITION_DROP_REFUSED :: string where
  "PARTITION_DROP_REFUSED = ''gcf.operations.partition_drop_refused''"

section \<open>Measurements and labels\<close>

datatype metric =
    Counter string int "(string \<times> string) list"
  | Gauge string int "(string \<times> string) list"
  | Histogram string int "(string \<times> string) list"

fun priority_name :: "priority \<Rightarrow> string" where
  "priority_name Interactive = ''interactive''"
| "priority_name Batch = ''batch''"

fun op_type_name :: "op_type \<Rightarrow> string" where
  "op_type_name CREATE = ''CREATE''"
| "op_type_name UPDATE = ''UPDATE''"
| "op_type_name DELETE = ''DELETE''"
| "op_type_name ADD_VALUES = ''ADD_VALUES''"
| "op_type_name REMOVE_VALUES = ''REMOVE_VALUES''"

fun outcome_name :: "outcome \<Rightarrow> string" where
  "outcome_name SUCCEEDED = ''SUCCEEDED''"
| "outcome_name REJECTED_PRE_DISPATCH = ''REJECTED_PRE_DISPATCH''"
| "outcome_name FAILED_CONFIRMED = ''FAILED_CONFIRMED''"
| "outcome_name INDETERMINATE = ''INDETERMINATE''"

end
