(* ===== verification/Operation_Store.thy ===== *)
theory Operation_Store
  imports Op_Types
begin

text \<open>
  \<open>src/ops/OperationStore.ts\<close>: the durable operation table. The state holds the hot rows, the
  permanent history rows and the days that have a partition. Each SQL statement of the class is
  one definition over that state, each method the composition the method makes of them; a method
  that runs in a transaction is one atomic step. \<open>now\<close> is the database clock in microseconds.
  Rows a concurrent transaction has locked are the argument \<open>held\<close> of the claim.
\<close>

section \<open>State\<close>

record op_store =
  rows :: "op_row list"
  history :: "history_row list"
  partitions :: "int list"

definition day_of :: "int \<Rightarrow> int" where
  "day_of t = t div 86400000000"

definition us_of_ms :: "int \<Rightarrow> int" where
  "us_of_ms ms = ms * 1000"

text \<open>A SQL \<open>UPDATE operations SET \<dots> WHERE \<dots>\<close> and its row count.\<close>

definition update_where :: "(op_row \<Rightarrow> bool) \<Rightarrow> (op_row \<Rightarrow> op_row) \<Rightarrow> op_store \<Rightarrow> op_store" where
  "update_where P f s = s\<lparr>rows := map (\<lambda>r. if P r then f r else r) (rows s)\<rparr>"

definition count_where :: "(op_row \<Rightarrow> bool) \<Rightarrow> op_store \<Rightarrow> nat" where
  "count_where P s = length (filter P (rows s))"

section \<open>Operation ids\<close>

definition is_hex :: "char \<Rightarrow> bool" where
  "is_hex c = (is_digit c \<or> (97 \<le> char_code (to_lower_char c) \<and> char_code (to_lower_char c) \<le> 102))"

definition isOperationId :: "string \<Rightarrow> bool" where
  "isOperationId i =
     (length i = 36 \<and>
      list_all (\<lambda>(n, c). if n \<in> set [8, 13, 18, 23] then c = CHR ''-'' else is_hex c)
        (zip [0..<36] i))"

text \<open>A \<open>uuid\<close> column compares values, so the letter case of the text does not matter; rows
  hold the canonical lower-case text.\<close>

definition uuid_of :: "string \<Rightarrow> string" where
  "uuid_of i = to_lower i"

definition has_id :: "string \<Rightarrow> op_row \<Rightarrow> bool" where
  "has_id i r = (r_id r = uuid_of i)"

section \<open>enqueue\<close>

definition newest_with_key :: "string \<Rightarrow> op_row list \<Rightarrow> op_row option" where
  "newest_with_key k os =
     (case sort_key (\<lambda>r. - r_created_at r) (filter (\<lambda>r. r_idempotency_key r = k) os) of
        [] \<Rightarrow> None | r # _ \<Rightarrow> Some r)"

definition new_row :: "int \<Rightarrow> string \<Rightarrow> enqueue_input \<Rightarrow> op_row" where
  "new_row now new_id op =
     \<lparr> r_id = new_id,
       r_instance_id = e_instance_id op,
       r_object_class = e_object_class op,
       r_op_type = e_op_type op,
       r_priority = (case e_priority op of None \<Rightarrow> Batch | Some p \<Rightarrow> p),
       r_status = Pend PENDING,
       r_lane_key = e_lane_key op,
       r_uid = e_uid op,
       r_name_attr_value = e_name_attr_value op,
       r_attrs = (if nullish (e_attrs op) then None else e_attrs op),
       r_result = None,
       r_error_code = None,
       r_attempt_count = 0,
       r_created_at = now,
       r_claimed_at = None,
       r_finalized_at = None,
       r_idempotency_key = e_idempotency_key op,
       r_not_before = None \<rparr>"

text \<open>The two ways the table refuses the row: no partition covers its day, or the primary key
  \<open>(id, created_at)\<close> is taken.\<close>

datatype db_error = NoPartition int | DuplicateKey string | DbFailure string

definition enqueue ::
  "int \<Rightarrow> string \<Rightarrow> enqueue_input \<Rightarrow> op_store \<Rightarrow> db_error + enqueue_result \<times> op_store" where
  "enqueue now new_id op s =
     (case newest_with_key (e_idempotency_key op) (rows s) of
        Some prior \<Rightarrow> Inr (\<lparr> er_id = r_id prior, er_deduplicated = True \<rparr>, s)
      | None \<Rightarrow>
          if day_of now \<notin> set (partitions s) then Inl (NoPartition (day_of now))
          else if list_ex (\<lambda>r. r_id r = new_id \<and> r_created_at r = now) (rows s)
          then Inl (DuplicateKey new_id)
          else Inr (\<lparr> er_id = new_id, er_deduplicated = False \<rparr>,
                    s\<lparr>rows := rows s @ [new_row now new_id op]\<rparr>))"

section \<open>claimBatch\<close>

definition lane_of :: "op_row \<Rightarrow> string \<times> string" where
  "lane_of r = (r_instance_id r, r_lane_key r)"

definition is_running :: "op_row \<Rightarrow> bool" where
  "is_running r = (r_status r = Pend RUNNING)"

text \<open>Comparisons with a null \<open>not_before\<close> are not true.\<close>

definition readback_waiting :: "int \<Rightarrow> op_row \<Rightarrow> bool" where
  "readback_waiting now r =
     (r_status r = Pend AWAITING_READBACK \<and>
      (case r_not_before r of None \<Rightarrow> False | Some t \<Rightarrow> now < t))"

definition readback_due :: "int \<Rightarrow> op_row \<Rightarrow> bool" where
  "readback_due now r =
     (r_status r = Pend AWAITING_READBACK \<and>
      (case r_not_before r of None \<Rightarrow> False | Some t \<Rightarrow> t \<le> now))"

definition blocked_lanes :: "int \<Rightarrow> op_row list \<Rightarrow> (string \<times> string) list" where
  "blocked_lanes now os = map lane_of (filter (\<lambda>r. is_running r \<or> readback_waiting now r) os)"

definition claimable :: "int \<Rightarrow> op_row \<Rightarrow> bool" where
  "claimable now r = (r_status r = Pend PENDING \<or> readback_due now r)"

type_synonym caps = "(string \<times> int \<times> int) list"

definition cap_of :: "caps \<Rightarrow> op_row \<Rightarrow> int" where
  "cap_of cs r = (case map_of cs (r_instance_id r) of None \<Rightarrow> 0 | Some (cap, _) \<Rightarrow> cap)"

definition batch_cap_of :: "caps \<Rightarrow> op_row \<Rightarrow> int" where
  "batch_cap_of cs r = (case map_of cs (r_instance_id r) of None \<Rightarrow> 0 | Some (_, b) \<Rightarrow> b)"

text \<open>The rows of \<open>lane_leaders\<close> before the window: joined with \<open>caps\<close>, claimable, in no excluded
  and no blocked lane.\<close>

definition lane_candidates :: "int \<Rightarrow> string list \<Rightarrow> caps \<Rightarrow> op_row list \<Rightarrow> op_row list" where
  "lane_candidates now active cs os =
     filter (\<lambda>r. r_instance_id r \<in> set (map fst cs) \<and> claimable now r \<and>
                 r_lane_key r \<notin> set active \<and> lane_of r \<notin> set (blocked_lanes now os)) os"

definition claim_order :: "op_row \<Rightarrow> priority \<times> int" where
  "claim_order r = (r_priority r, r_created_at r)"

text \<open>\<open>lane_rn = 1\<close>: one row per instance and lane.\<close>

definition lane_leaders :: "int \<Rightarrow> string list \<Rightarrow> caps \<Rightarrow> op_row list \<Rightarrow> op_row list" where
  "lane_leaders now active cs os =
     (let cands = lane_candidates now active cs os
      in filter (\<lambda>r. row_number lane_of claim_order cands r = 1) cands)"

text \<open>\<open>rn\<close> and \<open>class_rn\<close> of \<open>ranked\<close>, cut at the two caps.\<close>

definition within_caps :: "caps \<Rightarrow> op_row list \<Rightarrow> op_row \<Rightarrow> bool" where
  "within_caps cs leaders r =
     (int (row_number r_instance_id claim_order leaders r) \<le> cap_of cs r \<and>
      (r_priority r \<noteq> Batch \<or>
       int (row_number (\<lambda>r. (r_instance_id r, r_priority r)) r_created_at leaders r)
         \<le> batch_cap_of cs r))"

definition picked :: "int \<Rightarrow> int \<Rightarrow> string list \<Rightarrow> caps \<Rightarrow> op_row list \<Rightarrow> op_row list" where
  "picked now limit active cs os =
     (let leaders = lane_leaders now active cs os
      in take (nat limit) (sort_key claim_order (filter (within_caps cs leaders) leaders)))"

definition to_claimed :: "op_row \<Rightarrow> claimed_op" where
  "to_claimed r =
     \<lparr> c_id = r_id r,
       c_instance_id = r_instance_id r,
       c_object_class = r_object_class r,
       c_op_type = r_op_type r,
       c_priority = r_priority r,
       c_lane_key = r_lane_key r,
       c_uid = r_uid r,
       c_name_attr_value = r_name_attr_value r,
       c_attrs = r_attrs r,
       c_attempt_count = r_attempt_count r,
       c_created_at = r_created_at r,
       c_idempotency_key = r_idempotency_key r,
       c_prior_status = r_status r \<rparr>"

text \<open>\<open>locked\<close>: the picked rows as they are when the lock is taken, which may be later than the
  snapshot the pick was made on. Rows another transaction holds are skipped.\<close>

definition locked :: "string list \<Rightarrow> op_row list \<Rightarrow> op_row \<Rightarrow> bool" where
  "locked held ps r =
     ((r_id r, r_created_at r) \<in> set (map (\<lambda>p. (r_id p, r_created_at p)) ps) \<and>
      \<not> terminal (r_status r) \<and> r_status r \<noteq> Pend RUNNING \<and> r_id r \<notin> set held)"

definition mark_running :: "int \<Rightarrow> op_row \<Rightarrow> op_row" where
  "mark_running now r =
     r\<lparr>r_status := Pend RUNNING, r_claimed_at := Some now, r_not_before := None\<rparr>"

definition claim_commit ::
  "int \<Rightarrow> string list \<Rightarrow> op_row list \<Rightarrow> op_store \<Rightarrow> claimed_op list \<times> op_store" where
  "claim_commit now held ps s =
     (map to_claimed (filter (locked held ps) (rows s)),
      update_where (locked held ps) (mark_running now) s)"

definition caps_of_availability :: "(string \<times> availability) list \<Rightarrow> caps" where
  "caps_of_availability avail =
     map (\<lambda>(i, a). (i, totalFree a, max 0 (min (batchFree a) (totalFree a))))
       (filter (\<lambda>(i, a). 0 < totalFree a) avail)"

definition claimBatch ::
  "int \<Rightarrow> string list \<Rightarrow> int \<Rightarrow> string list \<Rightarrow> (string \<times> availability) list \<Rightarrow> op_store
     \<Rightarrow> claimed_op list \<times> op_store" where
  "claimBatch now held limit active avail s =
     (let cs = caps_of_availability avail
      in if cs = [] \<or> limit \<le> 0 then ([], s)
         else claim_commit now held (picked now limit active cs (rows s)) s)"

section \<open>finalize\<close>

text \<open>\<open>result->>'uid'\<close>. A uid that is not a string, which the connector's object type excludes,
  reads as absent.\<close>

definition result_uid :: "json option \<Rightarrow> string option" where
  "result_uid v = (case opt_field v ''uid'' of Some (JStr u) \<Rightarrow> Some u | _ \<Rightarrow> None)"

definition finalize_row ::
  "int \<Rightarrow> outcome \<Rightarrow> json option \<Rightarrow> string option \<Rightarrow> op_row \<Rightarrow> op_row" where
  "finalize_row now out res err r =
     r\<lparr>r_status := Outc out,
       r_result := (case res of None \<Rightarrow> r_result r | Some v \<Rightarrow> Some v),
       r_error_code := err,
       r_finalized_at := Some now\<rparr>"

definition history_of :: "int \<Rightarrow> op_row \<Rightarrow> history_row" where
  "history_of now r =
     \<lparr> h_id = r_id r,
       h_instance_id = r_instance_id r,
       h_object_class = r_object_class r,
       h_op_type = r_op_type r,
       h_status = r_status r,
       h_uid = (case r_uid r of Some u \<Rightarrow> Some u | None \<Rightarrow> result_uid (r_result r)),
       h_error_code = r_error_code r,
       h_created_at = r_created_at r,
       h_finalized_at = now \<rparr>"

text \<open>\<open>ON CONFLICT (id) DO NOTHING\<close>.\<close>

definition insert_history :: "history_row \<Rightarrow> op_store \<Rightarrow> op_store" where
  "insert_history h s =
     (if h_id h \<in> set (map h_id (history s)) then s else s\<lparr>history := history s @ [h]\<rparr>)"

definition finalize ::
  "int \<Rightarrow> string \<Rightarrow> outcome \<Rightarrow> json option \<Rightarrow> string option \<Rightarrow> op_store \<Rightarrow> bool \<times> op_store" where
  "finalize now i out res err s =
     (if \<not> isOperationId i then (False, s)
      else let P = (\<lambda>r. has_id i r \<and> r_status r \<notin> set TERMINAL_STATUSES)
           in case filter P (rows s) of
                [] \<Rightarrow> (False, s)
              | r # _ \<Rightarrow>
                  (True, insert_history (history_of now (finalize_row now out res err r))
                           (update_where P (finalize_row now out res err) s)))"

section \<open>deferForReadback, reapStale, requeue\<close>

definition deferForReadback :: "string \<Rightarrow> int \<Rightarrow> op_store \<Rightarrow> bool \<times> op_store" where
  "deferForReadback i notBefore s =
     (if \<not> isOperationId i then (False, s)
      else let P = (\<lambda>r. has_id i r \<and> is_running r)
           in (0 < count_where P s,
               update_where P (\<lambda>r. r\<lparr>r_status := Pend AWAITING_READBACK, r_claimed_at := None,
                                      r_not_before := Some notBefore\<rparr>) s))"

definition stale :: "int \<Rightarrow> int \<Rightarrow> op_row \<Rightarrow> bool" where
  "stale now thresholdMs r =
     (is_running r \<and>
      (case r_claimed_at r of None \<Rightarrow> False | Some t \<Rightarrow> t < now - us_of_ms thresholdMs))"

definition stale_create :: "int \<Rightarrow> int \<Rightarrow> op_row \<Rightarrow> bool" where
  "stale_create now thresholdMs r = (stale now thresholdMs r \<and> r_op_type r = CREATE)"

definition stale_other :: "int \<Rightarrow> int \<Rightarrow> op_row \<Rightarrow> bool" where
  "stale_other now thresholdMs r = (stale now thresholdMs r \<and> r_op_type r \<noteq> CREATE)"

definition reap_creates :: "int \<Rightarrow> int \<Rightarrow> int \<Rightarrow> op_store \<Rightarrow> op_store" where
  "reap_creates now thresholdMs readBackDelayMs s =
     update_where (stale_create now thresholdMs)
       (\<lambda>r. r\<lparr>r_status := Pend AWAITING_READBACK, r_claimed_at := None,
              r_not_before := Some (now + us_of_ms readBackDelayMs)\<rparr>) s"

definition reap_others :: "int \<Rightarrow> int \<Rightarrow> op_store \<Rightarrow> op_store" where
  "reap_others now thresholdMs s =
     update_where (stale_other now thresholdMs)
       (\<lambda>r. r\<lparr>r_status := Pend PENDING, r_claimed_at := None, r_not_before := None\<rparr>) s"

text \<open>\<open>acquired\<close> is what \<open>pg_try_advisory_xact_lock\<close> answered.\<close>

definition reapStale ::
  "int \<Rightarrow> bool \<Rightarrow> int \<Rightarrow> int \<Rightarrow> op_store \<Rightarrow> reap_result \<times> op_store" where
  "reapStale now acquired thresholdMs readBackDelayMs s =
     (if \<not> acquired then (\<lparr> deferredForReadback = 0, requeued = 0 \<rparr>, s)
      else let s1 = reap_creates now thresholdMs readBackDelayMs s
           in (\<lparr> deferredForReadback = count_where (stale_create now thresholdMs) s,
                 requeued = count_where (stale_other now thresholdMs) s1 \<rparr>,
               reap_others now thresholdMs s1))"

definition requeue :: "string \<Rightarrow> op_store \<Rightarrow> bool \<times> op_store" where
  "requeue i s =
     (if \<not> isOperationId i then (False, s)
      else let P = (\<lambda>r. has_id i r \<and> is_running r)
           in (0 < count_where P s,
               update_where P (\<lambda>r. r\<lparr>r_status := Pend PENDING, r_claimed_at := None,
                                      r_attempt_count := r_attempt_count r + 1\<rparr>) s))"

section \<open>pendingCounts, getStatus\<close>

definition in_backlog :: "string \<Rightarrow> op_row \<Rightarrow> bool" where
  "in_backlog inst r =
     (r_instance_id r = inst \<and> r_status r \<in> set [Pend PENDING, Pend AWAITING_READBACK])"

definition pendingCounts :: "string \<Rightarrow> op_store \<Rightarrow> pending_counts" where
  "pendingCounts inst s =
     \<lparr> interactive_count = count_where (\<lambda>r. in_backlog inst r \<and> r_priority r = Interactive) s,
       batch_count = count_where (\<lambda>r. in_backlog inst r \<and> r_priority r = Batch) s \<rparr>"

definition status_of_row :: "op_row \<Rightarrow> status_row" where
  "status_of_row r =
     \<lparr> s_id = r_id r,
       s_instance_id = r_instance_id r,
       s_object_class = r_object_class r,
       s_op_type = r_op_type r,
       s_status = r_status r,
       s_attempt_count = r_attempt_count r,
       s_result = (if nullish (r_result r) then None else r_result r),
       s_error_code = r_error_code r,
       s_created_at = r_created_at r,
       s_finalized_at = r_finalized_at r,
       s_from_history = False,
       s_priority = Some (r_priority r) \<rparr>"

definition status_of_history :: "history_row \<Rightarrow> status_row" where
  "status_of_history h =
     \<lparr> s_id = h_id h,
       s_instance_id = h_instance_id h,
       s_object_class = h_object_class h,
       s_op_type = h_op_type h,
       s_status = h_status h,
       s_attempt_count = 0,
       s_result = (case h_uid h of None \<Rightarrow> None
                   | Some u \<Rightarrow> if u = '''' then None else Some (JObj [(''uid'', JStr u)])),
       s_error_code = h_error_code h,
       s_created_at = h_created_at h,
       s_finalized_at = Some (h_finalized_at h),
       s_from_history = True,
       s_priority = None \<rparr>"

definition getStatus :: "string \<Rightarrow> op_store \<Rightarrow> status_row option" where
  "getStatus i s =
     (if \<not> isOperationId i then None
      else case List.find (has_id i) (rows s) of
             Some r \<Rightarrow> Some (status_of_row r)
           | None \<Rightarrow> map_option status_of_history
                       (List.find (\<lambda>h. h_id h = uuid_of i) (history s)))"

end
