(* ===== verification/Store_Invariant.thy ===== *)
theory Store_Invariant
  imports Operation_Store
begin

text \<open>
  The well-formedness invariant of the operation table and its preservation by every operation of
  \<open>OperationStore\<close>: ids and idempotency keys are unique, each status carries the columns it needs,
  a terminal row has its history row and a live one has none, every row lies in a partition, and a
  lane never holds two running rows.
\<close>

section \<open>The invariant\<close>

definition row_ok :: "op_row \<Rightarrow> bool" where
  "row_ok r =
     (case r_status r of
        Pend PENDING \<Rightarrow> r_claimed_at r = None \<and> r_not_before r = None \<and> r_finalized_at r = None
      | Pend RUNNING \<Rightarrow> r_claimed_at r \<noteq> None \<and> r_not_before r = None \<and> r_finalized_at r = None
      | Pend AWAITING_READBACK \<Rightarrow>
          r_claimed_at r = None \<and> r_not_before r \<noteq> None \<and> r_finalized_at r = None
      | Outc _ \<Rightarrow> r_finalized_at r \<noteq> None)"

definition id_ok :: "string \<Rightarrow> bool" where
  "id_ok i = (isOperationId i \<and> uuid_of i = i)"

definition records :: "history_row \<Rightarrow> op_row \<Rightarrow> bool" where
  "records h r =
     (h_id h = r_id r \<and> h_status h = r_status r \<and> h_error_code h = r_error_code r \<and>
      h_instance_id h = r_instance_id r \<and> h_created_at h = r_created_at r \<and>
      Some (h_finalized_at h) = r_finalized_at r)"

definition history_ok :: "op_store \<Rightarrow> bool" where
  "history_ok s =
     (distinct (map h_id (history s)) \<and>
      (\<forall>h\<in>set (history s). terminal (h_status h) \<and> id_ok (h_id h)) \<and>
      (\<forall>r\<in>set (rows s). terminal (r_status r) \<longrightarrow> (\<exists>h\<in>set (history s). records h r)) \<and>
      (\<forall>r\<in>set (rows s). \<not> terminal (r_status r) \<longrightarrow> r_id r \<notin> h_id ` set (history s)))"

definition lane_exclusive :: "op_store \<Rightarrow> bool" where
  "lane_exclusive s =
     (\<forall>r\<in>set (rows s). \<forall>q\<in>set (rows s).
        is_running r \<and> is_running q \<and> lane_of r = lane_of q \<longrightarrow> r_id r = r_id q)"

definition store_inv :: "op_store \<Rightarrow> bool" where
  "store_inv s =
     (distinct (map r_id (rows s)) \<and>
      distinct (map r_idempotency_key (rows s)) \<and>
      (\<forall>r\<in>set (rows s). id_ok (r_id r) \<and> row_ok r \<and> day_of (r_created_at r) \<in> set (partitions s)) \<and>
      history_ok s \<and> lane_exclusive s)"

text \<open>An id \<open>gen_random_uuid()\<close> may mint: a canonical uuid no row has had.\<close>

definition fresh_id :: "op_store \<Rightarrow> string \<Rightarrow> bool" where
  "fresh_id s i =
     (id_ok i \<and> i \<notin> set (map r_id (rows s)) \<and> i \<notin> set (map h_id (history s)))"

definition empty_store :: "int list \<Rightarrow> op_store" where
  "empty_store days = \<lparr> rows = [], history = [], partitions = days \<rparr>"

lemma store_inv_empty [simp]: "store_inv (empty_store days)"
  by (simp add: store_inv_def empty_store_def history_ok_def lane_exclusive_def)

lemma inv_parts:
  assumes "store_inv s"
  shows inv_distinct_ids: "distinct (map r_id (rows s))"
    and inv_distinct_keys: "distinct (map r_idempotency_key (rows s))"
    and inv_history: "history_ok s"
    and inv_lanes: "lane_exclusive s"
    and inv_distinct_rows: "distinct (rows s)"
  using assms by (auto simp: store_inv_def distinct_map)

lemma inv_row:
  "store_inv s \<Longrightarrow> r \<in> set (rows s) \<Longrightarrow>
     row_ok r \<and> id_ok (r_id r) \<and> day_of (r_created_at r) \<in> set (partitions s)"
  by (auto simp: store_inv_def)

lemma inv_same_id:
  "store_inv s \<Longrightarrow> r \<in> set (rows s) \<Longrightarrow> q \<in> set (rows s) \<Longrightarrow> r_id r = r_id q \<Longrightarrow> r = q"
  by (rule distinct_map_filter_eq [OF inv_distinct_ids])

section \<open>UPDATE statements\<close>

text \<open>No statement of the class writes the columns that identify a row and its work.\<close>

definition keeps_identity :: "(op_row \<Rightarrow> op_row) \<Rightarrow> bool" where
  "keeps_identity f =
     (\<forall>r. r_id (f r) = r_id r \<and> r_idempotency_key (f r) = r_idempotency_key r \<and>
          r_created_at (f r) = r_created_at r \<and> r_instance_id (f r) = r_instance_id r \<and>
          r_lane_key (f r) = r_lane_key r \<and> r_op_type (f r) = r_op_type r \<and>
          r_priority (f r) = r_priority r \<and> r_object_class (f r) = r_object_class r \<and>
          r_attrs (f r) = r_attrs r \<and> r_uid (f r) = r_uid r \<and>
          r_name_attr_value (f r) = r_name_attr_value r)"

lemma keeps_identityD:
  assumes "keeps_identity f"
  shows "r_id (f r) = r_id r" "r_idempotency_key (f r) = r_idempotency_key r"
    "r_created_at (f r) = r_created_at r" "r_instance_id (f r) = r_instance_id r"
    "r_lane_key (f r) = r_lane_key r" "r_op_type (f r) = r_op_type r"
    "r_priority (f r) = r_priority r" "lane_of (f r) = lane_of r"
  using assms by (simp_all add: keeps_identity_def lane_of_def)

lemma rows_update_where:
  "rows (update_where P f s) = map (\<lambda>r. if P r then f r else r) (rows s)"
  "history (update_where P f s) = history s"
  "partitions (update_where P f s) = partitions s"
  by (simp_all add: update_where_def)

lemma mem_rows_update:
  "q \<in> set (rows (update_where P f s)) \<longleftrightarrow>
     (\<exists>r\<in>set (rows s). q = (if P r then f r else r))"
  by (auto simp: update_where_def)

lemma ids_update_where:
  assumes "keeps_identity f"
  shows "map r_id (rows (update_where P f s)) = map r_id (rows s)"
    and "map r_idempotency_key (rows (update_where P f s)) = map r_idempotency_key (rows s)"
  using keeps_identityD(1,2) [OF assms] by (simp_all add: update_where_def)

text \<open>An update that leaves terminality alone and starts no row keeps the invariant.\<close>

lemma store_inv_update_live:
  assumes inv: "store_inv s" and id: "keeps_identity f"
    and ok: "\<And>r. r \<in> set (rows s) \<Longrightarrow> P r \<Longrightarrow> row_ok (f r)"
    and live: "\<And>r. r \<in> set (rows s) \<Longrightarrow> P r \<Longrightarrow> \<not> terminal (r_status r) \<and> \<not> terminal (r_status (f r))"
    and lanes: "lane_exclusive (update_where P f s)"
  shows "store_inv (update_where P f s)"
proof -
  have "history_ok (update_where P f s)"
    using inv_history [OF inv] live keeps_identityD(1) [OF id]
    by (auto simp: history_ok_def rows_update_where)
  moreover have "\<forall>q\<in>set (rows (update_where P f s)). id_ok (r_id q) \<and> row_ok q \<and>
      day_of (r_created_at q) \<in> set (partitions s)"
    using inv_row [OF inv] ok keeps_identityD(1,3) [OF id] by (auto simp: rows_update_where)
  ultimately show ?thesis
    using inv lanes by (simp add: store_inv_def ids_update_where [OF id] rows_update_where(3))
qed

lemma lane_exclusive_mono:
  assumes "lane_exclusive s"
    and "\<And>q. q \<in> set (rows t) \<Longrightarrow> is_running q \<Longrightarrow>
           \<exists>r\<in>set (rows s). is_running r \<and> r_id r = r_id q \<and> lane_of r = lane_of q"
  shows "lane_exclusive t"
  using assms unfolding lane_exclusive_def by metis

lemma lane_exclusive_stop:
  assumes "lane_exclusive s" "keeps_identity f"
    and "\<And>r. r \<in> set (rows s) \<Longrightarrow> P r \<Longrightarrow> \<not> is_running (f r)"
  shows "lane_exclusive (update_where P f s)"
  using assms(3) by (intro lane_exclusive_mono [OF assms(1)]) (auto simp: mem_rows_update split: if_splits)

lemmas store_inv_update_stop = store_inv_update_live [OF _ _ _ _ lane_exclusive_stop [OF inv_lanes]]

text \<open>Removing rows, or gaining partitions, keeps the invariant as long as the rows that stay have
  their partitions.\<close>

lemma store_inv_restrict:
  assumes inv: "store_inv s" and rows: "rows t = filter P (rows s)" and hist: "history t = history s"
    and part: "\<And>r. r \<in> set (rows s) \<Longrightarrow> P r \<Longrightarrow> day_of (r_created_at r) \<in> set (partitions t)"
  shows "store_inv t"
proof -
  have "history_ok t" using inv_history [OF inv] by (auto simp: history_ok_def rows hist)
  moreover have "lane_exclusive t"
    by (rule lane_exclusive_mono [OF inv_lanes [OF inv]]) (auto simp: rows)
  moreover have "\<forall>r\<in>set (rows t). id_ok (r_id r) \<and> row_ok r \<and> day_of (r_created_at r) \<in> set (partitions t)"
    using inv part by (auto simp: store_inv_def rows)
  ultimately show ?thesis using inv by (simp add: store_inv_def rows distinct_map_filter)
qed

section \<open>Row-level facts\<close>

lemma row_ok_simps:
  "r_status r = Pend PENDING \<Longrightarrow> row_ok r \<longleftrightarrow>
     r_claimed_at r = None \<and> r_not_before r = None \<and> r_finalized_at r = None"
  "r_status r = Pend RUNNING \<Longrightarrow> row_ok r \<longleftrightarrow>
     r_claimed_at r \<noteq> None \<and> r_not_before r = None \<and> r_finalized_at r = None"
  "r_status r = Pend AWAITING_READBACK \<Longrightarrow> row_ok r \<longleftrightarrow>
     r_claimed_at r = None \<and> r_not_before r \<noteq> None \<and> r_finalized_at r = None"
  "r_status r = Outc out \<Longrightarrow> row_ok r \<longleftrightarrow> r_finalized_at r \<noteq> None"
  by (simp_all add: row_ok_def)

lemma running_live [simp]: "is_running r \<Longrightarrow> \<not> terminal (r_status r)"
  by (simp add: is_running_def)

lemma has_id_iff: "id_ok i \<Longrightarrow> has_id i r \<longleftrightarrow> r_id r = i"
  by (simp add: has_id_def id_ok_def)

lemma find_has_id_iff:
  assumes "store_inv s" "r \<in> set (rows s)" "has_id i r"
  shows "List.find (has_id i) (rows s) = Some r"
proof -
  have "has_id i = (\<lambda>q. r_id q = r_id r)" using assms(3) by (auto simp: has_id_def)
  then show ?thesis using find_key_Some [OF inv_distinct_ids [OF assms(1)] assms(2)] by simp
qed

section \<open>enqueue\<close>

lemma newest_with_key_None:
  "newest_with_key k rs = None \<longleftrightarrow> (\<forall>r\<in>set rs. r_idempotency_key r \<noteq> k)"
proof (cases "sort_key (\<lambda>r. - r_created_at r) (filter (\<lambda>r. r_idempotency_key r = k) rs)")
  case Nil
  then show ?thesis by (simp add: newest_with_key_def filter_empty_conv)
next
  case (Cons r rest)
  then have "filter (\<lambda>r. r_idempotency_key r = k) rs \<noteq> []" by (metis list.distinct(1) sort_key_Nil_iff)
  with Cons show ?thesis by (auto simp: newest_with_key_def filter_empty_conv)
qed

lemma newest_with_key_Some:
  "newest_with_key k rs = Some r \<Longrightarrow> r \<in> set rs \<and> r_idempotency_key r = k"
proof -
  assume "newest_with_key k rs = Some r"
  then obtain rest where
    "sort_key (\<lambda>r. - r_created_at r) (filter (\<lambda>r. r_idempotency_key r = k) rs) = r # rest"
    by (auto simp: newest_with_key_def split: list.splits)
  then have "r \<in> set (sort_key (\<lambda>r. - r_created_at r) (filter (\<lambda>r. r_idempotency_key r = k) rs))"
    by simp
  then show ?thesis by simp
qed


lemma new_row_simps [simp]:
  "r_id (new_row now i op) = i" "r_status (new_row now i op) = Pend PENDING"
  "r_idempotency_key (new_row now i op) = e_idempotency_key op"
  "r_created_at (new_row now i op) = now" "r_attempt_count (new_row now i op) = 0"
  "r_instance_id (new_row now i op) = e_instance_id op" "r_lane_key (new_row now i op) = e_lane_key op"
  "r_op_type (new_row now i op) = e_op_type op" "row_ok (new_row now i op)"
  "\<not> is_running (new_row now i op)"
  by (simp_all add: new_row_def row_ok_def is_running_def)

lemma enqueue_inv:
  assumes inv: "store_inv s" and fresh: "fresh_id s i" and eq: "enqueue now i op s = Inr (res, s')"
  shows "store_inv s'"
proof (cases "newest_with_key (e_idempotency_key op) (rows s)")
  case (Some r)
  with eq inv show ?thesis by (simp add: enqueue_def)
next
  case None
  with eq have part: "day_of now \<in> set (partitions s)"
    and s': "s' = s\<lparr>rows := rows s @ [new_row now i op]\<rparr>"
    by (auto simp: enqueue_def split: if_splits)
  have key: "e_idempotency_key op \<notin> set (map r_idempotency_key (rows s))"
    using None by (auto simp: newest_with_key_None)
  have h: "history_ok s'"
    using inv_history [OF inv] fresh by (auto simp: s' history_ok_def fresh_id_def)
  have l: "lane_exclusive s'"
    by (rule lane_exclusive_mono [OF inv_lanes [OF inv]]) (auto simp: s')
  show ?thesis
    unfolding store_inv_def using inv fresh key part h l
    by (auto simp: s' store_inv_def fresh_id_def)
qed

section \<open>requeue, deferForReadback, reapStale\<close>

lemma requeue_inv: "store_inv s \<Longrightarrow> store_inv (snd (requeue i s))"
  unfolding requeue_def Let_def
  by (auto intro!: store_inv_update_stop simp: keeps_identity_def row_ok_def is_running_def
      dest: inv_row)

lemma deferForReadback_inv: "store_inv s \<Longrightarrow> store_inv (snd (deferForReadback i t s))"
  unfolding deferForReadback_def Let_def
  by (auto intro!: store_inv_update_stop simp: keeps_identity_def row_ok_def is_running_def
      dest: inv_row)

lemma reap_creates_inv: "store_inv s \<Longrightarrow> store_inv (reap_creates now th d s)"
  unfolding reap_creates_def
  by (auto intro!: store_inv_update_stop simp: keeps_identity_def row_ok_def is_running_def stale_def
      stale_create_def dest: inv_row)

lemma reap_others_inv: "store_inv s \<Longrightarrow> store_inv (reap_others now th s)"
  unfolding reap_others_def
  by (auto intro!: store_inv_update_stop simp: keeps_identity_def row_ok_def is_running_def stale_def
      stale_other_def dest: inv_row)

lemma reapStale_inv: "store_inv s \<Longrightarrow> store_inv (snd (reapStale now acq th d s))"
  by (simp add: reapStale_def Let_def reap_creates_inv reap_others_inv)

section \<open>finalize\<close>

lemma live_filter:
  assumes "store_inv s" "r \<in> set (rows s)" "has_id i r" "\<not> terminal (r_status r)"
  shows "filter (\<lambda>q. has_id i q \<and> r_status q \<notin> set TERMINAL_STATUSES) (rows s) = [r]"
proof -
  have "filter (\<lambda>q. has_id i q \<and> r_status q \<notin> set TERMINAL_STATUSES) (rows s)
      = filter (\<lambda>q. r_status q \<notin> set TERMINAL_STATUSES) (filter (\<lambda>q. r_id q = r_id r) (rows s))"
    using assms(3) by (simp add: has_id_def conj_commute)
  also have "\<dots> = [r]"
    using filter_key_unique [OF inv_distinct_ids [OF assms(1)] assms(2)] assms(4)
    by (simp add: terminal_iff_TERMINAL_STATUSES)
  finally show ?thesis .
qed

definition finalized_store ::
  "int \<Rightarrow> outcome \<Rightarrow> json option \<Rightarrow> string option \<Rightarrow> op_row \<Rightarrow> op_store \<Rightarrow> op_store" where
  "finalized_store now out res err r s =
     s\<lparr>rows := map (\<lambda>q. if q = r then finalize_row now out res err r else q) (rows s),
       history := history s @ [history_of now (finalize_row now out res err r)]\<rparr>"

lemma finalize_row_simps [simp]:
  "r_id (finalize_row now out res err r) = r_id r"
  "r_status (finalize_row now out res err r) = Outc out"
  "r_error_code (finalize_row now out res err r) = err"
  "r_finalized_at (finalize_row now out res err r) = Some now"
  "r_attempt_count (finalize_row now out res err r) = r_attempt_count r"
  "r_instance_id (finalize_row now out res err r) = r_instance_id r"
  "r_created_at (finalize_row now out res err r) = r_created_at r"
  "keeps_identity (finalize_row now out res err)"
  by (simp_all add: finalize_row_def keeps_identity_def)

lemma history_of_simps [simp]:
  "h_id (history_of now r) = r_id r" "h_status (history_of now r) = r_status r"
  "h_error_code (history_of now r) = r_error_code r"
  "h_finalized_at (history_of now r) = now"
  by (simp_all add: history_of_def)

lemma finalize_live:
  assumes inv: "store_inv s" and r: "r \<in> set (rows s)" "has_id i r" "\<not> terminal (r_status r)"
    and i: "isOperationId i"
  shows "finalize now i out res err s = (True, finalized_store now out res err r s)"
proof -
  let ?P = "\<lambda>q. has_id i q \<and> r_status q \<notin> set TERMINAL_STATUSES"
  have eq: "?P q \<longleftrightarrow> q = r" if "q \<in> set (rows s)" for q
  proof -
    have "q \<in> set (filter ?P (rows s)) \<longleftrightarrow> q \<in> set [r]" using live_filter [OF inv r] by simp
    with that show ?thesis by simp
  qed
  have "r_id r \<notin> h_id ` set (history s)"
    using inv_history [OF inv] r by (auto simp: history_ok_def)
  moreover have "rows (update_where ?P (finalize_row now out res err) s)
      = map (\<lambda>q. if q = r then finalize_row now out res err r else q) (rows s)"
    using eq by (simp add: rows_update_where)
  ultimately show ?thesis
    using i by (simp add: finalize_def live_filter [OF inv r] insert_history_def
        finalized_store_def update_where_def)
qed

lemma finalize_dead:
  assumes "\<And>r. r \<in> set (rows s) \<Longrightarrow> has_id i r \<Longrightarrow> terminal (r_status r)"
  shows "finalize now i out res err s = (False, s)"
proof -
  have "filter (\<lambda>q. has_id i q \<and> r_status q \<notin> set TERMINAL_STATUSES) (rows s) = []"
    using assms by (auto simp: filter_empty_conv terminal_iff_TERMINAL_STATUSES)
  then show ?thesis by (simp add: finalize_def)
qed

lemma finalize_dichotomy:
  assumes "store_inv s"
  obtains (live) r where "r \<in> set (rows s)" "has_id i r" "\<not> terminal (r_status r)" "isOperationId i"
      "finalize now i out res err s = (True, finalized_store now out res err r s)"
  | (dead) "finalize now i out res err s = (False, s)"
proof (cases "isOperationId i \<and> (\<exists>r\<in>set (rows s). has_id i r \<and> \<not> terminal (r_status r))")
  case True
  then show ?thesis using finalize_live [OF assms] live by blast
next
  case False
  then have "finalize now i out res err s = (False, s)"
    by (cases "isOperationId i") (blast intro: finalize_dead, simp add: finalize_def)
  then show ?thesis by (rule dead)
qed

lemma finalized_store_inv:
  assumes inv: "store_inv s" and r: "r \<in> set (rows s)" "\<not> terminal (r_status r)"
  shows "store_inv (finalized_store now out res err r s)"
proof -
  let ?g = "\<lambda>q. if q = r then finalize_row now out res err r else q"
  let ?t = "finalized_store now out res err r s"
  have rows: "rows ?t = map ?g (rows s)" by (simp add: finalized_store_def)
  have id: "r_id (?g q) = r_id q" "r_idempotency_key (?g q) = r_idempotency_key q"
    "r_created_at (?g q) = r_created_at q" for q
    by (simp_all add: finalize_row_def)
  have hist: "history ?t = history s @ [history_of now (finalize_row now out res err r)]"
    by (simp add: finalized_store_def)
  have rec: "records (history_of now (finalize_row now out res err r)) (finalize_row now out res err r)"
    by (simp add: records_def history_of_def)
  have new: "r_id r \<notin> h_id ` set (history s)"
    using inv_history [OF inv] r by (auto simp: history_ok_def)
  have other: "r_id q \<noteq> r_id r" if "q \<in> set (rows s)" "q \<noteq> r" for q
    using inv_same_id [OF inv that(1) r(1)] that(2) by blast
  have "history_ok ?t"
    using inv_history [OF inv] rec new other inv_row [OF inv r(1)]
    by (auto simp: history_ok_def rows hist)
  moreover have "lane_exclusive ?t"
    by (rule lane_exclusive_mono [OF inv_lanes [OF inv]])
      (auto simp: rows is_running_def split: if_splits)
  moreover have "map r_id (rows ?t) = map r_id (rows s)"
    "map r_idempotency_key (rows ?t) = map r_idempotency_key (rows s)"
    by (simp_all add: rows id)
  moreover have "partitions ?t = partitions s" by (simp add: finalized_store_def)
  moreover have "\<forall>q\<in>set (rows ?t). id_ok (r_id q) \<and> row_ok q \<and> day_of (r_created_at q) \<in> set (partitions s)"
    using inv_row [OF inv] by (auto simp: rows row_ok_simps)
  ultimately show ?thesis using inv by (simp add: store_inv_def)
qed

lemma finalize_inv:
  assumes "store_inv s"
  shows "store_inv (snd (finalize now i out res err s))"
  using assms
  by (cases rule: finalize_dichotomy [OF assms, of i now out res err])
    (simp_all add: finalized_store_inv)

end
