(* ===== verification/Claim_Protocol.thy ===== *)
theory Claim_Protocol
  imports Store_Invariant
begin

text \<open>
  What the claim query guarantees: the rows it marks \<open>RUNNING\<close> respect the limit and both caps of
  every instance, occupy pairwise distinct lanes that no excluded lane and no blocking row holds,
  and put interactive work first; the invariant, lane exclusion included, is kept.
\<close>

section \<open>The pick\<close>

lemma lane_candidates_iff:
  "r \<in> set (lane_candidates now active cs rs) \<longleftrightarrow>
     r \<in> set rs \<and> r_instance_id r \<in> set (map fst cs) \<and> claimable now r \<and>
     r_lane_key r \<notin> set active \<and> lane_of r \<notin> set (blocked_lanes now rs)"
  by (simp add: lane_candidates_def)

lemma lane_leaders_candidate:
  "r \<in> set (lane_leaders now active cs rs) \<Longrightarrow> r \<in> set (lane_candidates now active cs rs)"
  by (simp add: lane_leaders_def Let_def)

lemma lane_leaders_unique:
  "r \<in> set (lane_leaders now active cs rs) \<Longrightarrow> q \<in> set (lane_leaders now active cs rs) \<Longrightarrow>
     lane_of r = lane_of q \<Longrightarrow> r = q"
  unfolding lane_leaders_def Let_def
  by (rule row_number_one_unique
        [where p = lane_of and k = claim_order and xs = "lane_candidates now active cs rs"]) simp_all

lemma lane_leaders_exist:
  assumes "r \<in> set (lane_candidates now active cs rs)"
  shows "\<exists>q\<in>set (lane_leaders now active cs rs). lane_of q = lane_of r \<and> claim_order q \<le> claim_order r"
proof -
  from row_number_one_exists [OF assms, of lane_of claim_order]
  obtain q where q: "q \<in> set (lane_candidates now active cs rs)" "lane_of q = lane_of r"
      "row_number lane_of claim_order (lane_candidates now active cs rs) q = 1" by blast
  have "claim_order q \<le> claim_order r"
    using row_number_one_least [OF q(1,3) assms] q(2) by simp
  with q show ?thesis by (auto simp: lane_leaders_def Let_def)
qed

lemma picked_leader:
  "r \<in> set (picked now limit active cs rs) \<Longrightarrow>
     r \<in> set (lane_leaders now active cs rs) \<and> within_caps cs (lane_leaders now active cs rs) r"
  by (auto simp: picked_def Let_def dest: in_set_takeD)

lemmas picked_candidate = picked_leader [THEN conjunct1, THEN lane_leaders_candidate]

lemma picked_row: "r \<in> set (picked now limit active cs rs) \<Longrightarrow> r \<in> set rs"
  by (drule picked_candidate) (simp add: lane_candidates_iff)

lemma distinct_leaders: "distinct rs \<Longrightarrow> distinct (lane_leaders now active cs rs)"
  by (simp add: lane_leaders_def lane_candidates_def Let_def)

lemma distinct_picked: "distinct rs \<Longrightarrow> distinct (picked now limit active cs rs)"
  by (simp add: picked_def Let_def distinct_leaders)

lemma length_picked: "length (picked now limit active cs rs) \<le> nat limit"
  by (simp add: picked_def Let_def)

lemma picked_total_bound:
  assumes "distinct rs" "map_of cs i = Some (cap, bcap)"
  shows "length (filter (\<lambda>r. r_instance_id r = i) (picked now limit active cs rs)) \<le> nat cap"
proof -
  let ?ls = "lane_leaders now active cs rs"
  let ?Q = "\<lambda>r. r_instance_id r = i \<and> row_number r_instance_id claim_order ?ls r \<le> nat cap"
  have "length (filter (\<lambda>r. r_instance_id r = i) (picked now limit active cs rs))
      \<le> length (filter ?Q ?ls)"
    by (rule length_filter_le_filter [OF distinct_picked [OF assms(1)]])
      (use assms(2) in \<open>auto dest!: picked_leader simp: within_caps_def cap_of_def\<close>)
  also have "\<dots> \<le> nat cap" by (rule count_row_number_le [OF distinct_leaders [OF assms(1)]])
  finally show ?thesis .
qed

lemma picked_batch_bound:
  assumes "distinct rs" "map_of cs i = Some (cap, bcap)"
  shows "length (filter (\<lambda>r. r_instance_id r = i \<and> r_priority r = Batch)
           (picked now limit active cs rs)) \<le> nat bcap"
proof -
  let ?ls = "lane_leaders now active cs rs"
  let ?p = "\<lambda>r. (r_instance_id r, r_priority r)"
  let ?Q = "\<lambda>r. ?p r = (i, Batch) \<and> row_number ?p r_created_at ?ls r \<le> nat bcap"
  have "length (filter (\<lambda>r. r_instance_id r = i \<and> r_priority r = Batch) (picked now limit active cs rs))
      \<le> length (filter ?Q ?ls)"
    by (rule length_filter_le_filter [OF distinct_picked [OF assms(1)]])
      (use assms(2) in \<open>auto dest!: picked_leader simp: within_caps_def batch_cap_of_def\<close>)
  also have "\<dots> \<le> nat bcap" by (rule count_row_number_le [OF distinct_leaders [OF assms(1)]])
  finally show ?thesis .
qed

text \<open>No batch row is picked over an interactive lane leader of the same instance.\<close>

lemma picked_interactive_first:
  assumes b: "b \<in> set (picked now limit active cs rs)" "r_priority b = Batch"
    and r: "r \<in> set (lane_leaders now active cs rs)" "r_priority r = Interactive"
    and same: "r_instance_id r = r_instance_id b"
  shows "r \<in> set (picked now limit active cs rs)"
proof -
  let ?ls = "lane_leaders now active cs rs"
  have less: "claim_order r < claim_order b" using b(2) r(2) by (simp add: claim_order_def)
  have bl: "b \<in> set ?ls" "within_caps cs ?ls b" using picked_leader [OF b(1)] by simp_all
  have "row_number r_instance_id claim_order ?ls r \<le> row_number r_instance_id claim_order ?ls b"
    using r(1) bl(1) same less by (rule row_number_mono)
  then have "within_caps cs ?ls r"
    using bl(2) same r(2) by (simp add: within_caps_def cap_of_def)
  then have "r \<in> set (filter (within_caps cs ?ls) ?ls)" using r(1) by simp
  moreover have "b \<in> set (take (nat limit) (sort_key claim_order (filter (within_caps cs ?ls) ?ls)))"
    using b(1) by (simp add: picked_def Let_def)
  ultimately show ?thesis
    using sort_take_least less unfolding picked_def Let_def by (meson not_le)
qed

section \<open>The lock and the update\<close>

lemma locked_picked:
  assumes "store_inv s" "set ps \<subseteq> set (rows s)" "r \<in> set (rows s)" "locked held ps r"
  shows "r \<in> set ps"
proof -
  obtain p where "p \<in> set ps" "r_id r = r_id p" using assms(4) by (auto simp: locked_def)
  with assms(1-3) inv_same_id show ?thesis by blast
qed

lemma mark_running_simps [simp]:
  "r_id (mark_running now r) = r_id r" "r_status (mark_running now r) = Pend RUNNING"
  "lane_of (mark_running now r) = lane_of r" "is_running (mark_running now r)"
  "keeps_identity (mark_running now)" "r_attempt_count (mark_running now r) = r_attempt_count r"
  by (simp_all add: mark_running_def keeps_identity_def lane_of_def is_running_def)

lemma candidate_free:
  assumes "r \<in> set (lane_candidates now active cs (rows s))"
    and "q \<in> set (rows s)" "is_running q"
  shows "lane_of q \<noteq> lane_of r"
proof
  assume same: "lane_of q = lane_of r"
  have "lane_of q \<in> set (blocked_lanes now (rows s))"
    using assms(2,3) by (auto simp: blocked_lanes_def)
  with same assms(1) show False by (simp add: lane_candidates_iff)
qed

lemma claim_commit_inv:
  assumes inv: "store_inv s" and ps: "ps = picked now limit active cs (rows s)"
  shows "store_inv (snd (claim_commit now held ps s))"
proof -
  let ?t = "update_where (locked held ps) (mark_running now) s"
  have pk: "r \<in> set ps" if "r \<in> set (rows s)" "locked held ps r" for r
    by (rule locked_picked [OF inv _ that]) (use ps picked_row in auto)
  have "lane_exclusive ?t"
    unfolding lane_exclusive_def
  proof (intro ballI impI, elim conjE)
    fix r' q' assume r': "r' \<in> set (rows ?t)" and q': "q' \<in> set (rows ?t)"
      and run: "is_running r'" "is_running q'" and lane: "lane_of r' = lane_of q'"
    obtain r where r: "r \<in> set (rows s)" "r' = (if locked held ps r then mark_running now r else r)"
      using r' unfolding mem_rows_update by blast
    obtain q where q: "q \<in> set (rows s)" "q' = (if locked held ps q then mark_running now q else q)"
      using q' unfolding mem_rows_update by blast
    have same: "r_id r' = r_id r" "r_id q' = r_id q" "lane_of r = lane_of q"
      using r(2) q(2) lane by (simp_all split: if_splits)
    consider "locked held ps r" "locked held ps q" | "locked held ps r" "\<not> locked held ps q"
      | "\<not> locked held ps r" "locked held ps q" | "\<not> locked held ps r" "\<not> locked held ps q" by blast
    then have "r_id r = r_id q"
    proof cases
      case 1
      then have "r \<in> set ps" "q \<in> set ps" using pk r(1) q(1) by blast+
      then have "r = q" unfolding ps using picked_leader lane_leaders_unique same(3) by metis
      then show ?thesis by simp
    next
      case 2
      then have "r \<in> set ps" "is_running q" using pk r(1) q(2) run(2) by auto
      then show ?thesis unfolding ps using candidate_free [OF picked_candidate q(1)] same(3) by metis
    next
      case 3
      then have "q \<in> set ps" "is_running r" using pk q(1) r(2) run(1) by auto
      then show ?thesis unfolding ps using candidate_free [OF picked_candidate r(1)] same(3) by metis
    next
      case 4
      then have "is_running r" "is_running q" using r(2) q(2) run by auto
      then show ?thesis using inv_lanes [OF inv] r(1) q(1) same(3) unfolding lane_exclusive_def by blast
    qed
    then show "r_id r' = r_id q'" using same by simp
  qed
  moreover have "row_ok (mark_running now r)" if "r \<in> set (rows s)" "locked held ps r" for r
    using inv_row [OF inv that(1)] that(2)
    by (auto simp: locked_def not_terminal_iff row_ok_def mark_running_def
        split: op_status.splits pending_status.splits)
  ultimately have "store_inv ?t"
    by (intro store_inv_update_live [OF inv]) (simp_all add: locked_def)
  then show ?thesis by (simp add: claim_commit_def)
qed

lemma claimBatch_inv:
  "store_inv s \<Longrightarrow> store_inv (snd (claimBatch now held limit active avail s))"
  by (simp add: claimBatch_def Let_def claim_commit_inv)

section \<open>What a claim returns\<close>

text \<open>The rows a claim takes, as they were before it.\<close>

definition claimed_rows ::
  "int \<Rightarrow> string list \<Rightarrow> int \<Rightarrow> string list \<Rightarrow> (string \<times> availability) list \<Rightarrow> op_store
     \<Rightarrow> op_row list" where
  "claimed_rows now held limit active avail s =
     (let cs = caps_of_availability avail
      in if cs = [] \<or> limit \<le> 0 then []
         else filter (locked held (picked now limit active cs (rows s))) (rows s))"

lemma claimBatch_fst:
  "fst (claimBatch now held limit active avail s) = map to_claimed (claimed_rows now held limit active avail s)"
  by (simp add: claimBatch_def claimed_rows_def claim_commit_def Let_def)

lemma claimed_rows_picked:
  assumes "store_inv s" "r \<in> set (claimed_rows now held limit active avail s)"
  shows "r \<in> set (picked now limit active (caps_of_availability avail) (rows s)) \<and> 0 < limit"
proof -
  have r: "r \<in> set (rows s)"
    "locked held (picked now limit active (caps_of_availability avail) (rows s)) r" "0 < limit"
    using assms(2) by (auto simp: claimed_rows_def Let_def split: if_splits)
  then show ?thesis using locked_picked [OF assms(1) _ r(1,2)] picked_row by blast
qed

lemma claimed_rows_distinct:
  "store_inv s \<Longrightarrow> distinct (claimed_rows now held limit active avail s)"
  by (simp add: claimed_rows_def Let_def inv_distinct_rows)

lemma caps_of_availability_map_of:
  "distinct (map fst avail) \<Longrightarrow>
     map_of (caps_of_availability avail) i =
       (case map_of avail i of
          None \<Rightarrow> None
        | Some a \<Rightarrow> if 0 < totalFree a
                    then Some (totalFree a, max 0 (min (batchFree a) (totalFree a))) else None)"
proof (induction avail)
  case (Cons x avail)
  obtain j a where x: "x = (j, a)" by (cases x)
  have "map_of avail j = None" using Cons.prems x by (simp add: map_of_eq_None_iff)
  with Cons x show ?case by (auto simp: caps_of_availability_def split: option.splits)
qed (simp add: caps_of_availability_def)

lemma claim_count_le:
  assumes "store_inv s"
  shows "length (filter P (claimed_rows now held limit active avail s))
    \<le> length (filter P (picked now limit active (caps_of_availability avail) (rows s)))"
  by (rule length_filter_le_filter [OF claimed_rows_distinct [OF assms]])
    (use claimed_rows_picked [OF assms] in blast)

lemma claim_total_bound:
  assumes inv: "store_inv s" and d: "distinct (map fst avail)" and a: "map_of avail i = Some a"
  shows "int (length (filter (\<lambda>c. c_instance_id c = i)
           (fst (claimBatch now held limit active avail s)))) \<le> max 0 (totalFree a)"
proof (cases "0 < totalFree a")
  case True
  let ?ps = "picked now limit active (caps_of_availability avail) (rows s)"
  have "map_of (caps_of_availability avail) i =
      Some (totalFree a, max 0 (min (batchFree a) (totalFree a)))"
    using True a by (simp add: caps_of_availability_map_of [OF d])
  from picked_total_bound [OF inv_distinct_rows [OF inv] this, of now limit active]
  have "length (filter (\<lambda>r. r_instance_id r = i) ?ps) \<le> nat (totalFree a)" .
  then show ?thesis
    using claim_count_le [OF inv, of "\<lambda>r. r_instance_id r = i" now held limit active avail] True
    by (simp add: claimBatch_fst filter_map o_def to_claimed_def)
next
  case False
  then have "i \<notin> set (map fst (caps_of_availability avail))"
  proof -
    have "map_of (caps_of_availability avail) i = None"
      using a False by (simp add: caps_of_availability_map_of [OF d])
    then show ?thesis by (simp add: map_of_eq_None_iff)
  qed
  then have "filter (\<lambda>r. r_instance_id r = i)
      (picked now limit active (caps_of_availability avail) (rows s)) = []"
    by (auto simp: filter_empty_conv lane_candidates_iff dest!: picked_candidate)
  then show ?thesis
    using claim_count_le [OF inv, of "\<lambda>r. r_instance_id r = i" now held limit active avail]
    by (simp add: claimBatch_fst filter_map o_def to_claimed_def)
qed

lemma claim_batch_bound:
  assumes inv: "store_inv s" and d: "distinct (map fst avail)" and a: "map_of avail i = Some a"
  shows "int (length (filter (\<lambda>c. c_instance_id c = i \<and> c_priority c = Batch)
           (fst (claimBatch now held limit active avail s)))) \<le> max 0 (batchFree a)"
proof (cases "0 < totalFree a")
  case True
  let ?ps = "picked now limit active (caps_of_availability avail) (rows s)"
  have "map_of (caps_of_availability avail) i =
      Some (totalFree a, max 0 (min (batchFree a) (totalFree a)))"
    using True a by (simp add: caps_of_availability_map_of [OF d])
  from picked_batch_bound [OF inv_distinct_rows [OF inv] this, of now limit active]
  have "length (filter (\<lambda>r. r_instance_id r = i \<and> r_priority r = Batch) ?ps)
      \<le> nat (max 0 (min (batchFree a) (totalFree a)))" .
  then show ?thesis
    using claim_count_le [OF inv, of "\<lambda>r. r_instance_id r = i \<and> r_priority r = Batch" now held limit active avail]
    by (simp add: claimBatch_fst filter_map o_def to_claimed_def)
next
  case False
  have "length (filter (\<lambda>c. c_instance_id c = i \<and> c_priority c = Batch)
          (fst (claimBatch now held limit active avail s)))
      \<le> length (filter (\<lambda>c. c_instance_id c = i) (fst (claimBatch now held limit active avail s)))"
    by (simp flip: filter_filter add: length_filter_le conj_commute)
  with claim_total_bound [OF inv d a, of now held limit active] False show ?thesis by simp
qed

lemma claim_limit:
  assumes "store_inv s"
  shows "length (fst (claimBatch now held limit active avail s)) \<le> nat limit"
proof -
  have "length (claimed_rows now held limit active avail s)
      \<le> length (picked now limit active (caps_of_availability avail) (rows s))"
    using claim_count_le [OF assms, of "\<lambda>_. True" now held limit active avail] by simp
  also have "\<dots> \<le> nat limit" by (rule length_picked)
  finally show ?thesis by (simp add: claimBatch_fst)
qed

lemma claim_member:
  assumes "store_inv s" "c \<in> set (fst (claimBatch now held limit active avail s))"
  shows "c_instance_id c \<in> set (map fst avail) \<and> c_lane_key c \<notin> set active \<and>
    c_prior_status c \<in> {Pend PENDING, Pend AWAITING_READBACK}"
proof -
  obtain r where r: "r \<in> set (claimed_rows now held limit active avail s)" "c = to_claimed r"
    using assms(2) by (auto simp: claimBatch_fst)
  have "r \<in> set (lane_candidates now active (caps_of_availability avail) (rows s))"
    using claimed_rows_picked [OF assms(1) r(1)] picked_candidate by blast
  then show ?thesis using r(2)
    by (auto simp: lane_candidates_iff caps_of_availability_def to_claimed_def claimable_def
        readback_due_def intro: rev_image_eqI)
qed

lemma claim_lanes_distinct:
  assumes "store_inv s"
  shows "distinct (map (\<lambda>c. (c_instance_id c, c_lane_key c)) (fst (claimBatch now held limit active avail s)))"
proof -
  let ?rs = "claimed_rows now held limit active avail s"
  have "inj_on lane_of (set ?rs)"
    by (rule inj_onI) (metis claimed_rows_picked [OF assms] picked_leader lane_leaders_unique)
  then have "distinct (map lane_of ?rs)"
    using claimed_rows_distinct [OF assms] by (simp add: distinct_map)
  then show ?thesis unfolding claimBatch_fst lane_of_def map_map o_def
    by (simp add: to_claimed_def)
qed

end
