(* ===== verification/Admission.thy ===== *)
theory Admission
  imports Claim_Protocol
begin

text \<open>
  \<open>src/ops/admission.ts\<close>: lane keys and the gate in front of \<open>enqueue\<close>. The gate awaits the backlog
  counts and then the insert, so other callers, claims and requeues run between the two:
  \<open>admitAndEnqueue\<close> takes the counts its first call answered, whatever the table has become since, and
  \<open>gate_step\<close> interleaves the two halves of many callers with everything else.
\<close>

section \<open>Lane keys\<close>

datatype lane_error = MissingName string | MissingUid op_type string

definition laneKeyFor ::
  "op_type \<Rightarrow> string \<Rightarrow> string option \<Rightarrow> string option \<Rightarrow> lane_error + string" where
  "laneKeyFor t objectClass uid nameAttrValue =
     (if t = CREATE
      then case nameAttrValue of
             None \<Rightarrow> Inl (MissingName objectClass)
           | Some n \<Rightarrow> if n = '''' then Inl (MissingName objectClass)
                       else Inr (''create:'' @ objectClass @ '':'' @ n)
      else case uid of
             None \<Rightarrow> Inl (MissingUid t objectClass)
           | Some u \<Rightarrow> if u = '''' then Inl (MissingUid t objectClass)
                       else Inr (''uid:'' @ objectClass @ '':'' @ u))"

section \<open>Caps\<close>

definition ADMISSION_DEFAULTS :: "priority \<Rightarrow> int" where
  "ADMISSION_DEFAULTS p = (case p of Batch \<Rightarrow> 10000 | Interactive \<Rightarrow> 1000)"

record admission_caps =
  cap_batch :: "int option"
  cap_interactive :: "int option"

definition no_caps :: admission_caps where
  "no_caps = \<lparr> cap_batch = None, cap_interactive = None \<rparr>"

definition effective_cap :: "admission_caps \<Rightarrow> priority \<Rightarrow> int" where
  "effective_cap caps p =
     (case (if p = Interactive then cap_interactive caps else cap_batch caps) of
        None \<Rightarrow> ADMISSION_DEFAULTS p | Some n \<Rightarrow> n)"

text \<open>What the gate throws: its own rejection with the depth it saw, a lane key that cannot be
  built, or what the store threw.\<close>

datatype admit_error =
    AdmissionRejected string priority int int
  | NoLane lane_error
  | StoreThrew db_error

section \<open>The gate\<close>

definition depth_of :: "priority \<Rightarrow> pending_counts \<Rightarrow> int" where
  "depth_of p c = (if p = Interactive then int (interactive_count c) else int (batch_count c))"

text \<open>An \<open>AdmitInput\<close> is an enqueue input whose lane key may be absent.\<close>

record admit_input =
  a_input :: enqueue_input
  a_lane_key :: "string option"

definition admit_priority :: "admit_input \<Rightarrow> priority" where
  "admit_priority a = (case e_priority (a_input a) of None \<Rightarrow> Batch | Some p \<Rightarrow> p)"

definition admit_check ::
  "admission_caps \<Rightarrow> pending_counts \<Rightarrow> admit_input \<Rightarrow> admit_error + enqueue_input" where
  "admit_check caps counts a =
     (let p = admit_priority a; op = a_input a;
          cap = effective_cap caps p; depth = depth_of p counts
      in if cap \<le> depth then Inl (AdmissionRejected (e_instance_id op) p depth cap)
         else case (case a_lane_key a of
                      Some k \<Rightarrow> Inr k
                    | None \<Rightarrow> laneKeyFor (e_op_type op) (e_object_class op) (e_uid op)
                                (e_name_attr_value op)) of
                Inl e \<Rightarrow> Inl (NoLane e)
              | Inr k \<Rightarrow> Inr (op\<lparr>e_lane_key := k, e_priority := Some p\<rparr>))"

text \<open>\<open>counts\<close> is what \<open>pendingCounts\<close> answered; the enqueue meets the table \<open>s\<close> of a later moment.\<close>

definition admitAndEnqueue ::
  "int \<Rightarrow> string \<Rightarrow> admission_caps \<Rightarrow> db_error + pending_counts \<Rightarrow> admit_input \<Rightarrow> op_store
     \<Rightarrow> admit_error + enqueue_result \<times> op_store" where
  "admitAndEnqueue now new_id caps counts a s =
     (case counts of
        Inl e \<Rightarrow> Inl (StoreThrew e)
      | Inr n \<Rightarrow>
          sbind (admit_check caps n a) (\<lambda>op.
          case enqueue now new_id op s of Inl e \<Rightarrow> Inl (StoreThrew e) | Inr r \<Rightarrow> Inr r))"

section \<open>Lane keys identify their object\<close>

definition lane_target :: "op_type \<Rightarrow> string option \<Rightarrow> string option \<Rightarrow> bool \<times> string option" where
  "lane_target t uid name = (if t = CREATE then (True, name) else (False, uid))"

lemma laneKeyFor_Inr:
  "laneKeyFor t oc uid name = Inr k \<longleftrightarrow>
     (\<exists>v. snd (lane_target t uid name) = Some v \<and> v \<noteq> '''' \<and>
          k = (if t = CREATE then ''create:'' else ''uid:'') @ oc @ '':'' @ v)"
  by (auto simp: laneKeyFor_def lane_target_def split: option.splits if_splits)

lemma lane_prefix_inj:
  "(if a then ''create:'' else ''uid:'') @ x = (if b then ''create:'' else ''uid:'') @ y \<longleftrightarrow> a = b \<and> x = y"
  by (cases a; cases b) simp_all

text \<open>C34: Lane keys and objects: two operations on one object, both creates of one name or neither a
  create and of one uid, always get one lane key, and a create never shares its key with an operation
  of another kind. Keys of one kind are equal exactly when class and name joined by a colon are, so
  for object classes without a colon only operations on one object share a key; classes with a colon
  may share one (\<open>colon_classes_share_lane\<close>).\<close>

theorem laneKeyFor_injective:
  assumes "laneKeyFor t oc uid name = Inr k" "laneKeyFor t' oc' uid' name' = Inr k'"
  shows "(oc = oc' \<and> lane_target t uid name = lane_target t' uid' name' \<longrightarrow> k = k') \<and>
    (k = k' \<longleftrightarrow> (t = CREATE \<longleftrightarrow> t' = CREATE) \<and>
       oc @ '':'' @ the (snd (lane_target t uid name)) = oc' @ '':'' @ the (snd (lane_target t' uid' name'))) \<and>
    (k = k' \<and> CHR '':'' \<notin> set oc \<and> CHR '':'' \<notin> set oc' \<longrightarrow>
       oc = oc' \<and> lane_target t uid name = lane_target t' uid' name')"
proof -
  obtain v where v: "snd (lane_target t uid name) = Some v"
    "k = (if t = CREATE then ''create:'' else ''uid:'') @ oc @ '':'' @ v"
    using assms(1) by (auto simp: laneKeyFor_Inr)
  obtain v' where v': "snd (lane_target t' uid' name') = Some v'"
    "k' = (if t' = CREATE then ''create:'' else ''uid:'') @ oc' @ '':'' @ v'"
    using assms(2) by (auto simp: laneKeyFor_Inr)
  have k: "k = k' \<longleftrightarrow> (t = CREATE) = (t' = CREATE) \<and> oc @ '':'' @ v = oc' @ '':'' @ v'"
    unfolding v(2) v'(2) by (rule lane_prefix_inj)
  have t: "fst (lane_target t uid name) = (t = CREATE)" "fst (lane_target t' uid' name') = (t' = CREATE)"
    by (simp_all add: lane_target_def)
  have sep: "oc @ '':'' @ v = oc' @ '':'' @ v' \<longleftrightarrow> oc = oc' \<and> v = v'"
    if "CHR '':'' \<notin> set oc" "CHR '':'' \<notin> set oc'"
    using append_sep_inject [OF _ that, of v v'] by auto
  show ?thesis
    unfolding k using v(1) v'(1) t sep by (auto simp: prod_eq_iff)
qed

theorem laneKeyFor_injective_witness:
  "laneKeyFor UPDATE ''user'' (Some ''u1'') None = Inr ''uid:user:u1'' \<and>
   laneKeyFor CREATE ''user'' None (Some ''u1'') = Inr ''create:user:u1'' \<and>
   ''uid:user:u1'' \<noteq> ''create:user:u1'' \<and>
   laneKeyFor DELETE ''user'' (Some ''u1'') None = Inr ''uid:user:u1''"
proof -
  have a: "laneKeyFor UPDATE ''user'' (Some ''u1'') None = Inr ''uid:user:u1''"
    and b: "laneKeyFor CREATE ''user'' None (Some ''u1'') = Inr ''create:user:u1''"
    by (simp_all add: laneKeyFor_def)
  obtain k where c: "laneKeyFor DELETE ''user'' (Some ''u1'') None = Inr k" by (simp add: laneKeyFor_def)
  have "''uid:user:u1'' = k" using laneKeyFor_injective [OF a c] by (simp add: lane_target_def)
  then show ?thesis using a b c laneKeyFor_injective [OF a b] by simp
qed

text \<open>Nothing keeps a colon out of a class or a name: two objects may share a lane.\<close>

lemma colon_classes_share_lane:
  "laneKeyFor CREATE ''a:b'' None (Some ''c'') = laneKeyFor CREATE ''a'' None (Some ''b:c'')"
  by (simp add: laneKeyFor_def)

section \<open>The gate admits below its cap only\<close>

lemma admitAndEnqueue_InrE:
  assumes "admitAndEnqueue now i caps counts a s = Inr (res, s')"
  obtains n op where "counts = Inr n" "admit_check caps n a = Inr op" "enqueue now i op s = Inr (res, s')"
proof -
  obtain n where n: "counts = Inr n" using assms by (cases counts) (simp_all add: admitAndEnqueue_def)
  with assms obtain op where "admit_check caps n a = Inr op"
    "(case enqueue now i op s of Inl e \<Rightarrow> Inl (StoreThrew e) | Inr r \<Rightarrow> Inr r) = Inr (res, s')"
    by (auto simp: admitAndEnqueue_def elim: sbind_InrE)
  with n show ?thesis by (intro that) (auto split: sum.splits)
qed

lemma admit_check_Inr:
  assumes "admit_check caps counts a = Inr op"
  shows "depth_of (admit_priority a) counts < effective_cap caps (admit_priority a) \<and>
    e_instance_id op = e_instance_id (a_input a) \<and> e_priority op = Some (admit_priority a) \<and>
    e_idempotency_key op = e_idempotency_key (a_input a) \<and> e_op_type op = e_op_type (a_input a)"
  using assms by (auto simp: admit_check_def Let_def split: if_splits sum.splits)

lemma depth_after_enqueue:
  assumes "enqueue now i op s = Inr (res, s')"
  shows "depth_of p (pendingCounts inst s') \<le> depth_of p (pendingCounts inst s) + 1 \<and>
    (e_instance_id op \<noteq> inst \<or> e_priority op \<noteq> Some p \<longrightarrow> e_priority op \<noteq> None \<longrightarrow>
      depth_of p (pendingCounts inst s') = depth_of p (pendingCounts inst s))"
  using assms
  by (cases p)
    (auto simp: enqueue_def depth_of_def pendingCounts_def count_where_def in_backlog_def new_row_def
      split: option.splits if_splits)

lemma admit_rejects_iff:
  "admitAndEnqueue now i caps (Inr n) a s =
     Inl (AdmissionRejected (e_instance_id (a_input a)) (admit_priority a) d m) \<longleftrightarrow>
   d = depth_of (admit_priority a) n \<and> m = effective_cap caps (admit_priority a) \<and> m \<le> d"
  by (auto simp: admitAndEnqueue_def admit_check_def Let_def sbind_def split: sum.splits)

section \<open>Many callers\<close>

text \<open>The table, the inputs admitted by their check and not yet inserted, and how many rows have been
  put back into the backlog. At most \<open>n\<close> callers are between check and insert.\<close>

record gate =
  gt_store :: op_store
  gt_admitted :: "enqueue_input list"
  gt_returned :: nat

inductive gate_step :: "admission_caps \<Rightarrow> nat \<Rightarrow> gate \<Rightarrow> gate \<Rightarrow> bool" for caps n where
  check: "length (gt_admitted g) < n \<Longrightarrow>
    admit_check caps (pendingCounts (e_instance_id (a_input a)) (gt_store g)) a = Inr op \<Longrightarrow>
    gate_step caps n g (g\<lparr>gt_admitted := op # gt_admitted g\<rparr>)"
| insert: "op \<in> set (gt_admitted g) \<Longrightarrow> enqueue now i op (gt_store g) = Inr (res, s') \<Longrightarrow>
    gate_step caps n g (g\<lparr>gt_store := s', gt_admitted := remove1 op (gt_admitted g)\<rparr>)"
| insert_failed: "op \<in> set (gt_admitted g) \<Longrightarrow>
    gate_step caps n g (g\<lparr>gt_admitted := remove1 op (gt_admitted g)\<rparr>)"
| other: "(\<And>p inst. depth_of p (pendingCounts inst s') \<le> depth_of p (pendingCounts inst (gt_store g)) + int j) \<Longrightarrow>
    gate_step caps n g (g\<lparr>gt_store := s', gt_returned := gt_returned g + j\<rparr>)"

text \<open>Every other statement of the store is such a step: an update returns at most the rows it moves
  into the backlog, so a claim returns none and a requeue the row it requeues.\<close>

lemma depth_update:
  assumes "keeps_identity f"
  shows "depth_of p (pendingCounts inst (update_where P f s)) \<le>
    depth_of p (pendingCounts inst s) +
    int (length (filter (\<lambda>r. P r \<and> \<not> in_backlog (r_instance_id r) r \<and> in_backlog (r_instance_id r) (f r)) (rows s)))"
proof -
  have id: "r_instance_id (f r) = r_instance_id r" "r_priority (f r) = r_priority r" for r
    using assms by (simp_all add: keeps_identity_def)
  let ?new = "\<lambda>r. P r \<and> \<not> in_backlog (r_instance_id r) r \<and> in_backlog (r_instance_id r) (f r)"
  have "length (filter (\<lambda>r. in_backlog inst r \<and> r_priority r = q) (map (\<lambda>r. if P r then f r else r) rs)) \<le>
      length (filter (\<lambda>r. in_backlog inst r \<and> r_priority r = q) rs) + length (filter ?new rs)" for q rs
    by (induction rs) (auto simp: id in_backlog_def)
  then show ?thesis
    by (cases p) (auto simp: depth_of_def pendingCounts_def count_where_def update_where_def simp flip: of_nat_add)
qed

lemma claim_returns_none:
  "depth_of p (pendingCounts inst (snd (claimBatch now held l act av s))) \<le> depth_of p (pendingCounts inst s)"
  using depth_update [of "mark_running now" p inst "locked held ps" s for ps]
  by (auto simp: claimBatch_def claim_commit_def Let_def in_backlog_def mark_running_def)

lemma requeue_returns:
  "depth_of p (pendingCounts inst (snd (requeue i s))) \<le>
     depth_of p (pendingCounts inst s) + int (count_where (\<lambda>r. has_id i r \<and> is_running r) s)"
proof -
  let ?P = "\<lambda>r. has_id i r \<and> is_running r"
    and ?f = "\<lambda>r. r\<lparr>r_status := Pend PENDING, r_claimed_at := None, r_attempt_count := r_attempt_count r + 1\<rparr>"
  have "length (filter (\<lambda>r. ?P r \<and> Q r) rs) \<le> length (filter ?P rs)" for Q rs by (induction rs) auto
  then have "length (filter (\<lambda>r. ?P r \<and> Q r) (rows s)) \<le> count_where ?P s" for Q by (simp add: count_where_def)
  from this [of "\<lambda>r. \<not> in_backlog (r_instance_id r) r \<and> in_backlog (r_instance_id r) (?f r)"]
    depth_update [of ?f p inst ?P s] show ?thesis by (auto simp: requeue_def keeps_identity_def Let_def)
qed

text \<open>Admitted inputs of one instance and class.\<close>

definition waiting_for :: "string \<Rightarrow> priority \<Rightarrow> enqueue_input list \<Rightarrow> int" where
  "waiting_for inst p ops = int (length (filter (\<lambda>op. e_instance_id op = inst \<and> e_priority op = Some p) ops))"

definition gate_level :: "string \<Rightarrow> priority \<Rightarrow> gate \<Rightarrow> int" where
  "gate_level inst p g = depth_of p (pendingCounts inst (gt_store g)) + waiting_for inst p (gt_admitted g)"

lemma waiting_for_remove1:
  "op \<in> set ops \<Longrightarrow> waiting_for inst p (remove1 op ops) =
     waiting_for inst p ops - (if e_instance_id op = inst \<and> e_priority op = Some p then 1 else 0)"
  by (induction ops) (auto simp: waiting_for_def)

lemma gate_step_level:
  assumes "gate_step caps n g g'" "\<forall>op\<in>set (gt_admitted g). e_priority op \<noteq> None" "length (gt_admitted g) \<le> n"
    "gate_level inst p g \<le> max b (effective_cap caps p - 1 + int n) + int (gt_returned g)"
  shows "(\<forall>op\<in>set (gt_admitted g'). e_priority op \<noteq> None) \<and> length (gt_admitted g') \<le> n \<and>
    gate_level inst p g' \<le> max b (effective_cap caps p - 1 + int n) + int (gt_returned g')"
  using assms(1)
proof cases
  case (check a op)
  note f = admit_check_Inr [OF check(3)]
  have l: "waiting_for inst p (op # gt_admitted g) \<le> int n"
    using check(2) length_filter_le [of _ "op # gt_admitted g"] unfolding waiting_for_def
    by (metis (no_types, lifting) Suc_leI le_trans length_Cons of_nat_le_iff)
  have "gate_level inst p g' \<le> max b (effective_cap caps p - 1 + int n) + int (gt_returned g)"
  proof (cases "e_instance_id op = inst \<and> e_priority op = Some p")
    case True
    then have "depth_of p (pendingCounts inst (gt_store g)) < effective_cap caps p" using f by auto
    then show ?thesis using l by (simp add: check(1) gate_level_def)
  next
    case False
    then have "waiting_for inst p (op # gt_admitted g) = waiting_for inst p (gt_admitted g)"
      by (auto simp: waiting_for_def)
    then show ?thesis using assms(4) by (simp add: check(1) gate_level_def)
  qed
  then show ?thesis using check(1,2) f assms(2) by simp
next
  case (insert op now i res s')
  have "e_priority op \<noteq> None" using assms(2) insert(2) by blast
  then have "depth_of p (pendingCounts inst s') \<le> depth_of p (pendingCounts inst (gt_store g)) +
      (if e_instance_id op = inst \<and> e_priority op = Some p then 1 else 0)"
    using depth_after_enqueue [OF insert(3), of p inst] by auto
  then show ?thesis
    using assms(2-4) insert(1,2) set_remove1_subset [of op "gt_admitted g"] length_remove1 [of op "gt_admitted g"]
    by (auto simp: gate_level_def waiting_for_remove1)
next
  case (insert_failed op)
  then show ?thesis
    using assms(2-4) set_remove1_subset [of op "gt_admitted g"]
    by (auto simp: gate_level_def waiting_for_remove1 length_remove1)
next
  case (other s' j)
  have "depth_of p (pendingCounts inst s') \<le> depth_of p (pendingCounts inst (gt_store g)) + int j" by (rule other(2))
  then have "gate_level inst p g' \<le> gate_level inst p g + int j" by (simp add: gate_level_def other(1))
  then show ?thesis using assms(2-4) other(1) by simp
qed

text \<open>C33: The admission gate bounds the backlog as far as it means to: with at most \<open>n\<close> callers between
  their check and their insert, whatever claims, requeues and failures run between them, the rows of an
  instance and class that wait, together with those already admitted, never exceed the cap by more than
  \<open>n - 1\<close>, apart from rows that a requeue, a deferral or the reaper put back and from what waited at the
  start; so callers that come one at a time never pass the cap, and a caller that reads a backlog at
  the cap is refused.\<close>

theorem admission_bounds_backlog:
  assumes "(gate_step caps n)\<^sup>*\<^sup>* \<lparr>gt_store = s0, gt_admitted = [], gt_returned = 0\<rparr> g"
  shows "depth_of p (pendingCounts inst (gt_store g)) + waiting_for inst p (gt_admitted g)
      \<le> max (depth_of p (pendingCounts inst s0)) (effective_cap caps p - 1 + int n) + int (gt_returned g) \<and>
    (effective_cap caps (admit_priority a) \<le> depth_of (admit_priority a) counts \<longrightarrow>
       (\<exists>e. admitAndEnqueue now i caps (Inr counts) a s = Inl e))"
proof
  let ?g0 = "\<lparr>gt_store = s0, gt_admitted = [], gt_returned = 0\<rparr>"
  let ?b = "max (depth_of p (pendingCounts inst s0)) (effective_cap caps p - 1 + int n)"
  have "(\<forall>op\<in>set (gt_admitted g). e_priority op \<noteq> None) \<and> length (gt_admitted g) \<le> n \<and>
      gate_level inst p g \<le> ?b + int (gt_returned g)"
    using assms
  proof (induction rule: rtranclp_induct)
    case base
    then show ?case by (simp add: gate_level_def waiting_for_def)
  next
    case (step g g')
    then show ?case using gate_step_level [OF step(2)] by blast
  qed
  then show "depth_of p (pendingCounts inst (gt_store g)) + waiting_for inst p (gt_admitted g)
      \<le> ?b + int (gt_returned g)" by (simp add: gate_level_def)
  show "effective_cap caps (admit_priority a) \<le> depth_of (admit_priority a) counts \<longrightarrow>
      (\<exists>e. admitAndEnqueue now i caps (Inr counts) a s = Inl e)"
    by (simp add: admitAndEnqueue_def admit_check_def Let_def sbind_def)
qed

definition example_input :: "string \<Rightarrow> admit_input" where
  "example_input key =
     \<lparr> a_input = \<lparr> e_instance_id = ''ad'', e_object_class = ''user'', e_op_type = DELETE,
         e_lane_key = '''', e_idempotency_key = key, e_priority = None, e_uid = Some ''u1'',
         e_name_attr_value = None, e_attrs = None \<rparr>, a_lane_key = None \<rparr>"

definition admitted_input :: "string \<Rightarrow> enqueue_input" where
  "admitted_input key = (a_input (example_input key))\<lparr>e_lane_key := ''uid:user:u1'', e_priority := Some Batch\<rparr>"

text \<open>Two callers read the empty backlog together and pass a cap of one: the bound is met.\<close>

definition cap_one :: admission_caps where
  "cap_one = \<lparr> cap_batch = Some 1, cap_interactive = None \<rparr>"

definition overshot :: op_store where
  "overshot = (empty_store [0])\<lparr>rows := [new_row 5 ''x'' (admitted_input ''k1''), new_row 6 ''y'' (admitted_input ''k2'')]\<rparr>"

lemma overshoot_run:
  "(gate_step cap_one 2)\<^sup>*\<^sup>* \<lparr>gt_store = empty_store [0], gt_admitted = [], gt_returned = 0\<rparr>
     \<lparr>gt_store = overshot, gt_admitted = [], gt_returned = 0\<rparr>"
proof -
  let ?R = "gate_step cap_one 2" and ?s0 = "empty_store [0]"
  let ?g = "\<lambda>s ops. \<lparr>gt_store = s, gt_admitted = ops, gt_returned = 0\<rparr>"
  let ?a = "admitted_input ''k1''" and ?b = "admitted_input ''k2''"
  have c: "admit_check cap_one (pendingCounts (e_instance_id (a_input (example_input k))) ?s0) (example_input k) =
      Inr (admitted_input k)" for k
    by (simp add: admit_check_def example_input_def admitted_input_def pendingCounts_def count_where_def empty_store_def
        depth_of_def effective_cap_def cap_one_def admit_priority_def laneKeyFor_def)
  have 1: "?R (?g ?s0 []) (?g ?s0 [?a])"
    using gate_step.check [of "?g ?s0 []" 2 cap_one "example_input ''k1''" ?a] c by simp
  have 2: "?R (?g ?s0 [?a]) (?g ?s0 [?b, ?a])"
    using gate_step.check [of "?g ?s0 [?a]" 2 cap_one "example_input ''k2''" ?b] c by simp
  let ?s1 = "?s0\<lparr>rows := [new_row 5 ''x'' ?a]\<rparr>"
  have "enqueue 5 ''x'' ?a ?s0 = Inr (\<lparr>er_id = ''x'', er_deduplicated = False\<rparr>, ?s1)"
    "enqueue 6 ''y'' ?b ?s1 = Inr (\<lparr>er_id = ''y'', er_deduplicated = False\<rparr>, overshot)"
    by (simp_all add: enqueue_def newest_with_key_def empty_store_def day_of_def overshot_def new_row_def
        admitted_input_def example_input_def)
  then have "?R (?g ?s0 [?b, ?a]) (?g ?s1 [?b])" "?R (?g ?s1 [?b]) (?g overshot [])"
    using gate_step.insert [of ?a "?g ?s0 [?b, ?a]" 5 "''x''" _ ?s1 cap_one 2]
      gate_step.insert [of ?b "?g ?s1 [?b]" 6 "''y''" _ overshot cap_one 2]
    by (simp_all add: admitted_input_def example_input_def)
  with 1 2 show ?thesis by (meson converse_rtranclp_into_rtranclp rtranclp.rtrancl_refl)
qed

theorem admission_bounds_backlog_witness:
  "depth_of Batch (pendingCounts ''ad'' overshot) = 2 \<and> depth_of Batch (pendingCounts ''ad'' overshot) \<le> 1 - 1 + int 2 \<and>
   (\<exists>e. admitAndEnqueue 7 ''z'' cap_one (Inr (pendingCounts ''ad'' overshot)) (example_input ''k3'') overshot = Inl e)"
proof -
  have d: "depth_of Batch (pendingCounts ''ad'' overshot) = 2" "depth_of Batch (pendingCounts ''ad'' (empty_store [0])) = 0"
    by (simp_all add: depth_of_def pendingCounts_def count_where_def overshot_def empty_store_def in_backlog_def new_row_def
        admitted_input_def example_input_def)
  have c: "effective_cap cap_one Batch = 1" by (simp add: effective_cap_def cap_one_def)
  have p: "admit_priority (example_input ''k3'') = Batch" by (simp add: admit_priority_def example_input_def)
  note b = admission_bounds_backlog [OF overshoot_run]
  have "depth_of Batch (pendingCounts ''ad'' overshot) \<le> 1 - 1 + int 2"
    using b [of Batch "''ad''"] c d by (simp add: waiting_for_def)
  moreover have "\<exists>e. admitAndEnqueue 7 ''z'' cap_one (Inr (pendingCounts ''ad'' overshot)) (example_input ''k3'') overshot = Inl e"
    using b [of _ _ "example_input ''k3''"] d(1) c unfolding p by simp
  ultimately show ?thesis using d(1) by simp
qed

end
