(* ===== verification/Scheduling.thy ===== *)
theory Scheduling
  imports Js_Runtime
begin

text \<open>
  \<open>src/config/scheduling.ts\<close>: validation of an instance's scheduling block and the size of the
  interactive slice. The operation kinds are those of the vendored core's \<open>OP_KINDS\<close> tuple.
\<close>

section \<open>Types\<close>

datatype op_kind = K_create | K_update | K_delete | K_get | K_search | K_sync

definition OP_KINDS :: "(string \<times> op_kind) list" where
  "OP_KINDS =
     [(''create'', K_create), (''update'', K_update), (''delete'', K_delete),
      (''get'', K_get), (''search'', K_search), (''sync'', K_sync)]"

record rate_limit =
  requestLimit :: int
  requestPeriodMs :: int
  requestTimeoutMs :: "int option"

record scheduling_config =
  interactiveSliceFraction :: rat
  interactiveSlots :: int
  batchSlots :: int
  rateLimits :: "(op_kind \<times> rate_limit) list"

text \<open>One constructor per message the code throws, with what the message names.\<close>

datatype scheduling_error =
    NotWhole string string
  | BelowOne string int
  | LimitsNotObject string
  | UnknownOp string
  | LimitNotObject op_kind string
  | UnknownLimitField op_kind string
  | FractionNotNumber string
  | FractionRange rat
  | NotObject string
  | UnknownSetting string

definition SCHEDULING_KEYS :: "string list" where
  "SCHEDULING_KEYS = [''interactiveSliceFraction'', ''rateLimits'']"

definition RATE_LIMIT_FIELDS :: "string list" where
  "RATE_LIMIT_FIELDS = [''requestLimit'', ''requestPeriodMs'', ''requestTimeoutMs'']"

definition SCHEDULING_DEFAULT_FRACTION :: rat where
  "SCHEDULING_DEFAULT_FRACTION = 1 / 5"

section \<open>Validation\<close>

fun describe :: "jsval \<Rightarrow> string" where
  "describe None = ''undefined''"
| "describe (Some JNull) = ''null''"
| "describe (Some (JArr _)) = ''an array''"
| "describe (Some (JObj _)) = ''object''"
| "describe (Some (JStr _)) = ''string''"
| "describe (Some (JNum _)) = ''number''"
| "describe (Some (JBool _)) = ''boolean''"

definition requirePositiveInteger :: "jsval \<Rightarrow> string \<Rightarrow> scheduling_error + int" where
  "requirePositiveInteger v path =
     (case v of
        Some (JNum (Fin x)) \<Rightarrow>
          if \<not> is_integer (Fin x) then Inl (NotWhole path (describe v))
          else if x < 1 then Inl (BelowOne path \<lfloor>x\<rfloor>)
          else Inr \<lfloor>x\<rfloor>
      | _ \<Rightarrow> Inl (NotWhole path (describe v)))"

definition parseRateLimit :: "op_kind \<Rightarrow> json \<Rightarrow> scheduling_error + rate_limit" where
  "parseRateLimit k entry =
     (if \<not> isPlainObject (Some entry) then Inl (LimitNotObject k (describe (Some entry)))
      else let fs = obj_fields (Some entry)
           in case List.find (\<lambda>f. f \<notin> set RATE_LIMIT_FIELDS) (map fst fs) of
                Some f \<Rightarrow> Inl (UnknownLimitField k f)
              | None \<Rightarrow>
                  sbind (requirePositiveInteger (obj_get fs ''requestLimit'') ''requestLimit'') (\<lambda>l.
                  sbind (requirePositiveInteger (obj_get fs ''requestPeriodMs'') ''requestPeriodMs'') (\<lambda>p.
                  sbind (case obj_get fs ''requestTimeoutMs'' of
                           None \<Rightarrow> Inr None
                         | t \<Rightarrow> sbind (requirePositiveInteger t ''requestTimeoutMs'') (\<lambda>n. Inr (Some n))) (\<lambda>t.
                  Inr \<lparr> requestLimit = l, requestPeriodMs = p, requestTimeoutMs = t \<rparr>))))"

fun parseRateLimitEntries ::
  "(string \<times> json) list \<Rightarrow> scheduling_error + (op_kind \<times> rate_limit) list" where
  "parseRateLimitEntries [] = Inr []"
| "parseRateLimitEntries ((key, entry) # rest) =
     (case map_of OP_KINDS key of
        None \<Rightarrow> Inl (UnknownOp key)
      | Some k \<Rightarrow>
          sbind (parseRateLimit k entry) (\<lambda>l.
          sbind (parseRateLimitEntries rest) (\<lambda>ls. Inr ((k, l) # ls))))"

definition parseRateLimits :: "jsval \<Rightarrow> scheduling_error + (op_kind \<times> rate_limit) list" where
  "parseRateLimits raw =
     (if raw = None then Inr []
      else if \<not> isPlainObject raw then Inl (LimitsNotObject (describe raw))
      else parseRateLimitEntries (obj_fields raw))"

definition parseSliceFraction :: "jsval \<Rightarrow> scheduling_error + rat" where
  "parseSliceFraction raw =
     (case raw of
        None \<Rightarrow> Inr SCHEDULING_DEFAULT_FRACTION
      | Some (JNum (Fin x)) \<Rightarrow> if x < 0 \<or> x > 1 then Inl (FractionRange x) else Inr x
      | _ \<Rightarrow> Inl (FractionNotNumber (describe raw)))"

section \<open>The slice\<close>

text \<open>The product is the machine's, rounded to a double before \<open>ceil\<close>; for a positive product it
  is never not-a-number nor a negative infinity.\<close>

definition computeInteractiveSlots :: "int \<Rightarrow> rat \<Rightarrow> int" where
  "computeInteractiveSlots m f =
     (if m \<le> 1 then 0
      else if f \<le> 0 then 0
      else case to_double (of_int m * f) of
             Fin x \<Rightarrow> min m (max 1 \<lceil>x\<rceil>)
           | PosInf \<Rightarrow> m
           | _ \<Rightarrow> min m 1)"

definition resolveSchedulingConfig :: "jsval \<Rightarrow> int \<Rightarrow> scheduling_error + scheduling_config" where
  "resolveSchedulingConfig input m =
     (if input \<noteq> None \<and> \<not> isPlainObject input then Inl (NotObject (describe input))
      else let source = obj_fields input
           in case List.find (\<lambda>k. k \<notin> set SCHEDULING_KEYS) (map fst source) of
                Some k \<Rightarrow> Inl (UnknownSetting k)
              | None \<Rightarrow>
                  sbind (parseSliceFraction (obj_get source ''interactiveSliceFraction'')) (\<lambda>f.
                  let slots = computeInteractiveSlots m f
                  in sbind (parseRateLimits (obj_get source ''rateLimits'')) (\<lambda>ls.
                     Inr \<lparr> interactiveSliceFraction = f,
                           interactiveSlots = slots,
                           batchSlots = m - slots,
                           rateLimits = ls \<rparr>)))"

section \<open>Correctness\<close>

lemma to_double_positive:
  assumes "0 < x"
  shows "to_double x \<noteq> NaN" "to_double x \<noteq> NegInf"
  using assms by (auto simp: to_double_def Let_def)

lemma computeInteractiveSlots_bounds:
  assumes "1 \<le> m"
  shows "0 \<le> computeInteractiveSlots m f" "computeInteractiveSlots m f \<le> m"
    "2 \<le> m \<Longrightarrow> 0 < f \<Longrightarrow> 1 \<le> computeInteractiveSlots m f"
    "f \<le> 0 \<Longrightarrow> computeInteractiveSlots m f = 0"
    "m = 1 \<Longrightarrow> computeInteractiveSlots m f = 0"
  using assms by (auto simp: computeInteractiveSlots_def split: jsnum.splits)

definition rate_limit_ok :: "rate_limit \<Rightarrow> bool" where
  "rate_limit_ok l =
     (1 \<le> requestLimit l \<and> 1 \<le> requestPeriodMs l \<and>
      (case requestTimeoutMs l of None \<Rightarrow> True | Some t \<Rightarrow> 1 \<le> t))"

lemma requirePositiveInteger_Inr:
  "requirePositiveInteger v path = Inr n \<longleftrightarrow> 1 \<le> n \<and> v = Some (JNum (Fin (of_int n)))"
proof
  assume "requirePositiveInteger v path = Inr n"
  then obtain x where x: "v = Some (JNum (Fin x))" "is_integer (Fin x)" "1 \<le> x" "n = \<lfloor>x\<rfloor>"
    by (auto simp: requirePositiveInteger_def split: option.splits json.splits jsnum.splits if_splits)
  then obtain z where "x = of_int z" by (auto simp: is_integer_def)
  with x show "1 \<le> n \<and> v = Some (JNum (Fin (of_int n)))" by simp
qed (simp add: requirePositiveInteger_def is_integer_def)

lemma parseRateLimit_ok:
  assumes "parseRateLimit k entry = Inr l"
  shows "rate_limit_ok l"
  using assms
  by (auto simp: parseRateLimit_def Let_def sbind_Inr_iff requirePositiveInteger_Inr rate_limit_ok_def
      split: if_splits option.splits)

lemma parseRateLimitEntries_ok:
  "parseRateLimitEntries es = Inr ls \<Longrightarrow>
     (\<forall>(k, l)\<in>set ls. rate_limit_ok l) \<and> map fst ls = map (\<lambda>(key, _). the (map_of OP_KINDS key)) es \<and>
     (\<forall>key\<in>set (map fst es). map_of OP_KINDS key \<noteq> None)"
proof (induction es arbitrary: ls rule: parseRateLimitEntries.induct)
  case (2 key entry rest)
  from "2.prems" obtain k l ls' where k: "map_of OP_KINDS key = Some k"
    and l: "parseRateLimit k entry = Inr l" and ls': "parseRateLimitEntries rest = Inr ls'"
    and ls: "ls = (k, l) # ls'"
    by (auto simp: sbind_Inr_iff split: option.splits)
  from "2.IH" [OF k ls'] k ls parseRateLimit_ok [OF l] show ?case by auto
qed simp

lemma parseRateLimits_ok:
  "parseRateLimits raw = Inr ls \<Longrightarrow> (k, l) \<in> set ls \<Longrightarrow> rate_limit_ok l"
  using parseRateLimitEntries_ok by (fastforce simp: parseRateLimits_def split: if_splits)

lemma parseSliceFraction_range: "parseSliceFraction raw = Inr f \<Longrightarrow> 0 \<le> f \<and> f \<le> 1"
  by (auto simp: parseSliceFraction_def SCHEDULING_DEFAULT_FRACTION_def
      split: option.splits json.splits jsnum.splits if_splits)

lemma resolveSchedulingConfigE:
  assumes "resolveSchedulingConfig input m = Inr c"
  obtains f ls where "input = None \<or> isPlainObject input"
    "\<forall>k\<in>set (map fst (obj_fields input)). k \<in> set SCHEDULING_KEYS"
    "parseSliceFraction (obj_get (obj_fields input) ''interactiveSliceFraction'') = Inr f"
    "parseRateLimits (obj_get (obj_fields input) ''rateLimits'') = Inr ls"
    "c = \<lparr> interactiveSliceFraction = f, interactiveSlots = computeInteractiveSlots m f,
           batchSlots = m - computeInteractiveSlots m f, rateLimits = ls \<rparr>"
  using assms
  by (auto simp: resolveSchedulingConfig_def Let_def sbind_Inr_iff find_None
      split: if_splits option.splits)

lemma computeInteractiveSlots_share:
  assumes "2 \<le> m" "m < 2 ^ 53" "0 < f" "f \<le> 1"
  shows "of_int m * f - of_int m * f / 2 ^ 53 \<le> of_int (computeInteractiveSlots m f)"
    "of_int (computeInteractiveSlots m f) < of_int m * f + 1"
proof -
  let ?x = "of_int m * f"
  have x: "0 < ?x" "?x \<le> of_int m" using assms by (simp_all add: mult_le_cancel_left1)
  have n: "?x \<le> of_int \<lceil>?x\<rceil>" "\<lceil>?x\<rceil> < 2 ^ 53" using x(2) assms(2) by (auto simp: ceiling_le_iff intro: le_less_trans [of _ m])
  obtain y where y: "to_double ?x = Fin y" "y \<le> of_int \<lceil>?x\<rceil>" "1 \<le> ?x \<longrightarrow> ?x - ?x / 2 ^ 53 \<le> y"
    using to_double_le_int [OF x(1) n] by blast
  have k: "computeInteractiveSlots m f = min m (max 1 \<lceil>y\<rceil>)"
    using assms(1,3) y(1) by (simp add: computeInteractiveSlots_def)
  have "\<lceil>y\<rceil> \<le> \<lceil>?x\<rceil>" "1 \<le> \<lceil>?x\<rceil>" using y(2) x(1) by (simp_all add: ceiling_le_iff)
  then have "computeInteractiveSlots m f \<le> \<lceil>?x\<rceil>" unfolding k by (intro min.coboundedI2) simp
  moreover have "rat_of_int \<lceil>?x\<rceil> < ?x + 1" using ceiling_correct [of ?x] by linarith
  ultimately show "of_int (computeInteractiveSlots m f) < ?x + 1"
    by (meson le_less_trans of_int_le_iff)
  have "?x - ?x / 2 ^ 53 \<le> of_int (max 1 \<lceil>y\<rceil>)"
  proof (cases "1 \<le> ?x")
    case True
    then have "?x - ?x / 2 ^ 53 \<le> y" using y(3) by blast
    also have "y \<le> of_int \<lceil>y\<rceil>" by simp
    also have "\<dots> \<le> of_int (max 1 \<lceil>y\<rceil>)" by simp
    finally show ?thesis .
  next
    case False
    moreover have "?x - ?x / 2 ^ 53 \<le> ?x" using x(1) by (simp add: mult.commute)
    ultimately have "?x - ?x / 2 ^ 53 \<le> 1" by linarith
    also have "1 \<le> rat_of_int (max 1 \<lceil>y\<rceil>)" by simp
    finally show ?thesis .
  qed
  moreover have "?x - ?x / 2 ^ 53 \<le> of_int m"
  proof -
    have "?x - ?x / 2 ^ 53 \<le> ?x" using x(1) by (simp add: mult.commute)
    with x(2) show ?thesis by linarith
  qed
  ultimately show "?x - ?x / 2 ^ 53 \<le> of_int (computeInteractiveSlots m f)" by (simp add: k min_def)
qed

text \<open>C35: An accepted scheduling block divides the mutation budget exactly and by its fraction: the
  batch slots and the reserved interactive slots are non-negative and add up to the budget; the
  reserved slots are the fraction's share of the budget rounded up, so they are never below the share
  (but for the rounding of one double) nor a whole slot above it, and at least one; a fraction of
  zero, or a budget of one, reserves none.\<close>

theorem resolved_slots_partition:
  assumes "resolveSchedulingConfig input m = Inr c" and "1 \<le> m"
  shows "0 \<le> batchSlots c \<and> 0 \<le> interactiveSlots c \<and> batchSlots c + interactiveSlots c = m \<and>
    0 \<le> interactiveSliceFraction c \<and> interactiveSliceFraction c \<le> 1 \<and>
    (2 \<le> m \<and> 0 < interactiveSliceFraction c \<longrightarrow> 1 \<le> interactiveSlots c) \<and>
    (2 \<le> m \<and> m < 2 ^ 53 \<and> 0 < interactiveSliceFraction c \<longrightarrow>
       (let share = of_int m * interactiveSliceFraction c
        in share - share / 2 ^ 53 \<le> of_int (interactiveSlots c) \<and> of_int (interactiveSlots c) < share + 1)) \<and>
    (interactiveSliceFraction c = 0 \<or> m = 1 \<longrightarrow> batchSlots c = m)"
  using assms(1)
proof (rule resolveSchedulingConfigE)
  fix f ls
  assume f: "parseSliceFraction (obj_get (obj_fields input) ''interactiveSliceFraction'') = Inr f"
    and "c = \<lparr> interactiveSliceFraction = f, interactiveSlots = computeInteractiveSlots m f,
           batchSlots = m - computeInteractiveSlots m f, rateLimits = ls \<rparr>"
  then show ?thesis
    using computeInteractiveSlots_bounds [OF assms(2), of f] computeInteractiveSlots_share [of m f]
      parseSliceFraction_range [OF f] by (auto simp: Let_def mult.commute)
qed

lemma resolve_default:
  "resolveSchedulingConfig None m =
     Inr \<lparr> interactiveSliceFraction = 1 / 5, interactiveSlots = computeInteractiveSlots m (1 / 5),
           batchSlots = m - computeInteractiveSlots m (1 / 5), rateLimits = [] \<rparr>"
  by (simp add: resolveSchedulingConfig_def parseSliceFraction_def parseRateLimits_def obj_get_def Let_def
      SCHEDULING_DEFAULT_FRACTION_def)

theorem resolved_slots_partition_witness:
  "\<exists>c. resolveSchedulingConfig None 12 = Inr c \<and> batchSlots c = 9 \<and> interactiveSlots c = 3"
proof -
  obtain c where c: "resolveSchedulingConfig None 12 = Inr c" "interactiveSliceFraction c = 1 / 5"
    by (simp add: resolve_default)
  note p = resolved_slots_partition [OF c(1)]
  have "rat_of_int 2 < of_int (interactiveSlots c)" "of_int (interactiveSlots c) < rat_of_int 4"
    using p c(2) by (auto simp: Let_def)
  then have "interactiveSlots c = 3" unfolding of_int_less_iff by linarith
  moreover have "batchSlots c + interactiveSlots c = 12" using p by simp
  ultimately show ?thesis using c(1) by auto
qed

end
