(* ===== verification/Resolution.thy ===== *)
theory Resolution
  imports Op_Types Scheduling
begin

text \<open>
  The resolution protocol of \<open>src/ops/Dispatcher.ts\<close>: what one attempt at one claimed operation
  asks of the connector facade and what it concludes. The framework is not part of the repository:
  a facade is an arbitrary function from a call to its answer, an exception is known only by the
  observations the code makes of it (\<open>isConnectorError\<close> with code and retryable flag,
  \<open>isDeadlineExpired\<close>, the message), and the registry's answers are arguments. An attempt returns
  the calls it made, in order, with its resolution.
\<close>

section \<open>The framework's interface\<close>

datatype conn_code =
    ALREADY_EXISTS | UNKNOWN_UID | CONNECTION_FAILED | INVALID_ATTRIBUTE | PERMISSION_DENIED
  | RATE_LIMIT_TARGET | UNKNOWN

fun code_name :: "conn_code \<Rightarrow> string" where
  "code_name ALREADY_EXISTS = ''ALREADY_EXISTS''"
| "code_name UNKNOWN_UID = ''UNKNOWN_UID''"
| "code_name CONNECTION_FAILED = ''CONNECTION_FAILED''"
| "code_name INVALID_ATTRIBUTE = ''INVALID_ATTRIBUTE''"
| "code_name PERMISSION_DENIED = ''PERMISSION_DENIED''"
| "code_name RATE_LIMIT_TARGET = ''RATE_LIMIT_TARGET''"
| "code_name UNKNOWN = ''UNKNOWN''"

record thrown =
  t_connector :: "(conn_code \<times> bool) option"
  t_deadline :: bool
  t_message :: string

definition type_error :: thrown where
  "type_error =
     \<lparr> t_connector = None, t_deadline = False, t_message = ''Cannot read properties of undefined'' \<rparr>"

definition has_code :: "conn_code \<Rightarrow> thrown \<Rightarrow> bool" where
  "has_code c e = (case t_connector e of None \<Rightarrow> False | Some (c', _) \<Rightarrow> c' = c)"

definition is_retryable :: "thrown \<Rightarrow> bool" where
  "is_retryable e = (case t_connector e of None \<Rightarrow> False | Some (_, b) \<Rightarrow> b)"

definition codeOf :: "thrown \<Rightarrow> string" where
  "codeOf e =
     (if t_deadline e then ''DEADLINE_EXPIRED''
      else case t_connector e of Some (c, _) \<Rightarrow> code_name c | None \<Rightarrow> ''UNKNOWN'')"

record op_options =
  deadlineEpochMs :: int
  o_priority :: priority

datatype facade_call =
    CallSchema
  | CallCreate string json op_options
  | CallUpdate string "string option" json op_options
  | CallDelete string "string option" op_options
  | CallAddValues string string json op_options
  | CallRemoveValues string string json op_options
  | CallSearch string string string int int

type_synonym facade = "facade_call \<Rightarrow> thrown + jsval"

fun is_mutation :: "facade_call \<Rightarrow> bool" where
  "is_mutation CallSchema = False"
| "is_mutation (CallSearch _ _ _ _ _) = False"
| "is_mutation _ = True"

record capabilities =
  equalitySearchOnName :: bool
  idempotentDelta :: bool

record core_runtime =
  attemptDeadlineMs :: "op_kind \<Rightarrow> int"
  mutationConcurrency :: int

record instance_config =
  ic_runtime :: core_runtime
  ic_scheduling :: scheduling_config

section \<open>Dispatcher configuration\<close>

record dispatcher_config =
  claimIntervalMs :: int
  claimBatchSize :: int
  maxAttempts :: int
  backoffBaseMs :: int
  backoffMaxMs :: int
  readBackGraceMs :: int
  reaperThresholdMs :: int
  reaperIntervalMs :: int

definition DEFAULTS :: dispatcher_config where
  "DEFAULTS =
     \<lparr> claimIntervalMs = 25, claimBatchSize = 100, maxAttempts = 5, backoffBaseMs = 1000,
       backoffMaxMs = 60000, readBackGraceMs = 2000, reaperThresholdMs = 10 * 60000,
       reaperIntervalMs = 60000 \<rparr>"

section \<open>Resolutions\<close>

datatype verdict = Final outcome | REQUEUE | DEFER_READBACK

record resolution =
  rs_outcome :: verdict
  rs_result :: jsval
  rs_error :: "string option"
  rs_delay :: "int option"

definition succeed :: "jsval \<Rightarrow> resolution" where
  "succeed v = \<lparr> rs_outcome = Final SUCCEEDED, rs_result = v, rs_error = None, rs_delay = None \<rparr>"

definition fail_with :: "outcome \<Rightarrow> string \<Rightarrow> resolution" where
  "fail_with out code =
     \<lparr> rs_outcome = Final out, rs_result = None, rs_error = Some code, rs_delay = None \<rparr>"

definition again :: "verdict \<Rightarrow> string \<Rightarrow> int \<Rightarrow> resolution" where
  "again v code ms = \<lparr> rs_outcome = v, rs_result = None, rs_error = Some code, rs_delay = Some ms \<rparr>"

section \<open>Naming attribute\<close>

text \<open>\<open>src/ops/nameAttribute.ts\<close>. \<open>find\<close> over the declared classes; reading a member of \<open>null\<close>
  throws. A naming attribute that is not a string, which the schema type excludes, reads as
  absent.\<close>

datatype 'a found = Throws | Absent | Present 'a

fun find_object_class :: "string \<Rightarrow> json list \<Rightarrow> json found" where
  "find_object_class oc [] = Absent"
| "find_object_class oc (c # cs) =
     (if c = JNull then Throws
      else if opt_field (Some c) ''name'' = Some (JStr oc) then Present c
      else find_object_class oc cs)"

definition resolveNameAttribute :: "facade \<Rightarrow> string \<Rightarrow> string" where
  "resolveNameAttribute fac oc =
     (case fac CallSchema of
        Inl _ \<Rightarrow> ''__NAME__''
      | Inr schema \<Rightarrow>
          (case opt_field schema ''objectClasses'' of
             Some (JArr cs) \<Rightarrow>
               (case find_object_class oc cs of
                  Present c \<Rightarrow>
                    (case opt_field (Some c) ''nameAttribute'' of
                       Some (JStr n) \<Rightarrow> if n = '''' then ''__NAME__'' else n
                     | _ \<Rightarrow> ''__NAME__'')
                | _ \<Rightarrow> ''__NAME__'')
           | _ \<Rightarrow> ''__NAME__''))"

section \<open>Shared steps of an attempt\<close>

definition optionsFor :: "int \<Rightarrow> claimed_op \<Rightarrow> instance_config \<Rightarrow> op_options" where
  "optionsFor now c cfg =
     (let kind = (if c_op_type c = CREATE then K_create
                  else if c_op_type c = UPDATE then K_update else K_delete)
      in \<lparr> deadlineEpochMs = now + attemptDeadlineMs (ic_runtime cfg) kind,
           o_priority = c_priority c \<rparr>)"

definition backoffOrGiveUp :: "dispatcher_config \<Rightarrow> claimed_op \<Rightarrow> string \<Rightarrow> outcome \<Rightarrow> resolution" where
  "backoffOrGiveUp dc c code exhausted =
     (if maxAttempts dc \<le> int (c_attempt_count c) + 1 then fail_with exhausted code
      else again REQUEUE code (min (backoffMaxMs dc) (backoffBaseMs dc * 2 ^ c_attempt_count c)))"

text \<open>\<open>v.k\<close>, which throws on undefined and null.\<close>

definition js_member :: "jsval \<Rightarrow> string \<Rightarrow> thrown + jsval" where
  "js_member v k = (if nullish v then Inl type_error else Inr (opt_field v k))"

type_synonym attempt_result = "facade_call list \<times> resolution"

section \<open>CREATE\<close>

definition resolveCreateAfterDeadline ::
  "dispatcher_config \<Rightarrow> (string \<Rightarrow> capabilities) \<Rightarrow> claimed_op \<Rightarrow> instance_config \<Rightarrow> resolution" where
  "resolveCreateAfterDeadline dc caps c cfg =
     (if \<not> equalitySearchOnName (caps (c_instance_id c))
      then fail_with INDETERMINATE ''DEADLINE_NO_READBACK''
      else if c_name_attr_value c = None then fail_with INDETERMINATE ''DEADLINE_NO_NAME''
      else again DEFER_READBACK ''AWAITING_READBACK''
             (attemptDeadlineMs (ic_runtime cfg) K_create + readBackGraceMs dc))"

definition attemptCreate ::
  "dispatcher_config \<Rightarrow> (string \<Rightarrow> capabilities) \<Rightarrow> facade \<Rightarrow> claimed_op \<Rightarrow> instance_config
     \<Rightarrow> op_options \<Rightarrow> json \<Rightarrow> attempt_result" where
  "attemptCreate dc caps fac c cfg opts attrs =
     (let call = CallCreate (c_object_class c) attrs opts;
          answer = sbind (fac call) (\<lambda>created.
                     sbind (js_member created ''uid'') (\<lambda>uid.
                       Inr (obj_literal [(''uid'', uid), (''object'', created)])))
      in ([call],
          case answer of
            Inr v \<Rightarrow> succeed (Some v)
          | Inl e \<Rightarrow>
              if has_code ALREADY_EXISTS e then fail_with FAILED_CONFIRMED ''ALREADY_EXISTS''
              else if t_deadline e then resolveCreateAfterDeadline dc caps c cfg
              else if is_retryable e then backoffOrGiveUp dc c (codeOf e) INDETERMINATE
              else fail_with FAILED_CONFIRMED (codeOf e)))"

text \<open>The first of \<open>res?.results ?? []\<close>. \<open>results\<close> that is not an array, which the search result
  type excludes, reads as empty.\<close>

definition first_result :: "jsval \<Rightarrow> jsval" where
  "first_result res =
     (case opt_field res ''results'' of Some (JArr (r # _)) \<Rightarrow> Some r | _ \<Rightarrow> None)"

text \<open>\<open>if (found)\<close>: the null a search answers in place of an object is a miss, as are the other
  falsy values.\<close>

definition truthy :: "jsval \<Rightarrow> bool" where
  "truthy v = (case v of
     None \<Rightarrow> False | Some JNull \<Rightarrow> False | Some (JBool b) \<Rightarrow> b | Some (JStr s) \<Rightarrow> s \<noteq> ''''
   | Some (JNum n) \<Rightarrow> n \<noteq> Fin 0 \<and> n \<noteq> NaN | Some (JArr _) \<Rightarrow> True | Some (JObj _) \<Rightarrow> True)"

definition readback_call ::
  "int \<Rightarrow> claimed_op \<Rightarrow> string \<Rightarrow> string \<Rightarrow> instance_config \<Rightarrow> facade_call" where
  "readback_call now c nameAttribute nameValue cfg =
     CallSearch (c_object_class c) nameAttribute nameValue 2
       (now + attemptDeadlineMs (ic_runtime cfg) K_search)"

definition resumeReadBack ::
  "int \<Rightarrow> facade \<Rightarrow> claimed_op \<Rightarrow> instance_config \<Rightarrow> attempt_result" where
  "resumeReadBack now fac c cfg =
     (case c_name_attr_value c of
        None \<Rightarrow> ([], fail_with INDETERMINATE ''DEADLINE_NO_NAME'')
      | Some name \<Rightarrow>
          let attr = resolveNameAttribute fac (c_object_class c);
              call = readback_call now c attr name cfg
          in ([CallSchema, call],
              case fac call of
                Inl e \<Rightarrow> fail_with INDETERMINATE (''READBACK_FAILED:'' @ codeOf e)
              | Inr res \<Rightarrow>
                  let found = first_result res
                  in if truthy found
                     then succeed (Some (obj_literal
                            [(''uid'', opt_field found ''uid''), (''object'', found),
                             (''viaReadBack'', Some (JBool True))]))
                     else if c_attempt_count c < 1 then again REQUEUE ''READBACK_MISS'' 0
                     else fail_with INDETERMINATE ''READBACK_MISS''))"

section \<open>UPDATE, DELETE and the deltas\<close>

definition uid_of_updated :: "jsval \<Rightarrow> claimed_op \<Rightarrow> jsval" where
  "uid_of_updated updated c =
     coalesce (opt_field updated ''uid'') (Some (json_of_opt_string (c_uid c)))"

definition retryable_failure :: "thrown \<Rightarrow> bool" where
  "retryable_failure e = (t_deadline e \<or> is_retryable e)"

definition attemptUpdate ::
  "dispatcher_config \<Rightarrow> facade \<Rightarrow> claimed_op \<Rightarrow> op_options \<Rightarrow> json \<Rightarrow> attempt_result" where
  "attemptUpdate dc fac c opts attrs =
     (let call = CallUpdate (c_object_class c) (c_uid c) attrs opts
      in ([call],
          case fac call of
            Inr updated \<Rightarrow>
              succeed (Some (obj_literal [(''uid'', uid_of_updated updated c), (''object'', updated)]))
          | Inl e \<Rightarrow>
              if has_code UNKNOWN_UID e then fail_with FAILED_CONFIRMED ''UNKNOWN_UID''
              else if \<not> retryable_failure e then fail_with FAILED_CONFIRMED (codeOf e)
              else backoffOrGiveUp dc c (codeOf e) INDETERMINATE))"

definition attemptDelta ::
  "dispatcher_config \<Rightarrow> (string \<Rightarrow> capabilities) \<Rightarrow> facade \<Rightarrow> claimed_op \<Rightarrow> op_options \<Rightarrow> json
     \<Rightarrow> attempt_result" where
  "attemptDelta dc caps fac c opts attrs =
     (case c_uid c of
        None \<Rightarrow> ([], fail_with REJECTED_PRE_DISPATCH ''MISSING_UID'')
      | Some uid \<Rightarrow>
          if uid = '''' then ([], fail_with REJECTED_PRE_DISPATCH ''MISSING_UID'')
          else let call = (if c_op_type c = ADD_VALUES
                           then CallAddValues (c_object_class c) uid attrs opts
                           else CallRemoveValues (c_object_class c) uid attrs opts)
               in ([call],
                   case fac call of
                     Inr updated \<Rightarrow>
                       succeed (Some (obj_literal
                         [(''uid'', uid_of_updated updated c), (''object'', updated)]))
                   | Inl e \<Rightarrow>
                       if has_code UNKNOWN_UID e then fail_with FAILED_CONFIRMED ''UNKNOWN_UID''
                       else if \<not> retryable_failure e then fail_with FAILED_CONFIRMED (codeOf e)
                       else if \<not> idempotentDelta (caps (c_instance_id c))
                       then fail_with INDETERMINATE ''DELTA_NOT_IDEMPOTENT''
                       else backoffOrGiveUp dc c (codeOf e) INDETERMINATE))"

definition attemptDelete ::
  "dispatcher_config \<Rightarrow> facade \<Rightarrow> claimed_op \<Rightarrow> op_options \<Rightarrow> attempt_result" where
  "attemptDelete dc fac c opts =
     (let call = CallDelete (c_object_class c) (c_uid c) opts
      in ([call],
          case fac call of
            Inr _ \<Rightarrow> succeed (Some (obj_literal [(''uid'', Some (json_of_opt_string (c_uid c)))]))
          | Inl e \<Rightarrow>
              if has_code UNKNOWN_UID e
              then succeed (Some (obj_literal
                     [(''uid'', Some (json_of_opt_string (c_uid c))),
                      (''alreadyAbsent'', Some (JBool True))]))
              else if \<not> retryable_failure e then fail_with FAILED_CONFIRMED (codeOf e)
              else backoffOrGiveUp dc c (codeOf e) INDETERMINATE))"

section \<open>attempt\<close>

text \<open>\<open>op.attrs ?? {}\<close>.\<close>

definition attrs_of :: "claimed_op \<Rightarrow> json" where
  "attrs_of c = the (coalesce (c_attrs c) (Some (JObj [])))"

text \<open>The body of \<open>attempt\<close> once \<open>configOf\<close> has answered: \<open>None\<close> for an instance that is not
  registered.\<close>

definition attempt ::
  "dispatcher_config \<Rightarrow> (string \<Rightarrow> capabilities) \<Rightarrow> int \<Rightarrow> facade \<Rightarrow> claimed_op
     \<Rightarrow> instance_config option \<Rightarrow> attempt_result" where
  "attempt dc caps now fac c runtime =
     (case runtime of
        None \<Rightarrow> ([], fail_with REJECTED_PRE_DISPATCH ''UNKNOWN_INSTANCE'')
      | Some cfg \<Rightarrow>
          if c_prior_status c = Pend AWAITING_READBACK then resumeReadBack now fac c cfg
          else let opts = optionsFor now c cfg; attrs = attrs_of c
               in case c_op_type c of
                    CREATE \<Rightarrow> attemptCreate dc caps fac c cfg opts attrs
                  | UPDATE \<Rightarrow> attemptUpdate dc fac c opts attrs
                  | DELETE \<Rightarrow> attemptDelete dc fac c opts
                  | ADD_VALUES \<Rightarrow> attemptDelta dc caps fac c opts attrs
                  | REMOVE_VALUES \<Rightarrow> attemptDelta dc caps fac c opts attrs)"

end
