(* ===== verification/Filter_Query.thy ===== *)
theory Filter_Query
  imports Js_Runtime
begin

text \<open>
  \<open>src/http/filter.ts\<close>: the parser of the search route's \<open>filter\<close> parameter. The regular expression
  of \<open>tokenize\<close> is written out as a scanner, \<open>OP_KEYWORDS\<close> as the lookup on a plain object that it
  is, and every message as a constructor of the error type. \<open>show_filter\<close>, a printer for the flat
  filters of the grammar, states the round trip.
\<close>

section \<open>The AST of the framework's filter module\<close>

datatype filter_op = EQ | CONTAINS | STARTS_WITH | ENDS_WITH | GT | GTE | LT | LTE | EXISTS

text \<open>What a property lookup on \<open>OP_KEYWORDS\<close> answers: one of its own entries or a member every
  object inherits.\<close>

datatype op_entry = Own filter_op | Inherited string

datatype filter_value = FStr string | FNum jsnum | FBool bool

datatype filter_node =
    Cmp op_entry "string list" "filter_value option"
  | AndNode "filter_node list"

datatype filter_error =
    EmptyFilter
  | ExpectedAnd string
  | ExpectedPath
  | InvalidPath string
  | ExpectedOp string
  | UnknownOp string
  | ExpectedValue string
  | UnterminatedString string
  | BadValue string
  | NoClause

section \<open>Tokens\<close>

definition is_line_end :: "char \<Rightarrow> bool" where
  "is_line_end c = (char_code c = 10 \<or> char_code c = 13)"

text \<open>The rest of the quoted alternative after its opening quote: the text up to and with the closing
  quote, and what follows. A backslash takes the next character with it, unless that ends a line.\<close>

fun quoted_rest :: "string \<Rightarrow> (string \<times> string) option" where
  "quoted_rest [] = None"
| "quoted_rest (c # cs) =
     (if c = CHR 0x22 then Some ([c], cs)
      else if c = CHR 0x5C
      then case cs of
             [] \<Rightarrow> None
           | d # ds \<Rightarrow> if is_line_end d then None
                       else map_option (\<lambda>(w, r). (c # d # w, r)) (quoted_rest ds)
      else map_option (\<lambda>(w, r). (c # w, r)) (quoted_rest cs))"

lemma quoted_rest_length: "quoted_rest s = Some (w, r) \<Longrightarrow> length r < length s"
  by (induction s arbitrary: w r rule: quoted_rest.induct)
    (auto split: if_splits list.splits, fastforce+)

function tokenize :: "string \<Rightarrow> string list" where
  "tokenize [] = []"
| "tokenize (c # cs) =
     (if is_ws c then tokenize cs
      else case (if c = CHR 0x22 then quoted_rest cs else None) of
             Some (w, r) \<Rightarrow> (c # w) # tokenize r
           | None \<Rightarrow> (c # takeWhile (\<lambda>d. \<not> is_ws d) cs) # tokenize (dropWhile (\<lambda>d. \<not> is_ws d) cs))"
  by pat_completeness auto
termination
  by (relation "measure length")
    (auto split: if_splits dest!: quoted_rest_length intro: le_imp_less_Suc length_dropWhile_le)

section \<open>Values, paths, operators\<close>

text \<open>\<open>replace(/\(.)/g, "$1")\<close> with a backslash before the group.\<close>

fun unescape :: "string \<Rightarrow> string" where
  "unescape [] = []"
| "unescape [c] = [c]"
| "unescape (c # d # ds) =
     (if c = CHR 0x5C \<and> \<not> is_line_end d then d # unescape ds else c # unescape (d # ds))"

definition parseValue :: "string \<Rightarrow> filter_error + filter_value" where
  "parseValue token =
     (if starts_with token [CHR 0x22]
      then if \<not> ends_with token [CHR 0x22] \<or> length token < 2 then Inl (UnterminatedString token)
           else Inr (FStr (unescape (butlast (tl token))))
      else if token = ''true'' then Inr (FBool True)
      else if token = ''false'' then Inr (FBool False)
      else let n = js_Number token
           in if n = NaN \<or> token = [] then Inl (BadValue token) else Inr (FNum n))"

definition is_word_char :: "char \<Rightarrow> bool" where
  "is_word_char c = (is_alpha c \<or> is_digit c \<or> c = CHR ''_'')"

definition is_ident :: "string \<Rightarrow> bool" where
  "is_ident s = (s \<noteq> [] \<and> (is_alpha (hd s) \<or> hd s = CHR ''_'') \<and> list_all is_word_char (tl s))"

definition is_path :: "string \<Rightarrow> bool" where
  "is_path s = list_all is_ident (split_on (CHR ''.'') s)"

definition OP_KEYWORDS :: "(string \<times> filter_op) list" where
  "OP_KEYWORDS =
     [(''eq'', EQ), (''co'', CONTAINS), (''sw'', STARTS_WITH), (''ew'', ENDS_WITH), (''gt'', GT),
      (''ge'', GTE), (''lt'', LT), (''le'', LTE), (''pr'', EXISTS)]"

text \<open>The truthy members of \<open>Object.prototype\<close>.\<close>

definition object_members :: "string list" where
  "object_members =
     [''constructor'', ''__defineGetter__'', ''__defineSetter__'', ''hasOwnProperty'',
      ''__lookupGetter__'', ''__lookupSetter__'', ''isPrototypeOf'', ''propertyIsEnumerable'',
      ''toString'', ''valueOf'', ''__proto__'', ''toLocaleString'']"

definition op_lookup :: "string \<Rightarrow> op_entry option" where
  "op_lookup k =
     (case map_of OP_KEYWORDS k of
        Some p \<Rightarrow> Some (Own p)
      | None \<Rightarrow> if k \<in> set object_members then Some (Inherited k) else None)"

section \<open>The parser\<close>

text \<open>One pass of the loop after the joiner: the clause and the tokens left.\<close>

definition parse_clause :: "string list \<Rightarrow> filter_error + filter_node \<times> string list" where
  "parse_clause tokens =
     (case tokens of
        [] \<Rightarrow> Inl ExpectedPath
      | p # r1 \<Rightarrow>
          if \<not> is_path p then Inl (InvalidPath p)
          else case r1 of
                 [] \<Rightarrow> Inl (ExpectedOp p)
               | k # r2 \<Rightarrow>
                   (case op_lookup (to_lower k) of
                      None \<Rightarrow> Inl (UnknownOp k)
                    | Some entry \<Rightarrow>
                        let path = split_on (CHR ''.'') p
                        in if entry = Own EXISTS then Inr (Cmp entry path None, r2)
                           else case r2 of
                                  [] \<Rightarrow> Inl (ExpectedValue k)
                                | v # r3 \<Rightarrow>
                                    sbind (parseValue v) (\<lambda>x. Inr (Cmp entry path (Some x), r3))))"

lemma parse_clause_shrinks: "parse_clause ts = Inr (n, r) \<Longrightarrow> length r < length ts"
  by (auto simp: parse_clause_def Let_def sbind_Inr_iff split: list.splits option.splits if_splits)

function parse_more :: "string list \<Rightarrow> filter_error + filter_node list" where
  "parse_more [] = Inr []"
| "parse_more (j # ts) =
     (if to_lower j \<noteq> ''and'' then Inl (ExpectedAnd j)
      else case parse_clause ts of
             Inl e \<Rightarrow> Inl e
           | Inr (n, r) \<Rightarrow> (case parse_more r of Inl e \<Rightarrow> Inl e | Inr ns \<Rightarrow> Inr (n # ns)))"
  by pat_completeness auto
termination
  by (relation "measure length") (auto dest: parse_clause_shrinks)

definition parseFilterString :: "string \<Rightarrow> filter_error + filter_node" where
  "parseFilterString input =
     (let trimmed = js_trim input
      in if trimmed = [] then Inl EmptyFilter
         else let tokens = tokenize trimmed
              in if tokens = [] then Inl NoClause
                 else sbind (parse_clause tokens) (\<lambda>(n, r).
                      sbind (parse_more r) (\<lambda>ns.
                      Inr (if ns = [] then n else AndNode (n # ns)))))"

section \<open>What is accepted\<close>

definition is_comparison :: "filter_node \<Rightarrow> bool" where
  "is_comparison n =
     (case n of
        Cmp entry path v \<Rightarrow>
          path \<noteq> [] \<and> list_all is_ident path \<and> (v = None \<longleftrightarrow> entry = Own EXISTS) \<and> v \<noteq> Some (FNum NaN)
      | AndNode _ \<Rightarrow> False)"

lemma parseValue_not_nan: "parseValue t = Inr v \<Longrightarrow> v \<noteq> FNum NaN"
  by (auto simp: parseValue_def Let_def split: if_splits)

lemma parse_clause_comparison: "parse_clause ts = Inr (n, r) \<Longrightarrow> is_comparison n"
  by (auto simp: parse_clause_def Let_def sbind_Inr_iff is_comparison_def is_path_def split_on_nonempty
      dest: parseValue_not_nan split: list.splits option.splits if_splits)

lemma parse_more_comparisons: "parse_more ts = Inr ns \<Longrightarrow> list_all is_comparison ns"
  by (induction ts arbitrary: ns rule: parse_more.induct)
    (auto dest: parse_clause_comparison split: if_splits sum.splits prod.splits)

text \<open>An accepted filter is one comparison or a conjunction of at least two, never nested: every
  path consists of identifiers, a comparison carries a value exactly when its operator is not the
  presence test, and no value is not-a-number.\<close>

theorem accepted_filters_flat:
  assumes "parseFilterString s = Inr n"
  shows "is_comparison n \<or> (\<exists>ns. n = AndNode ns \<and> 2 \<le> length ns \<and> list_all is_comparison ns)"
proof -
  obtain m r ns where c: "parse_clause (tokenize (js_trim s)) = Inr (m, r)" "parse_more r = Inr ns"
    "n = (if ns = [] then m else AndNode (m # ns))"
    using assms by (auto simp: parseFilterString_def Let_def sbind_Inr_iff split: if_splits)
  then show ?thesis
    using parse_clause_comparison [OF c(1)] parse_more_comparisons [OF c(2)] by (cases ns) auto
qed

theorem accepted_filters_flat_witness:
  "parseFilterString ''active eq true'' = Inr (Cmp (Own EQ) [''active''] (Some (FBool True))) \<and>
   is_comparison (Cmp (Own EQ) [''active''] (Some (FBool True)))"
proof -
  have eq: "parseFilterString ''active eq true'' = Inr (Cmp (Own EQ) [''active''] (Some (FBool True)))"
    by code_simp
  from eq accepted_filters_flat [OF eq] show ?thesis by simp
qed

section \<open>Printing and reading back\<close>

record comparison =
  cm_path :: "string list"
  cm_op :: filter_op
  cm_value :: filter_value

fun escape :: "string \<Rightarrow> string" where
  "escape [] = []"
| "escape (c # cs) =
     (if c = CHR 0x22 \<or> c = CHR 0x5C then CHR 0x5C # c # escape cs else c # escape cs)"

definition show_keyword :: "filter_op \<Rightarrow> string" where
  "show_keyword p =
     (case p of EQ \<Rightarrow> ''eq'' | CONTAINS \<Rightarrow> ''co'' | STARTS_WITH \<Rightarrow> ''sw'' | ENDS_WITH \<Rightarrow> ''ew''
      | GT \<Rightarrow> ''gt'' | GTE \<Rightarrow> ''ge'' | LT \<Rightarrow> ''lt'' | LTE \<Rightarrow> ''le'' | EXISTS \<Rightarrow> ''pr'')"

definition show_value :: "filter_value \<Rightarrow> string" where
  "show_value v =
     (case v of
        FStr s \<Rightarrow> CHR 0x22 # escape s @ [CHR 0x22]
      | FBool b \<Rightarrow> if b then ''true'' else ''false''
      | FNum (Fin x) \<Rightarrow> int_to_string \<lfloor>x\<rfloor>
      | FNum _ \<Rightarrow> ''NaN'')"

definition comparison_tokens :: "comparison \<Rightarrow> string list" where
  "comparison_tokens c =
     [join_with ''.'' (cm_path c), show_keyword (cm_op c)] @
     (if cm_op c = EXISTS then [] else [show_value (cm_value c)])"

fun filter_tokens :: "comparison list \<Rightarrow> string list" where
  "filter_tokens [] = []"
| "filter_tokens [c] = comparison_tokens c"
| "filter_tokens (c # cs) = comparison_tokens c @ ''and'' # filter_tokens cs"

definition show_filter :: "comparison list \<Rightarrow> string" where
  "show_filter cs = join_with '' '' (filter_tokens cs)"

definition node_of_comparison :: "comparison \<Rightarrow> filter_node" where
  "node_of_comparison c =
     Cmp (Own (cm_op c)) (cm_path c) (if cm_op c = EXISTS then None else Some (cm_value c))"

definition filter_of :: "comparison list \<Rightarrow> filter_node" where
  "filter_of cs = (case cs of [c] \<Rightarrow> node_of_comparison c | _ \<Rightarrow> AndNode (map node_of_comparison cs))"

text \<open>Values the grammar can write: any string, a boolean, an integer a double holds exactly.\<close>

definition printable_value :: "filter_value \<Rightarrow> bool" where
  "printable_value v =
     (case v of
        FStr _ \<Rightarrow> True
      | FBool _ \<Rightarrow> True
      | FNum (Fin x) \<Rightarrow> x = of_int \<lfloor>x\<rfloor> \<and> \<bar>\<lfloor>x\<rfloor>\<bar> < 2 ^ 53
      | FNum _ \<Rightarrow> False)"

definition printable :: "comparison \<Rightarrow> bool" where
  "printable c = (cm_path c \<noteq> [] \<and> list_all is_ident (cm_path c) \<and> printable_value (cm_value c))"

subsection \<open>Tokens\<close>

lemma quoted_rest_escape: "quoted_rest (escape s @ CHR 0x22 # r) = Some (escape s @ [CHR 0x22], r)"
proof (induction s)
  case (Cons c s)
  then show ?case by (auto simp: is_line_end_def char_code_def)
qed simp

lemma unescape_escape: "unescape (escape s) = s"
proof (induction s)
  case (Cons c s)
  show ?case
  proof (cases "c = CHR 0x22 \<or> c = CHR 0x5C")
    case True
    then show ?thesis using Cons by (auto simp: is_line_end_def char_code_def)
  next
    case False
    then have "unescape (c # escape s) = c # unescape (escape s)" by (cases "escape s") auto
    with False Cons show ?thesis by simp
  qed
qed simp

text \<open>A token: a quoted text, or characters without white space that do not open a quote.\<close>

definition is_token :: "string \<Rightarrow> bool" where
  "is_token t =
     ((\<exists>s. t = CHR 0x22 # escape s @ [CHR 0x22]) \<or>
      t \<noteq> [] \<and> hd t \<noteq> CHR 0x22 \<and> list_all (\<lambda>c. \<not> is_ws c) t)"

lemma quote_not_ws [simp]: "\<not> is_ws (CHR 0x22)" "is_ws (CHR '' '')"
  by (simp_all add: is_ws_def char_code_def)

lemma tokenize_quoted:
  "tokenize (CHR 0x22 # escape s @ CHR 0x22 # r) = (CHR 0x22 # escape s @ [CHR 0x22]) # tokenize r"
  by (simp add: quoted_rest_escape)

lemma tokenize_plain:
  assumes "t \<noteq> []" "hd t \<noteq> CHR 0x22" "list_all (\<lambda>c. \<not> is_ws c) t" "r = [] \<or> is_ws (hd r)"
  shows "tokenize (t @ r) = t # tokenize r"
proof -
  obtain c cs where t: "t = c # cs" using assms(1) by (cases t) auto
  have "takeWhile (\<lambda>d. \<not> is_ws d) (cs @ r) = cs \<and> dropWhile (\<lambda>d. \<not> is_ws d) (cs @ r) = r"
    using assms(3,4) t by (cases r) (simp_all add: takeWhile_append dropWhile_append list_all_iff)
  then show ?thesis using assms(2,3) t by simp
qed

lemma tokenize_token: "is_token t \<Longrightarrow> r = [] \<or> is_ws (hd r) \<Longrightarrow> tokenize (t @ r) = t # tokenize r"
  using tokenize_plain [of t r] tokenize_quoted by (auto simp: is_token_def)

lemma tokenize_join: "list_all is_token ts \<Longrightarrow> tokenize (join_with '' '' ts) = ts"
proof (induction ts rule: induct_list012)
  case (2 t)
  then show ?case using tokenize_token [of t "[]"] by simp
next
  case (3 t u ts)
  then show ?case using tokenize_token [of t "CHR '' '' # join_with '' '' (u # ts)"] by simp
qed simp

lemma word_char_not_ws: "is_word_char c \<Longrightarrow> \<not> is_ws c \<and> c \<noteq> CHR 0x22 \<and> c \<noteq> CHR ''.''"
  by (auto simp: is_word_char_def is_alpha_def is_digit_def is_ws_def char_code_def)

lemma ident_chars: "is_ident s \<Longrightarrow> list_all is_word_char s"
  by (cases s) (auto simp: is_ident_def is_word_char_def)

lemma join_with_chars:
  "c \<in> set (join_with sep ws) \<Longrightarrow> c \<in> set sep \<or> (\<exists>w\<in>set ws. c \<in> set w)"
  by (induction sep ws rule: join_with.induct) auto

lemma path_token:
  assumes "ps \<noteq> []" "list_all is_ident ps"
  shows "is_token (join_with ''.'' ps)"
proof -
  have c: "list_all (\<lambda>c. \<not> is_ws c) (join_with ''.'' ps)"
    unfolding list_all_iff
  proof (intro ballI)
    fix c
    assume "c \<in> set (join_with ''.'' ps)"
    then consider "c = CHR ''.''" | "is_word_char c"
      using join_with_chars [of c "''.''" ps] assms(2) ident_chars by (fastforce simp: list_all_iff)
    then show "\<not> is_ws c" using word_char_not_ws by cases (simp_all add: is_ws_def char_code_def)
  qed
  obtain p qs where ps: "ps = p # qs" using assms(1) by (cases ps) auto
  have p: "p \<noteq> []" "is_word_char (hd p)"
    using assms(2) ps ident_chars by (auto simp: is_ident_def list_all_iff is_word_char_def)
  have "hd (join_with ''.'' ps) = hd p" "join_with ''.'' ps \<noteq> []"
    using p(1) ps by (cases qs; simp)+
  with c p(2) word_char_not_ws show ?thesis by (auto simp: is_token_def)
qed

lemma int_to_string_token: "is_token (int_to_string n)" and int_to_string_nonempty: "int_to_string n \<noteq> []"
proof -
  have c: "is_digit c \<or> c = CHR ''-''" if "c \<in> set (int_to_string n)" for c
    using int_to_string_chars that by blast
  have ne: "nat_digits k \<noteq> []" for k by (simp add: nat_digits.simps [of k])
  then show n: "int_to_string n \<noteq> []" by (simp add: int_to_string_def)
  have "\<not> is_ws c \<and> c \<noteq> CHR 0x22" if "c \<in> set (int_to_string n)" for c
    using c [OF that] by (auto simp: is_digit_def is_ws_def char_code_def)
  then show "is_token (int_to_string n)" using n by (simp add: is_token_def list_all_iff)
qed

lemma value_token:
  assumes "printable_value v"
  shows "is_token (show_value v)"
proof (cases v)
  case (FStr s)
  then show ?thesis by (auto simp: show_value_def is_token_def)
next
  case (FBool b)
  then show ?thesis by (cases b) (simp_all add: show_value_def is_token_def is_ws_def char_code_def)
next
  case (FNum n)
  then show ?thesis using assms int_to_string_token
    by (cases n) (simp_all add: show_value_def printable_value_def)
qed

lemma comparison_tokens_ok: "printable c \<Longrightarrow> list_all is_token (comparison_tokens c)"
  using path_token [of "cm_path c"] value_token [of "cm_value c"]
  by (auto simp: printable_def comparison_tokens_def show_keyword_def is_token_def is_ws_def char_code_def
      split: filter_op.split)

lemma filter_tokens_ok: "list_all printable cs \<Longrightarrow> list_all is_token (filter_tokens cs)"
  by (induction cs rule: filter_tokens.induct)
    (auto simp: comparison_tokens_ok, simp add: is_token_def is_ws_def char_code_def)

subsection \<open>Reading the tokens\<close>

lemma digit_keeps_lower: "is_digit c \<Longrightarrow> to_lower_char c = c"
  by (auto simp: is_digit_def to_lower_char_def Let_def)

lemma takeWhile_all: "list_all P xs \<Longrightarrow> takeWhile P xs = xs \<and> dropWhile P xs = []"
  by (simp add: list_all_iff)

lemma decimal_literal_nat: "decimal_literal (nat_digits n) = Some (of_nat n)"
proof -
  have t: "takeWhile is_digit (nat_digits n) = nat_digits n" "dropWhile is_digit (nat_digits n) = []"
    using nat_digits_digits [of n] by simp_all
  have ne: "nat_digits n \<noteq> []" by (simp add: nat_digits.simps [of n])
  show ?thesis
    unfolding decimal_literal_def Let_def t using ne
    by (simp add: exponent_of_def nat_digits_value pow10_def)
qed

lemma js_trim_id:
  assumes "s \<noteq> []" "\<not> is_ws (hd s)" "\<not> is_ws (last s)"
  shows "js_trim s = s"
proof -
  have "dropWhile is_ws s = s" using assms by (cases s) simp_all
  moreover have "dropWhile is_ws (rev s) = rev s" using assms by (cases "rev s") (auto simp: last_rev hd_rev [symmetric])
  ultimately show ?thesis by (simp add: js_trim_def)
qed

lemma digit_or_minus_not_ws: "is_digit c \<or> c = CHR ''-'' \<Longrightarrow> \<not> is_ws c"
  by (auto simp: is_digit_def is_ws_def char_code_def)

lemma nat_digits_nonempty: "nat_digits n \<noteq> []"
  by (simp add: nat_digits.simps [of n])

lemma no_radix_prefix:
  assumes "\<not> is_digit d"
  shows "\<not> prefix [CHR ''0'', d] (int_to_string n)"
proof
  assume "prefix [CHR ''0'', d] (int_to_string n)"
  then obtain r where r: "int_to_string n = CHR ''0'' # d # r" by (auto simp: prefix_def)
  then have "\<not> n < 0" by (auto simp: int_to_string_def)
  with r nat_digits_digits [of "nat n"] assms show False by (simp add: int_to_string_def)
qed

lemma signed_literal_int:
  assumes "\<bar>n\<bar> < 2 ^ 53"
  shows "signed_literal (int_to_string n) = Fin (of_int n)"
proof -
  have c: "nat_digits k \<noteq> ''Infinity'' \<and> hd (nat_digits k) \<noteq> CHR ''-'' \<and> hd (nat_digits k) \<noteq> CHR ''+''" for k
    using nat_digits_digits [of k] nat_digits_nonempty [of k]
    by (cases "nat_digits k") (auto simp: is_digit_def char_code_def)
  show ?thesis
  proof (cases "n < 0")
    case True
    then have "rat_of_nat (nat (- n)) = of_int (- n)" by simp
    then show ?thesis using True c to_double_small [OF assms]
      by (simp add: int_to_string_def signed_literal_def decimal_literal_nat)
  next
    case False
    obtain d ds where ds: "nat_digits (nat n) = d # ds" using nat_digits_nonempty [of "nat n"] by (cases "nat_digits (nat n)") auto
    then have d: "d \<noteq> CHR ''-''" "d \<noteq> CHR ''+''" "d # ds \<noteq> ''Infinity''" using c [of "nat n"] by auto
    have dl: "decimal_literal (d # ds) = Some (of_int n)"
      using decimal_literal_nat [of "nat n"] False ds by simp
    show ?thesis using False d dl to_double_small [OF assms]
      by (simp add: int_to_string_def signed_literal_def ds)
  qed
qed

lemma Number_int:
  assumes "\<bar>n\<bar> < 2 ^ 53"
  shows "js_Number (int_to_string n) = Fin (of_int n)"
proof -
  have "js_trim (int_to_string n) = int_to_string n"
  proof (rule js_trim_id)
    have c: "\<not> is_ws c" if "c \<in> set (int_to_string n)" for c
      using int_to_string_chars [OF that] by (rule digit_or_minus_not_ws)
    show "\<not> is_ws (hd (int_to_string n))" "\<not> is_ws (last (int_to_string n))"
      by (rule c, simp add: int_to_string_nonempty)+
  qed (rule int_to_string_nonempty)
  moreover have "\<not> is_digit (CHR ''x'')" "\<not> is_digit (CHR ''X'')" "\<not> is_digit (CHR ''o'')"
    "\<not> is_digit (CHR ''O'')" "\<not> is_digit (CHR ''b'')" "\<not> is_digit (CHR ''B'')"
    by (simp_all add: is_digit_def char_code_def)
  ultimately show ?thesis
    using no_radix_prefix int_to_string_nonempty signed_literal_int [OF assms]
    by (simp add: js_Number_def)
qed

lemma int_to_string_hd: "hd (int_to_string n) \<noteq> CHR 0x22 \<and> hd (int_to_string n) \<noteq> CHR ''t'' \<and> hd (int_to_string n) \<noteq> CHR ''f''"
  using int_to_string_chars [of "hd (int_to_string n)" n] int_to_string_nonempty [of n]
  by (auto simp: is_digit_def char_code_def)

lemma parse_show_value:
  assumes "printable_value v"
  shows "parseValue (show_value v) = Inr v"
proof (cases v)
  case (FStr s)
  then show ?thesis
    by (simp add: show_value_def parseValue_def starts_with_def ends_with_def suffix_def unescape_escape butlast_append)
next
  case (FBool b)
  then show ?thesis
    by (cases b) (simp_all add: show_value_def parseValue_def starts_with_def)
next
  case (FNum n)
  then obtain k where n: "n = Fin (of_int k)" "\<bar>k\<bar> < 2 ^ 53"
    using assms by (cases n) (auto simp: printable_value_def)
  obtain c cs where s: "int_to_string k = c # cs" using int_to_string_nonempty by (cases "int_to_string k") auto
  have "c \<noteq> CHR 0x22" "c \<noteq> CHR ''t''" "c \<noteq> CHR ''f''" using int_to_string_hd [of k] s by auto
  then show ?thesis using n FNum s Number_int [OF n(2)]
    by (simp add: show_value_def parseValue_def starts_with_def)
qed

lemma op_lookup_keyword: "op_lookup (to_lower (show_keyword p)) = Some (Own p)"
  by (cases p) (simp_all add: show_keyword_def, code_simp+)

lemma split_join_path:
  assumes "ps \<noteq> []" "list_all is_ident ps"
  shows "split_on (CHR ''.'') (join_with ''.'' ps) = ps"
proof (rule split_on_join [OF assms(1)])
  show "\<forall>w\<in>set ps. CHR ''.'' \<notin> set w"
    using assms(2) ident_chars word_char_not_ws by (fastforce simp: list_all_iff)
qed

lemma parse_clause_comparison_tokens:
  assumes "printable c"
  shows "parse_clause (comparison_tokens c @ r) = Inr (node_of_comparison c, r)"
  using assms split_join_path [of "cm_path c"] parse_show_value [of "cm_value c"]
  by (simp add: printable_def comparison_tokens_def parse_clause_def is_path_def op_lookup_keyword
      node_of_comparison_def)

lemma filter_tokens_Cons:
  "filter_tokens (c # cs) = comparison_tokens c @ (if cs = [] then [] else ''and'' # filter_tokens cs)"
  by (cases cs) simp_all

lemma parse_more_tokens:
  "list_all printable cs \<Longrightarrow>
   parse_more (if cs = [] then [] else ''and'' # filter_tokens cs) = Inr (map node_of_comparison cs)"
proof (induction cs)
  case (Cons c cs)
  moreover have "to_lower ''and'' = ''and''" by code_simp
  ultimately show ?case by (simp add: filter_tokens_Cons parse_clause_comparison_tokens del: filter_tokens.simps)
qed simp

lemma token_ends: "is_token t \<Longrightarrow> t \<noteq> [] \<and> \<not> is_ws (hd t) \<and> \<not> is_ws (last t)"
  by (auto simp: is_token_def list_all_iff)

lemma join_tokens_ends:
  "ts \<noteq> [] \<Longrightarrow> list_all is_token ts \<Longrightarrow>
   join_with '' '' ts \<noteq> [] \<and> \<not> is_ws (hd (join_with '' '' ts)) \<and> \<not> is_ws (last (join_with '' '' ts))"
proof (induction ts rule: induct_list012)
  case (3 t u ts)
  then show ?case using token_ends [of t] by simp
qed (simp_all add: token_ends)

text \<open>C22: Round trip of the grammar: whatever nonempty conjunction of comparisons is printed (any string,
  with its quotes and backslashes escaped, a boolean, or an integer below \<open>2 ^ 53\<close>, under a dotted
  path and any operator), the parser reads back exactly that conjunction.\<close>

theorem filter_roundtrip:
  assumes "cs \<noteq> []" "list_all printable cs"
  shows "parseFilterString (show_filter cs) = Inr (filter_of cs)"
proof -
  obtain d ds where cs: "cs = d # ds" using assms(1) by (cases cs) auto
  have ne: "filter_tokens cs \<noteq> []" by (simp add: cs filter_tokens_Cons comparison_tokens_def del: filter_tokens.simps)
  note ends = join_tokens_ends [OF ne filter_tokens_ok [OF assms(2)]]
  have "parse_clause (filter_tokens cs) = Inr (node_of_comparison d, if ds = [] then [] else ''and'' # filter_tokens ds)"
    using assms(2) by (simp add: cs filter_tokens_Cons parse_clause_comparison_tokens del: filter_tokens.simps)
  moreover have "parse_more (if ds = [] then [] else ''and'' # filter_tokens ds) = Inr (map node_of_comparison ds)"
    using assms(2) by (intro parse_more_tokens) (simp add: cs)
  ultimately show ?thesis
    using ends ne tokenize_join [OF filter_tokens_ok [OF assms(2)]] js_trim_id
    by (simp add: parseFilterString_def show_filter_def filter_of_def cs split: list.split del: filter_tokens.simps)
qed

theorem filter_roundtrip_witness:
  "parseFilterString (''mail.work eq '' @ [CHR 0x22, CHR ''a'', CHR 0x5C, CHR 0x22, CHR 0x22] @ '' and age pr'') =
     Inr (AndNode [Cmp (Own EQ) [''mail'', ''work''] (Some (FStr [CHR ''a'', CHR 0x22])),
                   Cmp (Own EXISTS) [''age''] None])"
proof -
  let ?cs = "[\<lparr> cm_path = [''mail'', ''work''], cm_op = EQ, cm_value = FStr [CHR ''a'', CHR 0x22] \<rparr>,
    \<lparr> cm_path = [''age''], cm_op = EXISTS, cm_value = FBool True \<rparr>]"
  have "parseFilterString (show_filter ?cs) = Inr (filter_of ?cs)"
    by (rule filter_roundtrip) (simp, code_simp)
  moreover have "show_filter ?cs =
    ''mail.work eq '' @ [CHR 0x22, CHR ''a'', CHR 0x5C, CHR 0x22, CHR 0x22] @ '' and age pr''"
    by code_simp
  ultimately show ?thesis by (simp add: filter_of_def node_of_comparison_def)
qed

text \<open>The operator table is a plain object, so the name of a member every object inherits is taken
  for an operator; and a literal whose last quote is escaped is taken for terminated.\<close>

theorem inherited_operator_accepted:
  "parseFilterString (''name constructor '' @ [CHR 0x22, CHR ''x'', CHR 0x22]) =
     Inr (Cmp (Inherited ''constructor'') [''name''] (Some (FStr ''x''))) \<and>
   parseFilterString (''name eq '' @ [CHR 0x22, CHR ''x'', CHR 0x5C, CHR 0x22]) =
     Inr (Cmp (Own EQ) [''name''] (Some (FStr [CHR ''x'', CHR 0x5C])))"
  by code_simp

end
