(* ===== verification/Http_Errors.thy ===== *)
theory Http_Errors
  imports Metrics Admission Resolution Filter_Query
begin

text \<open>
  \<open>src/http/errors.ts\<close>: the mapping of everything a route can throw to a status and a problem body,
  with the texts of the errors this program throws itself. An exception is known by the tests the
  mapping makes of it; a value may pass several, so the order of the tests matters.
\<close>

section \<open>Names on the wire\<close>

fun status_name :: "op_status \<Rightarrow> string" where
  "status_name (Pend PENDING) = ''PENDING''"
| "status_name (Pend RUNNING) = ''RUNNING''"
| "status_name (Pend AWAITING_READBACK) = ''AWAITING_READBACK''"
| "status_name (Outc x) = outcome_name x"

section \<open>Exceptions\<close>

record raised = thrown +
  x_is_error :: bool
  x_admission :: "(int \<times> priority) option"
  x_registration :: bool
  x_filter :: bool
  x_validation :: bool

definition plain_error :: "string \<Rightarrow> raised" where
  "plain_error msg =
     \<lparr> t_connector = None, t_deadline = False, t_message = msg, x_is_error = True, x_admission = None,
       x_registration = False, x_filter = False, x_validation = False \<rparr>"

definition ValidationError :: "string \<Rightarrow> raised" where
  "ValidationError msg = (plain_error msg)\<lparr>x_validation := True\<rparr>"

definition FilterSyntaxError :: "string \<Rightarrow> raised" where
  "FilterSyntaxError msg = (plain_error msg)\<lparr>x_filter := True\<rparr>"

definition ApplicationRegistrationError :: "string \<Rightarrow> string \<Rightarrow> raised" where
  "ApplicationRegistrationError i msg =
     (plain_error (''application '' @ i @ '': '' @ msg))\<lparr>x_registration := True\<rparr>"

definition quote1 :: "string \<Rightarrow> string" where
  "quote1 s = [CHR 0x27] @ s @ [CHR 0x27]"

definition AdmissionRejectedError :: "string \<Rightarrow> priority \<Rightarrow> int \<Rightarrow> int \<Rightarrow> raised" where
  "AdmissionRejectedError i p depth cap =
     (plain_error
       (''Backlog for instance '' @ quote1 i @ '' ('' @ priority_name p @ '') is at '' @
        int_to_string depth @ '', at or above its cap of '' @ int_to_string cap @
        ''. Retry after the backlog drains.''))
     \<lparr>x_admission := Some (depth, p)\<rparr>"

fun lane_error_text :: "lane_error \<Rightarrow> string" where
  "lane_error_text (MissingName oc) =
     ''CREATE on '' @ quote1 oc @ '' requires a naming attribute value to build its lane key''"
| "lane_error_text (MissingUid t oc) =
     op_type_name t @ '' on '' @ quote1 oc @ '' requires a uid to build its lane key''"

text \<open>The database's own texts are the argument.\<close>

fun admit_raised :: "(db_error \<Rightarrow> string) \<Rightarrow> admit_error \<Rightarrow> raised" where
  "admit_raised db (AdmissionRejected i p depth cap) = AdmissionRejectedError i p depth cap"
| "admit_raised db (NoLane e) = plain_error (lane_error_text e)"
| "admit_raised db (StoreThrew e) = plain_error (db e)"

section \<open>Filter errors\<close>

fun filter_message :: "filter_error \<Rightarrow> string" where
  "filter_message EmptyFilter = ''filter must not be empty''"
| "filter_message (ExpectedAnd j) =
     ''expected '' @ [CHR 0x22] @ ''and'' @ [CHR 0x22] @ '' between clauses, got: '' @ j @
     '' (or, not, and parentheses are not supported)''"
| "filter_message ExpectedPath = ''expected an attribute path''"
| "filter_message (InvalidPath p) = ''invalid attribute path: '' @ p"
| "filter_message (ExpectedOp p) = ''expected an operator after '' @ p"
| "filter_message (Filter_Query.UnknownOp k) =
     ''unknown operator: '' @ k @ '' (expected one of '' @ join_with '', '' (map fst OP_KEYWORDS) @ '')''"
| "filter_message (ExpectedValue k) = ''expected a value after '' @ k"
| "filter_message (UnterminatedString t) = ''unterminated string literal: '' @ t"
| "filter_message (BadValue t) = ''expected a quoted string, number, or boolean, got: '' @ t"
| "filter_message NoClause = ''filter must have at least one clause''"

section \<open>The mapping\<close>

record mapped_error =
  me_status :: nat
  me_body :: json

fun CONNECTOR_ERROR_STATUS :: "conn_code \<Rightarrow> nat" where
  "CONNECTOR_ERROR_STATUS UNKNOWN_UID = 404"
| "CONNECTOR_ERROR_STATUS INVALID_ATTRIBUTE = 400"
| "CONNECTOR_ERROR_STATUS ALREADY_EXISTS = 409"
| "CONNECTOR_ERROR_STATUS PERMISSION_DENIED = 403"
| "CONNECTOR_ERROR_STATUS CONNECTION_FAILED = 502"
| "CONNECTOR_ERROR_STATUS RATE_LIMIT_TARGET = 429"
| "CONNECTOR_ERROR_STATUS UNKNOWN = 500"

definition problem :: "string \<Rightarrow> string \<Rightarrow> json" where
  "problem code msg = JObj [(''error'', JStr code), (''message'', JStr msg)]"

definition admissionProblem :: "string \<Rightarrow> int \<Rightarrow> priority \<Rightarrow> json" where
  "admissionProblem msg depth p =
     JObj [(''error'', JStr ''admission_rejected''), (''message'', JStr msg),
           (''backlogDepth'', JNum (Fin (of_int depth))), (''priority'', JStr (priority_name p))]"

definition isUnregisteredInstance :: "raised \<Rightarrow> bool" where
  "isUnregisteredInstance e = str_includes (t_message e) ''is not registered''"

definition isUnsupportedOp :: "raised \<Rightarrow> bool" where
  "isUnsupportedOp e = ends_with (t_message e) ''not supported''"

definition mapError :: "raised \<Rightarrow> mapped_error" where
  "mapError e =
     (case x_admission e of
        Some (depth, p) \<Rightarrow> \<lparr> me_status = 429, me_body = admissionProblem (t_message e) depth p \<rparr>
      | None \<Rightarrow>
          if x_registration e
          then \<lparr> me_status = 400, me_body = problem ''invalid_application'' (t_message e) \<rparr>
          else if x_filter e
          then \<lparr> me_status = 400, me_body = problem ''invalid_filter'' (t_message e) \<rparr>
          else if x_validation e
          then \<lparr> me_status = 400, me_body = problem ''validation_failed'' (t_message e) \<rparr>
          else
            (case t_connector e of
               Some (code, _) \<Rightarrow>
                 \<lparr> me_status = CONNECTOR_ERROR_STATUS code,
                   me_body = problem (to_lower (code_name code)) (t_message e) \<rparr>
             | None \<Rightarrow>
                 if t_deadline e
                 then \<lparr> me_status = 504, me_body = problem ''deadline_expired'' (t_message e) \<rparr>
                 else if x_is_error e \<and> (isUnregisteredInstance e \<or> isUnsupportedOp e)
                 then \<lparr> me_status = 404, me_body = problem ''not_found'' (t_message e) \<rparr>
                 else if x_is_error e \<and> str_includes (t_message e) ''is shutting down''
                 then \<lparr> me_status = 503, me_body = problem ''unavailable'' (t_message e) \<rparr>
                 else \<lparr> me_status = 500,
                        me_body = problem ''internal_error'' ''An internal error occurred'' \<rparr>))"

section \<open>What a caller sees\<close>

text \<open>The text of an exception the program does not know, a database error for example, is not part of
  any answer.\<close>

definition unknown_error :: "raised \<Rightarrow> bool" where
  "unknown_error e =
     (x_admission e = None \<and> \<not> x_registration e \<and> \<not> x_filter e \<and> \<not> x_validation e \<and>
      t_connector e = None \<and> \<not> t_deadline e \<and>
      \<not> (x_is_error e \<and> (isUnregisteredInstance e \<or> isUnsupportedOp e \<or>
                           str_includes (t_message e) ''is shutting down'')))"

lemma mapError_unknown:
  "unknown_error e \<Longrightarrow> mapError e =
     \<lparr> me_status = 500, me_body = problem ''internal_error'' ''An internal error occurred'' \<rparr>"
  by (auto simp: unknown_error_def mapError_def)

lemma mapError_status:
  "me_status (mapError e) \<in> {400, 403, 404, 409, 429, 500, 502, 503, 504}"
proof -
  have "CONNECTOR_ERROR_STATUS c \<in> {400, 403, 404, 409, 429, 500, 502}" for c by (cases c) simp_all
  then show ?thesis by (auto simp: mapError_def split: option.split)
qed

lemma own_errors_status:
  "me_status (mapError (ValidationError m)) = 400" "me_status (mapError (FilterSyntaxError m)) = 400"
  "me_status (mapError (ApplicationRegistrationError i m)) = 400"
  "me_status (mapError (AdmissionRejectedError i p d c)) = 429"
  by (simp_all add: mapError_def ValidationError_def FilterSyntaxError_def ApplicationRegistrationError_def
      AdmissionRejectedError_def plain_error_def)

end
