(* ===== verification/Store_Api.thy ===== *)
theory Store_Api
  imports Op_Types
begin

text \<open>
  The contract \<open>OperationStoreApi\<close> as the claim loop relies on it. \<open>lifecycle\<close> is the abstract
  state machine of one operation. \<open>claim_store\<close> states what a claim promises about the slots it
  fills; \<open>operation_store\<close> extends it by the operations that move a status. The lemmas are what a
  client of the interface may conclude without knowing the store.
\<close>

section \<open>The life of an operation\<close>

inductive lifecycle :: "op_status \<Rightarrow> op_status \<Rightarrow> bool" where
  claim_pending: "lifecycle (Pend PENDING) (Pend RUNNING)"
| claim_due: "lifecycle (Pend AWAITING_READBACK) (Pend RUNNING)"
| give_back: "lifecycle (Pend RUNNING) (Pend PENDING)"
| park: "lifecycle (Pend RUNNING) (Pend AWAITING_READBACK)"
| conclude: "lifecycle (Pend p) (Outc x)"

inductive_simps lifecycle_from_terminal: "lifecycle (Outc x) b"
inductive_simps lifecycle_to_running: "lifecycle a (Pend RUNNING)"
inductive_simps lifecycle_to_parked: "lifecycle a (Pend AWAITING_READBACK)"
inductive_simps lifecycle_to_terminal: "lifecycle a (Outc x)"
inductive_cases lifecycleE: "lifecycle a b"

lemma lifecycle_star_terminal: "lifecycle\<^sup>*\<^sup>* (Outc x) b \<Longrightarrow> b = Outc x"
proof (induction rule: rtranclp_induct)
  case (step b c)
  then show ?case by (simp add: lifecycle_from_terminal)
qed simp

section \<open>Claiming\<close>

definition claims_of :: "string \<Rightarrow> claimed_op list \<Rightarrow> int" where
  "claims_of i cs = int (length (filter (\<lambda>c. c_instance_id c = i) cs))"

definition batch_claims_of :: "string \<Rightarrow> claimed_op list \<Rightarrow> int" where
  "batch_claims_of i cs =
     int (length (filter (\<lambda>c. c_instance_id c = i \<and> c_priority c = Batch) cs))"

lemma claims_of_append [simp]:
  "claims_of i (cs @ ds) = claims_of i cs + claims_of i ds"
  "batch_claims_of i (cs @ ds) = batch_claims_of i cs + batch_claims_of i ds"
  "claims_of i [] = 0" "batch_claims_of i [] = 0" "0 \<le> claims_of i cs" "0 \<le> batch_claims_of i cs"
  by (simp_all add: claims_of_def batch_claims_of_def)

lemma claims_of_Cons:
  "claims_of i (c # cs) = (if c_instance_id c = i then 1 else 0) + claims_of i cs"
  "batch_claims_of i (c # cs) =
     (if c_instance_id c = i \<and> c_priority c = Batch then 1 else 0) + batch_claims_of i cs"
  by (simp_all add: claims_of_def batch_claims_of_def)

locale claim_store =
  fixes inv :: "'s \<Rightarrow> bool"
    and claim :: "'e \<Rightarrow> int \<Rightarrow> string list \<Rightarrow> (string \<times> availability) list \<Rightarrow> 's
                    \<Rightarrow> claimed_op list \<times> 's"
  assumes claim_keeps: "inv s \<Longrightarrow> inv (snd (claim e l act av s))"
    and claim_total: "inv s \<Longrightarrow> distinct (map fst av) \<Longrightarrow> map_of av i = Some a \<Longrightarrow>
        claims_of i (fst (claim e l act av s)) \<le> max 0 (totalFree a)"
    and claim_batch: "inv s \<Longrightarrow> distinct (map fst av) \<Longrightarrow> map_of av i = Some a \<Longrightarrow>
        batch_claims_of i (fst (claim e l act av s)) \<le> max 0 (batchFree a)"
    and claim_known: "inv s \<Longrightarrow> c \<in> set (fst (claim e l act av s)) \<Longrightarrow>
        c_instance_id c \<in> set (map fst av)"
    and claim_lanes: "inv s \<Longrightarrow>
        distinct (map (\<lambda>c. (c_instance_id c, c_lane_key c)) (fst (claim e l act av s)))"
    and claim_excluded: "inv s \<Longrightarrow> c \<in> set (fst (claim e l act av s)) \<Longrightarrow> c_lane_key c \<notin> set act"
begin

text \<open>An availability that leaves every instance within its budgets is filled within them.\<close>

lemma claim_unknown:
  assumes "inv s" "map_of av i = None"
  shows "claims_of i (fst (claim e l act av s)) = 0" "batch_claims_of i (fst (claim e l act av s)) = 0"
proof -
  have "i \<notin> set (map fst av)" using assms(2) by (simp add: map_of_eq_None_iff)
  then have "\<forall>c\<in>set (fst (claim e l act av s)). c_instance_id c \<noteq> i"
    using claim_known [OF assms(1)] by blast
  then have "filter (\<lambda>c. c_instance_id c = i) (fst (claim e l act av s)) = []"
    "filter (\<lambda>c. c_instance_id c = i \<and> c_priority c = Batch) (fst (claim e l act av s)) = []"
    by (auto simp: filter_empty_conv)
  then show "claims_of i (fst (claim e l act av s)) = 0" "batch_claims_of i (fst (claim e l act av s)) = 0"
    by (simp_all add: claims_of_def batch_claims_of_def)
qed

lemma claim_within_budget:
  assumes "inv s" "distinct (map fst av)" "busy i \<le> budget i"
    and "\<And>a. map_of av i = Some a \<Longrightarrow> busy i + totalFree a \<le> budget i"
  shows "busy i + claims_of i (fst (claim e l act av s)) \<le> budget i"
proof (cases "map_of av i")
  case None
  then show ?thesis using claim_unknown(1) [OF assms(1) None] assms(3) by simp
next
  case (Some a)
  then show ?thesis using claim_total [OF assms(1,2) Some, of e l act] assms(3,4) by fastforce
qed

lemma claim_within_batch_budget:
  assumes "inv s" "distinct (map fst av)" "busy i \<le> budget i"
    and "\<And>a. map_of av i = Some a \<Longrightarrow> busy i + batchFree a \<le> budget i"
  shows "busy i + batch_claims_of i (fst (claim e l act av s)) \<le> budget i"
proof (cases "map_of av i")
  case None
  then show ?thesis using claim_unknown(2) [OF assms(1) None] assms(3) by simp
next
  case (Some a)
  then show ?thesis using claim_batch [OF assms(1,2) Some, of e l act] assms(3,4) by fastforce
qed

end

section \<open>Moving a status\<close>

locale operation_store = claim_store inv claim
  for inv :: "'s \<Rightarrow> bool"
    and claim :: "'e \<Rightarrow> int \<Rightarrow> string list \<Rightarrow> (string \<times> availability) list \<Rightarrow> 's
                    \<Rightarrow> claimed_op list \<times> 's" +
  fixes status :: "'s \<Rightarrow> string \<Rightarrow> op_status option"
    and finish :: "int \<Rightarrow> string \<Rightarrow> outcome \<Rightarrow> json option \<Rightarrow> string option \<Rightarrow> 's \<Rightarrow> bool \<times> 's"
    and give_up :: "string \<Rightarrow> 's \<Rightarrow> bool \<times> 's"
    and park :: "string \<Rightarrow> int \<Rightarrow> 's \<Rightarrow> bool \<times> 's"
    and reap :: "int \<Rightarrow> bool \<Rightarrow> int \<Rightarrow> int \<Rightarrow> 's \<Rightarrow> reap_result \<times> 's"
  assumes finish_keeps: "inv s \<Longrightarrow> inv (snd (finish n i x v e s))"
    and give_up_keeps: "inv s \<Longrightarrow> inv (snd (give_up i s))"
    and park_keeps: "inv s \<Longrightarrow> inv (snd (park i t s))"
    and reap_keeps: "inv s \<Longrightarrow> inv (snd (reap n b th d s))"
    and claim_lifecycle: "inv s \<Longrightarrow> status s j = Some a \<Longrightarrow>
        \<exists>b. status (snd (claim env l act av s)) j = Some b \<and> lifecycle\<^sup>*\<^sup>* a b"
    and finish_lifecycle: "inv s \<Longrightarrow> status s j = Some a \<Longrightarrow>
        \<exists>b. status (snd (finish n i x v e s)) j = Some b \<and> lifecycle\<^sup>*\<^sup>* a b"
    and give_up_lifecycle: "inv s \<Longrightarrow> status s j = Some a \<Longrightarrow>
        \<exists>b. status (snd (give_up i s)) j = Some b \<and> lifecycle\<^sup>*\<^sup>* a b"
    and park_lifecycle: "inv s \<Longrightarrow> status s j = Some a \<Longrightarrow>
        \<exists>b. status (snd (park i t s)) j = Some b \<and> lifecycle\<^sup>*\<^sup>* a b"
    and reap_lifecycle: "inv s \<Longrightarrow> status s j = Some a \<Longrightarrow>
        \<exists>b. status (snd (reap n b' th d s)) j = Some b \<and> lifecycle\<^sup>*\<^sup>* a b"
    and finish_answer: "inv s \<Longrightarrow> fst (finish n i x v e s) \<Longrightarrow>
        status (snd (finish n i x v e s)) i = Some (Outc x)"
    and finish_refused: "inv s \<Longrightarrow> \<not> fst (finish n i x v e s) \<Longrightarrow> snd (finish n i x v e s) = s"
    and finish_live: "inv s \<Longrightarrow> status s i = Some (Pend p) \<Longrightarrow> fst (finish n i x v e s)"
begin

text \<open>The first answer wins: whatever finalizations follow, for this id or others, the outcome a
  caller has been told stays.\<close>

fun finish_all ::
  "(int \<times> string \<times> outcome \<times> json option \<times> string option) list \<Rightarrow> 's \<Rightarrow> 's" where
  "finish_all [] s = s"
| "finish_all ((n, i, x, v, e) # fs) s = finish_all fs (snd (finish n i x v e s))"

lemma finish_all_stable:
  "inv s \<Longrightarrow> status s j = Some (Outc y) \<Longrightarrow> status (finish_all fs s) j = Some (Outc y)"
proof (induction fs s rule: finish_all.induct)
  case (2 n i x v e fs s)
  from finish_lifecycle [OF "2.prems"] have "status (snd (finish n i x v e s)) j = Some (Outc y)"
    using lifecycle_star_terminal by blast
  with "2.IH" finish_keeps [OF "2.prems"(1)] show ?case by simp
qed simp

lemma first_answer_wins:
  assumes "inv s" "status s i = Some (Pend p)"
  shows "status (finish_all fs (snd (finish n i x v e s))) i = Some (Outc x)"
proof -
  have "fst (finish n i x v e s)" using assms by (rule finish_live)
  then have "status (snd (finish n i x v e s)) i = Some (Outc x)" by (rule finish_answer [OF assms(1)])
  then show ?thesis by (rule finish_all_stable [OF finish_keeps [OF assms(1)]])
qed

end

end
