(* ===== verification/Store_Contract.thy ===== *)
theory Store_Contract
  imports Claim_Protocol Store_Api
begin

text \<open>
  The operation table keeps the contract of \<open>Store_Api\<close>: every operation moves every operation's
  visible status along \<open>lifecycle\<close> only, terminal statuses never change, a finalize answers true
  exactly when it set the outcome, and \<open>getStatus\<close> reports it. The two interfaces are interpreted
  on the model of the SQL here.
\<close>

section \<open>The visible status\<close>

definition status_at :: "op_store \<Rightarrow> string \<Rightarrow> op_status option" where
  "status_at s i = map_option s_status (getStatus i s)"

lemma status_at_row:
  assumes "store_inv s" "isOperationId i" "r \<in> set (rows s)" "has_id i r"
  shows "status_at s i = Some (r_status r)"
  using find_has_id_iff [OF assms(1,3,4)] assms(2)
  by (simp add: status_at_def getStatus_def status_of_row_def)

lemma status_at_no_row:
  assumes "isOperationId i" "\<forall>r\<in>set (rows s). \<not> has_id i r"
  shows "status_at s i = map_option h_status (List.find (\<lambda>h. h_id h = uuid_of i) (history s))"
proof -
  have "List.find (has_id i) (rows s) = None" using assms(2) by (simp add: find_None)
  with assms(1) show ?thesis
    by (cases "List.find (\<lambda>h. h_id h = uuid_of i) (history s)")
      (simp_all add: status_at_def getStatus_def status_of_history_def)
qed

lemma status_at_bad_id: "\<not> isOperationId i \<Longrightarrow> status_at s i = None"
  by (simp add: status_at_def getStatus_def)

lemma status_at_cases:
  assumes "store_inv s" "status_at s i = Some a"
  obtains (row) r where "isOperationId i" "r \<in> set (rows s)" "has_id i r" "a = r_status r"
  | (history) h where "isOperationId i" "\<forall>r\<in>set (rows s). \<not> has_id i r" "h \<in> set (history s)"
      "h_id h = uuid_of i" "a = h_status h"
proof -
  have i: "isOperationId i" using assms(2) status_at_bad_id by fastforce
  show ?thesis
  proof (cases "\<exists>r\<in>set (rows s). has_id i r")
    case True
    then show ?thesis using row i assms status_at_row by fastforce
  next
    case False
    then show ?thesis
      using history i assms(2) find_Some_mem [of "\<lambda>h. h_id h = uuid_of i" "history s"]
      by (auto simp: status_at_no_row)
  qed
qed

lemma status_at_history:
  assumes inv: "store_inv s" and i: "isOperationId i" and no: "\<forall>r\<in>set (rows s). \<not> has_id i r"
    and h: "h \<in> set (history s)" "h_id h = uuid_of i"
  shows "status_at s i = Some (h_status h)"
proof -
  have "distinct (map h_id (history s))" using inv_history [OF inv] by (simp add: history_ok_def)
  from find_key_Some [OF this h(1)] show ?thesis using h(2) by (simp add: status_at_no_row [OF i no])
qed

section \<open>Updates move statuses along the lifecycle\<close>

lemma has_id_keeps: "keeps_identity f \<Longrightarrow> has_id i (f r) = has_id i r"
  by (simp add: has_id_def keeps_identity_def)

lemma status_update_where:
  assumes inv: "store_inv s" "store_inv (update_where P f s)" and id: "keeps_identity f"
    and move: "\<And>r. r \<in> set (rows s) \<Longrightarrow> P r \<Longrightarrow> lifecycle (r_status r) (r_status (f r))"
    and st: "status_at s i = Some a"
  shows "\<exists>b. status_at (update_where P f s) i = Some b \<and> lifecycle\<^sup>*\<^sup>* a b"
  using inv(1) st
proof (cases rule: status_at_cases)
  case (row r)
  let ?q = "if P r then f r else r"
  have "?q \<in> set (rows (update_where P f s))" "has_id i ?q"
    using row has_id_keeps [OF id] by (auto simp: mem_rows_update)
  then have "status_at (update_where P f s) i = Some (r_status ?q)"
    using status_at_row [OF inv(2) row(1)] by blast
  moreover have "lifecycle\<^sup>*\<^sup>* a (r_status ?q)" using row move by auto
  ultimately show ?thesis by blast
next
  case (history h)
  then have "\<forall>r\<in>set (rows (update_where P f s)). \<not> has_id i r"
    using has_id_keeps [OF id] by (auto simp: mem_rows_update split: if_splits)
  then have "status_at (update_where P f s) i = Some (h_status h)"
    using history by (intro status_at_history [OF inv(2)]) (simp_all add: rows_update_where)
  then show ?thesis using history(5) by blast
qed

lemma requeue_lifecycle:
  assumes "store_inv s" "status_at s j = Some a"
  shows "\<exists>b. status_at (snd (requeue i s)) j = Some b \<and> lifecycle\<^sup>*\<^sup>* a b"
proof (cases "isOperationId i")
  case True
  then show ?thesis
    using assms requeue_inv [OF assms(1), of i]
    by (auto simp: requeue_def Let_def keeps_identity_def is_running_def
        intro!: status_update_where lifecycle.intros)
qed (use assms in \<open>auto simp: requeue_def\<close>)

lemma deferForReadback_lifecycle:
  assumes "store_inv s" "status_at s j = Some a"
  shows "\<exists>b. status_at (snd (deferForReadback i t s)) j = Some b \<and> lifecycle\<^sup>*\<^sup>* a b"
proof (cases "isOperationId i")
  case True
  then show ?thesis
    using assms deferForReadback_inv [OF assms(1), of i t]
    by (auto simp: deferForReadback_def Let_def keeps_identity_def is_running_def
        intro!: status_update_where lifecycle.intros)
qed (use assms in \<open>auto simp: deferForReadback_def\<close>)

lemma reapStale_lifecycle:
  assumes "store_inv s" "status_at s j = Some a"
  shows "\<exists>b. status_at (snd (reapStale now acq th d s)) j = Some b \<and> lifecycle\<^sup>*\<^sup>* a b"
proof (cases acq)
  case True
  let ?s1 = "reap_creates now th d s"
  have i1: "store_inv ?s1" by (rule reap_creates_inv [OF assms(1)])
  have "\<exists>b. status_at ?s1 j = Some b \<and> lifecycle\<^sup>*\<^sup>* a b"
    using assms i1 unfolding reap_creates_def
    by (auto simp: keeps_identity_def is_running_def stale_create_def stale_def
        intro!: status_update_where lifecycle.intros)
  then obtain b where b: "status_at ?s1 j = Some b" "lifecycle\<^sup>*\<^sup>* a b" by blast
  have "\<exists>c. status_at (reap_others now th ?s1) j = Some c \<and> lifecycle\<^sup>*\<^sup>* b c"
    using b(1) i1 reap_others_inv [OF i1, of now th] unfolding reap_others_def
    by (auto simp: keeps_identity_def is_running_def stale_other_def stale_def
        intro!: status_update_where lifecycle.intros)
  with b(2) True show ?thesis by (auto simp: reapStale_def Let_def intro: rtranclp_trans)
qed (use assms in \<open>auto simp: reapStale_def\<close>)

lemma claim_lifecycle:
  assumes "store_inv s" "status_at s j = Some a"
  shows "\<exists>b. status_at (snd (claimBatch now held l act av s)) j = Some b \<and> lifecycle\<^sup>*\<^sup>* a b"
proof (cases "caps_of_availability av = [] \<or> l \<le> 0")
  case False
  let ?ps = "picked now l act (caps_of_availability av) (rows s)"
  have inv: "store_inv (update_where (locked held ?ps) (mark_running now) s)"
    using claim_commit_inv [OF assms(1) refl] by (simp add: claim_commit_def)
  have "lifecycle (r_status r) (r_status (mark_running now r))" if l: "locked held ?ps r" for r
  proof -
    obtain p where p: "r_status r = Pend p" "p \<noteq> RUNNING"
      using l by (auto simp: locked_def not_terminal_iff)
    then show ?thesis by (cases p) (simp_all add: lifecycle_to_running)
  qed
  then show ?thesis
    using status_update_where [OF assms(1) inv _ _ assms(2)] False
    by (simp add: claimBatch_def claim_commit_def Let_def)
qed (use assms in \<open>auto simp: claimBatch_def\<close>)

section \<open>finalize\<close>

lemma status_at_finalized:
  assumes inv: "store_inv s" and r: "r \<in> set (rows s)" "\<not> terminal (r_status r)"
    and st: "status_at s j = Some a"
  shows "status_at (finalized_store now x v e r s) j = Some (if has_id j r then Outc x else a)"
  using inv st
proof (cases rule: status_at_cases)
  case (row q)
  let ?g = "\<lambda>q. if q = r then finalize_row now x v e r else q"
  have inv': "store_inv (finalized_store now x v e r s)" by (rule finalized_store_inv [OF inv r])
  have "?g q \<in> set (rows (finalized_store now x v e r s))"
    using row(2) by (auto simp: finalized_store_def)
  moreover have "has_id j (?g q)" using row(3) by (auto simp: has_id_def)
  ultimately have "status_at (finalized_store now x v e r s) j = Some (r_status (?g q))"
    using status_at_row [OF inv' row(1)] by blast
  moreover have "has_id j r \<longleftrightarrow> q = r"
    using inv_same_id [OF inv row(2) r(1)] row(3) by (auto simp: has_id_def)
  ultimately show ?thesis using row(4) by auto
next
  case (history h)
  have inv': "store_inv (finalized_store now x v e r s)" by (rule finalized_store_inv [OF inv r])
  have "\<forall>q\<in>set (rows (finalized_store now x v e r s)). \<not> has_id j q"
    using history(2) r(1) by (auto simp: finalized_store_def has_id_def)
  moreover have "h \<in> set (op_store.history (finalized_store now x v e r s))"
    using history(3) by (simp add: finalized_store_def)
  ultimately have "status_at (finalized_store now x v e r s) j = Some (h_status h)"
    using status_at_history [OF inv' history(1)] history(4) by blast
  then show ?thesis using history(2,5) r(1) by auto
qed

lemma finalize_lifecycle:
  assumes "store_inv s" "status_at s j = Some a"
  shows "\<exists>b. status_at (snd (finalize now i x v e s)) j = Some b \<and> lifecycle\<^sup>*\<^sup>* a b"
  using assms(1)
proof (cases rule: finalize_dichotomy [where i = i and now = now and out = x and res = v and err = e])
  case (live r)
  have "lifecycle\<^sup>*\<^sup>* a (if has_id j r then Outc x else a)"
  proof (cases "has_id j r")
    case True
    have "isOperationId j" using assms(2) status_at_bad_id by fastforce
    then have "a = r_status r" using status_at_row [OF assms(1) _ live(1) True] assms(2) by simp
    with live(3) True show ?thesis by (auto simp: not_terminal_iff intro!: r_into_rtranclp lifecycle.conclude)
  qed simp
  with status_at_finalized [OF assms(1) live(1,3) assms(2)] live(5) show ?thesis by simp
qed (use assms in simp)

lemma finalize_answer:
  assumes "store_inv s" "fst (finalize now i x v e s)"
  shows "status_at (snd (finalize now i x v e s)) i = Some (Outc x)"
  using assms(1)
proof (cases rule: finalize_dichotomy [where i = i and now = now and out = x and res = v and err = e])
  case (live r)
  have "status_at s i = Some (r_status r)" by (rule status_at_row [OF assms(1) live(4,1,2)])
  from status_at_finalized [OF assms(1) live(1,3) this] live(2,5) show ?thesis by simp
qed (use assms in simp)

lemma finalize_refused:
  "store_inv s \<Longrightarrow> \<not> fst (finalize now i x v e s) \<Longrightarrow> snd (finalize now i x v e s) = s"
  by (cases rule: finalize_dichotomy [of s i now x v e]) simp_all

lemma finalize_live_status:
  assumes "store_inv s" "status_at s i = Some (Pend p)"
  shows "fst (finalize now i x v e s)"
  using assms
proof (cases rule: status_at_cases)
  case (row r)
  then show ?thesis using finalize_live [OF assms(1) row(2,3) _ row(1)] by (metis fst_conv terminal_simps(2))
next
  case (history h)
  then have "terminal (h_status h)" using inv_history [OF assms(1)] by (simp add: history_ok_def)
  with history(5) show ?thesis by (metis terminal_simps(2))
qed

section \<open>The model of the SQL keeps the contracts\<close>

interpretation sql: operation_store store_inv
  "\<lambda>(now, held). claimBatch now held" status_at finalize requeue deferForReadback reapStale
proof unfold_locales
  fix s :: op_store and e :: "int \<times> string list" and l act av i a c
  obtain now held where e: "e = (now, held)" by (cases e)
  note [simp] = e
  assume inv: "store_inv s"
  show "store_inv (snd ((case e of (now, held) \<Rightarrow> claimBatch now held) l act av s))"
    using claimBatch_inv [OF inv] by simp
  show "distinct (map (\<lambda>c. (c_instance_id c, c_lane_key c))
          (fst ((case e of (now, held) \<Rightarrow> claimBatch now held) l act av s)))"
    using claim_lanes_distinct [OF inv] by simp
  { assume "distinct (map fst av)" "map_of av i = Some a"
    then show "claims_of i (fst ((case e of (now, held) \<Rightarrow> claimBatch now held) l act av s))
        \<le> max 0 (totalFree a)"
      "batch_claims_of i (fst ((case e of (now, held) \<Rightarrow> claimBatch now held) l act av s))
        \<le> max 0 (batchFree a)"
      using claim_total_bound [OF inv] claim_batch_bound [OF inv]
      by (simp_all add: claims_of_def batch_claims_of_def) }
  { assume "c \<in> set (fst ((case e of (now, held) \<Rightarrow> claimBatch now held) l act av s))"
    then show "c_instance_id c \<in> set (map fst av)" "c_lane_key c \<notin> set act"
      using claim_member [OF inv] by auto }
next
  fix s :: op_store and j a env l act av
  assume "store_inv s" "status_at s j = Some a"
  then show "\<exists>b. status_at (snd ((case env of (now, held) \<Rightarrow> claimBatch now held) l act av s)) j = Some b
      \<and> lifecycle\<^sup>*\<^sup>* a b"
    using claim_lifecycle by (cases env) simp
qed (rule finalize_inv requeue_inv deferForReadback_inv reapStale_inv finalize_lifecycle
    requeue_lifecycle deferForReadback_lifecycle reapStale_lifecycle finalize_answer finalize_refused
    finalize_live_status; assumption)+

end
