(* ===== verification/Http_Routes.thy ===== *)
theory Http_Routes
  imports Http_Errors Store_Contract
begin

text \<open>
  The HTTP surface: \<open>src/http/objectsRoutes.ts\<close>, \<open>operationsRoutes.ts\<close>, \<open>healthRoutes.ts\<close> and the order
  in which \<open>app.ts\<close> mounts them. Express itself is third-party: a request is given as what it hands to
  the program, the path as decoded segments, the body as \<open>express.json\<close> parsed it or the error it
  raised. A handler runs against the operation table and answers a response with the effects it had,
  in order; a handler still waiting has no response.
\<close>

section \<open>Requests and responses\<close>

datatype http_method = GET | POST | PUT | DELETE_M | OTHER_METHOD

record request =
  rq_method :: http_method
  rq_path :: "string list"
  rq_idempotency_key :: "string option"
  rq_authorization :: "string option"
  rq_filter :: jsval
  rq_body :: "raised + jsval"

datatype content = Json json | Ndjson "string list" | NoContent

record response =
  rp_status :: nat
  rp_type :: "string option"
  rp_content :: content

definition json_response :: "nat \<Rightarrow> json \<Rightarrow> response" where
  "json_response n j = \<lparr> rp_status = n, rp_type = Some ''application/json'', rp_content = Json j \<rparr>"

text \<open>Effects on the rest of the process: the registrar, the lease counters of the connector manager,
  the facade, and the console.\<close>

datatype effect =
    Ensured string
  | Acquired string
  | Released string
  | Called string facade_call
  | Looked string string string
  | Searched string string "filter_node option"
  | Pinged
  | Logged raised

text \<open>What the connector does in a search: the objects it produces, in order, and the error that ends
  it, if any. What the socket does while one object is written: whether the client is gone or the
  response ended before, whether the buffer took the chunk, whether it drained, and the two again
  after. The sink's answers are given per object; past the end of the list nothing disturbs.\<close>

record sink_event =
  sk_stopped_before :: bool
  sk_taken :: bool
  sk_drains :: bool
  sk_stopped_after :: bool

record http_env =
  ev_ensure :: "string \<Rightarrow> raised option"
  ev_acquire :: "string \<Rightarrow> raised + facade"
  ev_get :: "string \<Rightarrow> string \<Rightarrow> string \<Rightarrow> raised + jsval"
  ev_search :: "string \<Rightarrow> string \<Rightarrow> filter_node option \<Rightarrow> json list \<times> raised option"
  ev_sink :: "sink_event list"
  ev_ping :: "raised option"
  ev_status_fault :: "raised option"
  ev_stringify :: "json \<Rightarrow> string"
  ev_uuid :: string
  ev_now :: int
  ev_new_id :: string
  ev_db_text :: "db_error \<Rightarrow> string"
  ev_counts :: "string \<Rightarrow> db_error + pending_counts"
  ev_caps :: admission_caps

text \<open>What a handler leaves: \<open>next(err)\<close>, a response, or nothing yet.\<close>

datatype handled = Next raised | Done response | Waiting

section \<open>The parts of a mutation request\<close>

definition idempotencyKeyOf :: "http_env \<Rightarrow> request \<Rightarrow> string" where
  "idempotencyKeyOf env rq =
     (case rq_idempotency_key rq of
        Some h \<Rightarrow> if h \<noteq> [] \<and> js_trim h \<noteq> [] then js_trim h else ev_uuid env
      | None \<Rightarrow> ev_uuid env)"

definition quote2 :: "string \<Rightarrow> string" where
  "quote2 t = [CHR 0x22] @ t @ [CHR 0x22]"

definition bad_priority :: "string \<Rightarrow> raised" where
  "bad_priority raw =
     ValidationError (''priority must be '' @ quote2 ''interactive'' @ '' or '' @ quote2 ''batch'' @
       '', got: '' @ raw)"

definition priorityOf :: "(json \<Rightarrow> string) \<Rightarrow> jsval \<Rightarrow> raised + priority option" where
  "priorityOf stringify body =
     (case opt_field body ''priority'' of
        None \<Rightarrow> Inr None
      | Some raw \<Rightarrow>
          if raw = JStr ''interactive'' then Inr (Some Interactive)
          else if raw = JStr ''batch'' then Inr (Some Batch)
          else Inl (bad_priority (stringify raw)))"

definition attributesOf :: "jsval \<Rightarrow> raised + (string \<times> json) list" where
  "attributesOf body =
     (if \<not> isPlainObject body then Inl (ValidationError ''request body must be a JSON object'')
      else let attributes = opt_field body ''attributes''
           in if \<not> isPlainObject attributes
              then Inl (ValidationError ''attributes is required and must be an object'')
              else Inr (obj_fields attributes))"

definition accepted_body :: "enqueue_result \<Rightarrow> string \<Rightarrow> json" where
  "accepted_body res key =
     JObj [(''operationId'', JStr (er_id res)), (''status'', JStr ''PENDING''),
           (''idempotencyKey'', JStr key)]"

text \<open>The naming attribute of a create: a lease is held while the schema is read.\<close>

definition name_value ::
  "http_env \<Rightarrow> string \<Rightarrow> string \<Rightarrow> (string \<times> json) list \<Rightarrow> (raised + string) \<times> effect list" where
  "name_value env inst oc attrs =
     (case ev_acquire env inst of
        Inl e \<Rightarrow> (Inl e, [])
      | Inr fac \<Rightarrow>
          let n = resolveNameAttribute fac oc
          in ((case obj_get attrs n of
                 Some (JStr v) \<Rightarrow>
                   if v = [] then Inl (ValidationError (''attributes.'' @ n @ '' (the naming attribute) is required for CREATE''))
                   else Inr v
               | _ \<Rightarrow> Inl (ValidationError (''attributes.'' @ n @ '' (the naming attribute) is required for CREATE''))),
              [Acquired inst, Called inst CallSchema, Released inst]))"

definition mutation_input ::
  "op_type \<Rightarrow> string \<Rightarrow> string \<Rightarrow> string option \<Rightarrow> string \<Rightarrow> priority option \<Rightarrow> string option
     \<Rightarrow> (string \<times> json) list option \<Rightarrow> admit_input" where
  "mutation_input t inst oc uid key p name attrs =
     \<lparr> a_input = \<lparr> e_instance_id = inst, e_object_class = oc, e_op_type = t, e_lane_key = [],
         e_idempotency_key = key, e_priority = p, e_uid = uid, e_name_attr_value = name,
         e_attrs = map_option JObj attrs \<rparr>,
       a_lane_key = None \<rparr>"

text \<open>The handler \<open>enqueueRoute(opType, requiresAttributes)\<close>.\<close>

definition enqueueRoute ::
  "op_type \<Rightarrow> bool \<Rightarrow> http_env \<Rightarrow> string \<Rightarrow> string \<Rightarrow> string option \<Rightarrow> request \<Rightarrow> jsval \<Rightarrow> op_store
     \<Rightarrow> handled \<times> effect list \<times> op_store" where
  "enqueueRoute t requiresAttributes env inst oc uid rq body s =
     (case priorityOf (ev_stringify env) body of
        Inl e \<Rightarrow> (Next e, [], s)
      | Inr p \<Rightarrow>
          let key = idempotencyKeyOf env rq
          in case (if requiresAttributes then map_sum id Some (attributesOf body) else Inr None) of
               Inl e \<Rightarrow> (Next e, [], s)
             | Inr attrs \<Rightarrow>
                 let (name, effs) =
                   (if t = CREATE
                    then case name_value env inst oc (case attrs of None \<Rightarrow> [] | Some a \<Rightarrow> a) of
                           (r, es) \<Rightarrow> (map_sum id Some r, es)
                    else (Inr None, []))
                 in case name of
                      Inl e \<Rightarrow> (Next e, effs, s)
                    | Inr n \<Rightarrow>
                        (case admitAndEnqueue (ev_now env) (ev_new_id env) (ev_caps env) (ev_counts env inst)
                                (mutation_input t inst oc uid key p n attrs) s of
                           Inl e \<Rightarrow> (Next (admit_raised (ev_db_text env) e), effs, s)
                         | Inr (res, s') \<Rightarrow> (Done (json_response 202 (accepted_body res key)), effs, s')))"

section \<open>Reads\<close>

definition get_route :: "http_env \<Rightarrow> string \<Rightarrow> string \<Rightarrow> string \<Rightarrow> handled \<times> effect list" where
  "get_route env inst oc uid =
     (case ev_acquire env inst of
        Inl e \<Rightarrow> (Next e, [])
      | Inr fac \<Rightarrow>
          ((case ev_get env inst oc uid of
              Inl e \<Rightarrow> Next e
            | Inr obj \<Rightarrow>
                if nullish obj
                then Done (json_response 404 (problem ''not_found'' (''no object with uid '' @ uid)))
                else Done (json_response 200 (the obj))),
           [Acquired inst, Looked inst oc uid, Released inst]))"

text \<open>One call of the handler \<open>makeNdjsonHandler\<close> builds: no answer while it waits for the drain, else
  the chunk it wrote and whether the connector should go on.\<close>

definition ndjson_handler :: "(json \<Rightarrow> string) \<Rightarrow> sink_event \<Rightarrow> json \<Rightarrow> (string list \<times> bool option)" where
  "ndjson_handler stringify sk obj =
     (if sk_stopped_before sk then ([], Some False)
      else ([stringify obj @ [CHR 0x0A]],
            if \<not> sk_taken sk \<and> \<not> sk_drains sk then None else Some (\<not> sk_stopped_after sk)))"

definition calm :: sink_event where
  "calm = \<lparr> sk_stopped_before = False, sk_taken = True, sk_drains = True, sk_stopped_after = False \<rparr>"

text \<open>A connector that feeds the handler one object at a time and stops when it answers false: the
  chunks written, and whether the search came to its end.\<close>

fun stream_objects ::
  "(json \<Rightarrow> string) \<Rightarrow> sink_event list \<Rightarrow> json list \<Rightarrow> raised option \<Rightarrow> string list \<times> (raised option) option" where
  "stream_objects stringify sks [] err = ([], Some err)"
| "stream_objects stringify sks (x # xs) err =
     (case ndjson_handler stringify (case sks of [] \<Rightarrow> calm | k # _ \<Rightarrow> k) x of
        (cs, None) \<Rightarrow> (cs, None)
      | (cs, Some False) \<Rightarrow> (cs, Some None)
      | (cs, Some True) \<Rightarrow>
          (case stream_objects stringify (tl sks) xs err of (ds, r) \<Rightarrow> (cs @ ds, r)))"

text \<open>Headers are sent with the first chunk. The content type stands in the response from before the
  search, so a problem that \<open>res.json\<close> sends after a failed search keeps it.\<close>

definition ndjson_response :: "string list \<Rightarrow> response" where
  "ndjson_response cs = \<lparr> rp_status = 200, rp_type = Some ''application/x-ndjson'', rp_content = Ndjson cs \<rparr>"

definition search_filter :: "jsval \<Rightarrow> raised + filter_node option" where
  "search_filter raw =
     (case raw of
        Some (JStr f) \<Rightarrow>
          (case parseFilterString f of
             Inl e \<Rightarrow> Inl (FilterSyntaxError (filter_message e))
           | Inr n \<Rightarrow> Inr (Some n))
      | _ \<Rightarrow> Inr None)"

text \<open>The content type the route has set by the time it hands an error on.\<close>

definition search_route ::
  "http_env \<Rightarrow> string \<Rightarrow> string \<Rightarrow> request \<Rightarrow> (handled \<times> string option) \<times> effect list" where
  "search_route env inst oc rq =
     (case search_filter (rq_filter rq) of
        Inl e \<Rightarrow> ((Next e, None), [])
      | Inr flt \<Rightarrow>
          (case ev_acquire env inst of
             Inl e \<Rightarrow> ((Next e, None), [])
           | Inr fac \<Rightarrow>
               let (objs, err) = ev_search env inst oc flt;
                   (chunks, fin) = stream_objects (ev_stringify env) (ev_sink env) objs err
               in case fin of
                    None \<Rightarrow> ((Waiting, None), [Acquired inst, Searched inst oc flt])
                  | Some e \<Rightarrow>
                      ((case e of
                          None \<Rightarrow> (Done (ndjson_response chunks), None)
                        | Some x \<Rightarrow>
                            if chunks \<noteq> [] then (Done (ndjson_response chunks), None)
                            else (Next x, Some ''application/x-ndjson'')),
                       [Acquired inst, Searched inst oc flt, Released inst])))"

section \<open>Dates on the wire\<close>

text \<open>\<open>Date.prototype.toISOString\<close> of a time in milliseconds, for years 0 to 9999.\<close>

definition civil_from_days :: "int \<Rightarrow> int \<times> int \<times> int" where
  "civil_from_days n =
     (let z = n + 719468; era = z div 146097; doe = z mod 146097;
          yoe = (doe - doe div 1460 + doe div 36524 - doe div 146096) div 365;
          doy = doe - (365 * yoe + yoe div 4 - yoe div 100);
          mp = (5 * doy + 2) div 153;
          m = (if mp < 10 then mp + 3 else mp - 9)
      in (yoe + era * 400 + (if m \<le> 2 then 1 else 0), m, doy - (153 * mp + 2) div 5 + 1))"

definition padded :: "nat \<Rightarrow> int \<Rightarrow> string" where
  "padded w n = (let ds = int_to_string n in replicate (w - length ds) (CHR ''0'') @ ds)"

definition toISOString :: "int \<Rightarrow> string" where
  "toISOString ms =
     (let t = ms mod 86400000
      in case civil_from_days (ms div 86400000) of
           (y, m, d) \<Rightarrow>
             padded 4 y @ ''-'' @ padded 2 m @ ''-'' @ padded 2 d @ ''T'' @
             padded 2 (t div 3600000) @ '':'' @ padded 2 (t div 60000 mod 60) @ '':'' @
             padded 2 (t div 1000 mod 60) @ ''.'' @ padded 3 (t mod 1000) @ ''Z'')"

text \<open>The driver hands a column over in milliseconds.\<close>

definition iso_of_us :: "int \<Rightarrow> string" where
  "iso_of_us us = toISOString (us div 1000)"

section \<open>Status\<close>

definition outcome_field :: "op_status \<Rightarrow> jsval" where
  "outcome_field st = (if st \<in> set TERMINAL_STATUSES then Some (JStr (status_name st)) else None)"

definition result_field :: "jsval \<Rightarrow> jsval" where
  "result_field v =
     (if js_truthy v
      then Some (obj_literal [(''uid'', opt_field v ''uid''), (''object'', opt_field v ''object'')])
      else None)"

definition status_json :: "status_row \<Rightarrow> json" where
  "status_json row =
     obj_literal
       [(''operationId'', Some (JStr (s_id row))),
        (''instanceId'', Some (JStr (s_instance_id row))),
        (''objectClass'', Some (JStr (s_object_class row))),
        (''type'', Some (JStr (op_type_name (s_op_type row)))),
        (''priority'', map_option (\<lambda>p. JStr (priority_name p)) (s_priority row)),
        (''status'', Some (JStr (status_name (s_status row)))),
        (''outcome'', outcome_field (s_status row)),
        (''errorCode'', map_option JStr (s_error_code row)),
        (''attemptCount'', Some (JNum (Fin (of_nat (s_attempt_count row))))),
        (''result'', result_field (s_result row)),
        (''createdAt'', Some (JStr (iso_of_us (s_created_at row)))),
        (''completedAt'', map_option (\<lambda>t. JStr (iso_of_us t)) (s_finalized_at row))]"

definition operations_route :: "http_env \<Rightarrow> string \<Rightarrow> op_store \<Rightarrow> handled" where
  "operations_route env i s =
     (case ev_status_fault env of
        Some e \<Rightarrow> Next e
      | None \<Rightarrow>
          (case getStatus i s of
             None \<Rightarrow> Done (json_response 404 (problem ''not_found'' ''no operation with that id''))
           | Some row \<Rightarrow> Done (json_response 200 (status_json row))))"

section \<open>Health\<close>

definition ok_body :: json where
  "ok_body = JObj [(''status'', JStr ''ok'')]"

definition healthz :: response where
  "healthz = json_response 200 ok_body"

definition readyz :: "http_env \<Rightarrow> response" where
  "readyz env =
     (case ev_ping env of
        None \<Rightarrow> json_response 200 ok_body
      | Some e \<Rightarrow> json_response 503 (JObj [(''status'', JStr ''unavailable''), (''message'', JStr (t_message e))]))"

section \<open>The application\<close>

datatype object_route =
    Mutate op_type bool "string option"
  | GetOne string
  | SearchAll

text \<open>The routes of \<open>createObjectsRouter\<close>, by the segments after the object class.\<close>

definition object_route_of :: "http_method \<Rightarrow> string list \<Rightarrow> object_route option" where
  "object_route_of meth rest =
     (case rest of
        [] \<Rightarrow> (case meth of POST \<Rightarrow> Some (Mutate CREATE True None) | GET \<Rightarrow> Some SearchAll | _ \<Rightarrow> None)
      | [uid] \<Rightarrow>
          (case meth of
             PUT \<Rightarrow> Some (Mutate UPDATE True (Some uid))
           | DELETE_M \<Rightarrow> Some (Mutate DELETE False (Some uid))
           | GET \<Rightarrow> Some (GetOne uid)
           | _ \<Rightarrow> None)
      | [uid, verb] \<Rightarrow>
          if meth = POST \<and> verb = ''add-values'' then Some (Mutate ADD_VALUES True (Some uid))
          else if meth = POST \<and> verb = ''remove-values'' then Some (Mutate REMOVE_VALUES True (Some uid))
          else None
      | _ \<Rightarrow> None)"

record http_result =
  hr_response :: "response option"
  hr_effects :: "effect list"
  hr_store :: op_store

text \<open>The error handler of \<open>createApp\<close>, with the content type a route has already set.\<close>

definition error_response :: "string option \<Rightarrow> raised \<Rightarrow> response" where
  "error_response ty e =
     (json_response (me_status (mapError e)) (me_body (mapError e)))
       \<lparr>rp_type := (case ty of None \<Rightarrow> Some ''application/json'' | Some t \<Rightarrow> Some t)\<rparr>"

definition error_log :: "raised \<Rightarrow> effect list" where
  "error_log e = (if 500 \<le> me_status (mapError e) then [Logged e] else [])"

definition conclude_request ::
  "handled \<Rightarrow> string option \<Rightarrow> effect list \<Rightarrow> op_store \<Rightarrow> http_result" where
  "conclude_request h ty effs s =
     (case h of
        Done r \<Rightarrow> \<lparr> hr_response = Some r, hr_effects = effs, hr_store = s \<rparr>
      | Next e \<Rightarrow> \<lparr> hr_response = Some (error_response ty e), hr_effects = effs @ error_log e, hr_store = s \<rparr>
      | Waiting \<Rightarrow> \<lparr> hr_response = None, hr_effects = effs, hr_store = s \<rparr>)"

definition not_found_page :: response where
  "not_found_page = \<lparr> rp_status = 404, rp_type = Some ''text/html; charset=utf-8'', rp_content = NoContent \<rparr>"

definition objects_router ::
  "http_env \<Rightarrow> string \<Rightarrow> string \<Rightarrow> string list \<Rightarrow> request \<Rightarrow> jsval \<Rightarrow> op_store \<Rightarrow> http_result" where
  "objects_router env inst oc rest rq body s =
     (case ev_ensure env inst of
        Some e \<Rightarrow> conclude_request (Next e) None [Ensured inst] s
      | None \<Rightarrow>
          (case object_route_of (rq_method rq) rest of
             None \<Rightarrow> conclude_request (Done not_found_page) None [Ensured inst] s
           | Some (Mutate t req uid) \<Rightarrow>
               (case enqueueRoute t req env inst oc uid rq body s of
                  (h, effs, s') \<Rightarrow> conclude_request h None (Ensured inst # effs) s')
           | Some (GetOne uid) \<Rightarrow>
               (case get_route env inst oc uid of
                  (h, effs) \<Rightarrow> conclude_request h None (Ensured inst # effs) s)
           | Some SearchAll \<Rightarrow>
               (case search_route env inst oc rq of
                  ((h, ty), effs) \<Rightarrow> conclude_request h ty (Ensured inst # effs) s)))"

datatype auth_answer = AuthPass | AuthRespond response

definition app_routes :: "http_env \<Rightarrow> request \<Rightarrow> jsval \<Rightarrow> op_store \<Rightarrow> http_result" where
  "app_routes env rq body s =
     (case rq_path rq of
        [r, i] \<Rightarrow>
          if r = ''operations'' \<and> rq_method rq = GET
          then conclude_request (operations_route env i s) None [] s
          else conclude_request (Done not_found_page) None [] s
      | r # inst # mid # oc # rest \<Rightarrow>
          if r = ''instances'' \<and> mid = ''objects''
          then objects_router env inst oc rest rq body s
          else conclude_request (Done not_found_page) None [] s
      | _ \<Rightarrow> conclude_request (Done not_found_page) None [] s)"

definition createApp ::
  "http_env \<Rightarrow> (request \<Rightarrow> auth_answer) \<Rightarrow> request \<Rightarrow> op_store \<Rightarrow> http_result" where
  "createApp env auth rq s =
     (case rq_body rq of
        Inl e \<Rightarrow> conclude_request (Next e) None [] s
      | Inr body \<Rightarrow>
          if rq_method rq = GET \<and> rq_path rq = [''healthz''] then conclude_request (Done healthz) None [] s
          else if rq_method rq = GET \<and> rq_path rq = [''readyz'']
          then conclude_request (Done (readyz env)) None [Pinged] s
          else
            (case auth rq of
               AuthRespond r \<Rightarrow> conclude_request (Done r) None [] s
             | AuthPass \<Rightarrow> app_routes env rq body s))"

end
