(* ===== verification/Dispatcher.thy ===== *)
theory Dispatcher
  imports Metrics Resolution Claim_Protocol "HOL-Library.AList"
begin

text \<open>
  The claim loop of \<open>src/ops/Dispatcher.ts\<close>: its in-memory state, the claim cycle and the execution
  of one claimed operation. A cycle suspends at each \<open>await\<close>; between two suspensions it is one
  definition here (\<open>begin_cycle\<close>, \<open>reap_phase\<close>, \<open>availability_phase\<close>, \<open>claim_phase\<close>,
  \<open>register_phase\<close>), and \<open>runCycle\<close> runs them in a row. The registry, the scheduling lookup and the
  rate limiters are the environment record; a store call that rejects is a fault argument carrying
  the message. The process clock \<open>now\<close> is in milliseconds, the database clock \<open>dbnow\<close> in
  microseconds. JavaScript maps are association lists updated by key, or partial functions where
  their order is never read.
\<close>

section \<open>State and environment\<close>

type_synonym avail = "(string \<times> availability) list"

text \<open>Where a cycle is suspended; \<open>cycleInFlight\<close> is every phase but \<open>Idle\<close>. The number is the
  cycle's start.\<close>

datatype cycle_phase =
    Idle
  | Started int
  | Reaped int
  | Ready int avail
  | Claimed int "claimed_op list"

datatype failure = DbFail string | ConfigFail scheduling_error

datatype log_entry =
    ReaperFailed failure
  | CycleFailed failure
  | DeferFailed string string
  | RequeueFailed string string
  | FinalizeFailed string string
  | AttemptFailed string failure

text \<open>Where the task of a claimed operation is suspended: before its attempt, between the attempt
  and the write of what it concluded (with the time it started, when a lease was acquired), and
  before its cleanup.\<close>

datatype task_state =
    Dispatched
  | Concluded "int option" resolution
  | Written

record 'l disp =
  d_activeLanes :: "string list"
  d_running :: "string \<rightharpoonup> int"
  d_runningBatch :: "string \<rightharpoonup> int"
  d_laneDeferredUntil :: "(string \<times> int) list"
  d_limiters :: "string \<rightharpoonup> 'l"
  d_configCache :: "string \<rightharpoonup> instance_config"
  d_roundRobinCursor :: nat
  d_backlogSampleCountdown :: int
  d_lastReapAt :: int
  d_phase :: cycle_phase
  d_stopped :: bool
  d_timer :: bool
  d_tasks :: "(claimed_op \<times> task_state) list"
  d_metrics :: "metric list"
  d_log :: "log_entry list"

definition new_dispatcher :: "'l disp" where
  "new_dispatcher =
     \<lparr> d_activeLanes = [], d_running = Map.empty, d_runningBatch = Map.empty,
       d_laneDeferredUntil = [], d_limiters = Map.empty, d_configCache = Map.empty,
       d_roundRobinCursor = 0, d_backlogSampleCountdown = 0, d_lastReapAt = 0, d_phase = Idle,
       d_stopped = False, d_timer = False, d_tasks = [], d_metrics = [], d_log = [] \<rparr>"

record 'l disp_env =
  registeredIds :: "string list"
  runtimeOf :: "string \<Rightarrow> core_runtime option"
  capabilitiesOf :: "string \<Rightarrow> capabilities"
  schedulingOf :: "string \<Rightarrow> jsval"
  newLimiter :: "int \<Rightarrow> jsnum \<Rightarrow> 'l"
  tryConsume :: "int \<Rightarrow> 'l \<Rightarrow> bool \<times> 'l"
  failureText :: "failure \<Rightarrow> string"

definition measure_out :: "metric \<Rightarrow> 'l disp \<Rightarrow> 'l disp" where
  "measure_out m d = d\<lparr>d_metrics := d_metrics d @ [m]\<rparr>"

definition log_error :: "log_entry \<Rightarrow> 'l disp \<Rightarrow> 'l disp" where
  "log_error e d = d\<lparr>d_log := d_log d @ [e]\<rparr>"

definition count_of :: "(string \<rightharpoonup> int) \<Rightarrow> string \<Rightarrow> int" where
  "count_of m i = (case m i of None \<Rightarrow> 0 | Some n \<Rightarrow> n)"

section \<open>start and stop\<close>

definition start :: "'l disp \<Rightarrow> 'l disp" where
  "start d = (if d_timer d \<or> d_stopped d then d else d\<lparr>d_timer := True\<rparr>)"

definition stop :: "'l disp \<Rightarrow> 'l disp" where
  "stop d = d\<lparr>d_stopped := True, d_timer := False\<rparr>"

definition inFlightCount :: "'l disp \<Rightarrow> nat" where
  "inFlightCount d = length (d_tasks d)"

section \<open>Configuration per instance\<close>

definition config_key :: "string \<Rightarrow> core_runtime \<Rightarrow> string" where
  "config_key i rt = i @ '':'' @ int_to_string (mutationConcurrency rt)"

definition configOf ::
  "'l disp_env \<Rightarrow> string \<Rightarrow> (string \<rightharpoonup> instance_config)
     \<Rightarrow> (scheduling_error + instance_config option) \<times> (string \<rightharpoonup> instance_config)" where
  "configOf env i cache =
     (case runtimeOf env i of
        None \<Rightarrow> (Inr None, cache)
      | Some rt \<Rightarrow>
          (case cache (config_key i rt) of
             Some hit \<Rightarrow> (Inr (Some hit), cache)
           | None \<Rightarrow>
               (case resolveSchedulingConfig (schedulingOf env i) (mutationConcurrency rt) of
                  Inl e \<Rightarrow> (Inl e, cache)
                | Inr sc \<Rightarrow>
                    let merged = \<lparr> ic_runtime = rt, ic_scheduling = sc \<rparr>
                    in (Inr (Some merged), cache(config_key i rt \<mapsto> merged)))))"

definition configured_limit :: "instance_config \<Rightarrow> rate_limit option" where
  "configured_limit cfg =
     (let ls = rateLimits (ic_scheduling cfg)
      in case map_of ls K_create of
           Some l \<Rightarrow> Some l
         | None \<Rightarrow> (case map_of ls K_update of Some l \<Rightarrow> Some l | None \<Rightarrow> map_of ls K_delete))"

definition per_second :: "rate_limit \<Rightarrow> jsnum" where
  "per_second l =
     (case to_double (of_int (requestPeriodMs l) / 1000) of
        Fin x \<Rightarrow> to_double (of_int (requestLimit l) / x) | n \<Rightarrow> Fin 0)"

definition hasRateLimitTokens ::
  "'l disp_env \<Rightarrow> int \<Rightarrow> string \<Rightarrow> instance_config \<Rightarrow> 'l disp \<Rightarrow> bool \<times> 'l disp" where
  "hasRateLimitTokens env now i cfg d =
     (case configured_limit cfg of
        None \<Rightarrow> (True, d)
      | Some l \<Rightarrow>
          let limiter = (case d_limiters d i of
                           Some x \<Rightarrow> x | None \<Rightarrow> newLimiter env (requestLimit l) (per_second l));
              (ok, limiter') = tryConsume env now limiter
          in (ok, d\<lparr>d_limiters := (d_limiters d)(i \<mapsto> limiter')\<rparr>))"

section \<open>computeAvailability\<close>

fun availability_loop ::
  "'l disp_env \<Rightarrow> int \<Rightarrow> string list \<Rightarrow> 'l disp \<Rightarrow> avail \<Rightarrow> (scheduling_error + avail) \<times> 'l disp" where
  "availability_loop env now [] d out = (Inr out, d)"
| "availability_loop env now (i # is) d out =
     (case configOf env i (d_configCache d) of
        (Inl e, cache) \<Rightarrow> (Inl e, d)
      | (Inr None, cache) \<Rightarrow> availability_loop env now is d out
      | (Inr (Some cfg), cache) \<Rightarrow>
          let d1 = d\<lparr>d_configCache := cache\<rparr>;
              total = mutationConcurrency (ic_runtime cfg) - count_of (d_running d1) i
          in if total \<le> 0 then availability_loop env now is d1 out
             else case hasRateLimitTokens env now i cfg d1 of
                    (False, d2) \<Rightarrow> availability_loop env now is d2 out
                  | (True, d2) \<Rightarrow>
                      let batch = max 0 (min (batchSlots (ic_scheduling cfg)
                                              - count_of (d_runningBatch d2) i) total)
                      in availability_loop env now is d2
                           (AList.update i \<lparr> batchFree = batch, totalFree = total \<rparr> out))"

definition rotate_from :: "nat \<Rightarrow> string list \<Rightarrow> string list" where
  "rotate_from cursor ids =
     (let offset = cursor mod length ids in drop offset ids @ take offset ids)"

definition computeAvailability ::
  "'l disp_env \<Rightarrow> int \<Rightarrow> 'l disp \<Rightarrow> (scheduling_error + avail) \<times> 'l disp" where
  "computeAvailability env now d =
     (let ids = registeredIds env
      in if ids = [] then (Inr [], d)
         else availability_loop env now (rotate_from (d_roundRobinCursor d) ids)
                (d\<lparr>d_roundRobinCursor := d_roundRobinCursor d + 1\<rparr>) [])"

section \<open>The reaper pass\<close>

fun deadline_ceiling ::
  "'l disp_env \<Rightarrow> string list \<Rightarrow> (string \<rightharpoonup> instance_config) \<Rightarrow> int
     \<Rightarrow> (scheduling_error + int) \<times> (string \<rightharpoonup> instance_config)" where
  "deadline_ceiling env [] cache largest = (Inr largest, cache)"
| "deadline_ceiling env (i # is) cache largest =
     (case configOf env i cache of
        (Inl e, cache') \<Rightarrow> (Inl e, cache')
      | (Inr None, cache') \<Rightarrow> deadline_ceiling env is cache' largest
      | (Inr (Some cfg), cache') \<Rightarrow>
          deadline_ceiling env is cache'
            (max largest (attemptDeadlineMs (ic_runtime cfg) K_create)))"

definition readBackDelayCeilingMs ::
  "'l disp_env \<Rightarrow> dispatcher_config \<Rightarrow> 'l disp \<Rightarrow> (scheduling_error + int) \<times> 'l disp" where
  "readBackDelayCeilingMs env dc d =
     (case deadline_ceiling env (registeredIds env) (d_configCache d) 0 of
        (Inl e, cache) \<Rightarrow> (Inl e, d\<lparr>d_configCache := cache\<rparr>)
      | (Inr largest, cache) \<Rightarrow>
          (Inr (largest + readBackGraceMs dc), d\<lparr>d_configCache := cache\<rparr>))"

definition count_reaped :: "reap_result \<Rightarrow> 'l disp \<Rightarrow> 'l disp" where
  "count_reaped r d =
     (let d1 = (if 0 < deferredForReadback r
                then measure_out (Counter REAPED (int (deferredForReadback r)) [(''route'', ''readback'')]) d
                else d)
      in if 0 < requeued r
         then measure_out (Counter REAPED (int (requeued r)) [(''route'', ''requeue'')]) d1 else d1)"

definition maybeReap ::
  "'l disp_env \<Rightarrow> dispatcher_config \<Rightarrow> int \<Rightarrow> int \<Rightarrow> string option \<Rightarrow> bool \<Rightarrow> 'l disp \<Rightarrow> op_store
     \<Rightarrow> 'l disp \<times> op_store" where
  "maybeReap env dc now dbnow fault acquired d s =
     (if now - d_lastReapAt d < reaperIntervalMs dc then (d, s)
      else case readBackDelayCeilingMs env dc (d\<lparr>d_lastReapAt := now\<rparr>) of
             (Inl e, d1) \<Rightarrow> (log_error (ReaperFailed (ConfigFail e)) d1, s)
           | (Inr delay, d1) \<Rightarrow>
               (case fault of
                  Some m \<Rightarrow> (log_error (ReaperFailed (DbFail m)) d1, s)
                | None \<Rightarrow>
                    let (res, s') = reapStale dbnow acquired (reaperThresholdMs dc) delay s
                    in (count_reaped res d1, s')))"

section \<open>Backlog sampling and excluded lanes\<close>

definition BACKLOG_SAMPLE_EVERY_N_CYCLES :: int where
  "BACKLOG_SAMPLE_EVERY_N_CYCLES = 40"

definition gauge_backlog :: "op_store \<Rightarrow> string \<Rightarrow> 'l disp \<Rightarrow> 'l disp" where
  "gauge_backlog s i d =
     (let n = pendingCounts i s
      in measure_out (Gauge BACKLOG_DEPTH (int (batch_count n))
           [(''instance'', i), (''priority'', ''batch'')])
         (measure_out (Gauge BACKLOG_DEPTH (int (interactive_count n))
           [(''instance'', i), (''priority'', ''interactive'')]) d))"

definition sampleBacklog ::
  "(string \<Rightarrow> string option) \<Rightarrow> op_store \<Rightarrow> avail \<Rightarrow> 'l disp \<Rightarrow> 'l disp" where
  "sampleBacklog faults s avail d =
     (let d1 = d\<lparr>d_backlogSampleCountdown := d_backlogSampleCountdown d - 1\<rparr>
      in if 0 < d_backlogSampleCountdown d then d1
         else fold (\<lambda>i d'. if faults i = None then gauge_backlog s i d' else d') (map fst avail)
                (d1\<lparr>d_backlogSampleCountdown := BACKLOG_SAMPLE_EVERY_N_CYCLES\<rparr>))"

definition prune_deferred :: "int \<Rightarrow> 'l disp \<Rightarrow> 'l disp" where
  "prune_deferred now d =
     d\<lparr>d_laneDeferredUntil := filter (\<lambda>(lane, until). now < until) (d_laneDeferredUntil d)\<rparr>"

definition excludedLanes :: "int \<Rightarrow> 'l disp \<Rightarrow> string list \<times> 'l disp" where
  "excludedLanes now d =
     (let d1 = prune_deferred now d
      in (remdups (d_activeLanes d1 @ map fst (d_laneDeferredUntil d1)), d1))"

section \<open>The claim cycle\<close>

definition begin_cycle :: "int \<Rightarrow> 'l disp \<Rightarrow> 'l disp" where
  "begin_cycle now d =
     (if d_phase d \<noteq> Idle \<or> d_stopped d then d else d\<lparr>d_phase := Started now\<rparr>)"

definition reap_phase ::
  "'l disp_env \<Rightarrow> dispatcher_config \<Rightarrow> int \<Rightarrow> int \<Rightarrow> string option \<Rightarrow> bool \<Rightarrow> 'l disp \<Rightarrow> op_store
     \<Rightarrow> 'l disp \<times> op_store" where
  "reap_phase env dc now dbnow fault acquired d s =
     (case d_phase d of
        Started t \<Rightarrow> (case maybeReap env dc now dbnow fault acquired d s of
                        (d', s') \<Rightarrow> (d'\<lparr>d_phase := Reaped t\<rparr>, s'))
      | _ \<Rightarrow> (d, s))"

definition availability_phase ::
  "'l disp_env \<Rightarrow> int \<Rightarrow> (string \<Rightarrow> string option) \<Rightarrow> op_store \<Rightarrow> 'l disp \<Rightarrow> 'l disp" where
  "availability_phase env now faults s d =
     (case d_phase d of
        Reaped t \<Rightarrow>
          (case computeAvailability env now d of
             (Inl e, d') \<Rightarrow> log_error (CycleFailed (ConfigFail e)) (d'\<lparr>d_phase := Idle\<rparr>)
           | (Inr [], d') \<Rightarrow> d'\<lparr>d_phase := Idle\<rparr>
           | (Inr avail, d') \<Rightarrow> sampleBacklog faults s avail (d'\<lparr>d_phase := Ready t avail\<rparr>))
      | _ \<Rightarrow> d)"

definition claim_phase ::
  "dispatcher_config \<Rightarrow> int \<Rightarrow> int \<Rightarrow> string list \<Rightarrow> string option \<Rightarrow> 'l disp \<Rightarrow> op_store
     \<Rightarrow> 'l disp \<times> op_store" where
  "claim_phase dc now dbnow held fault d s =
     (case d_phase d of
        Ready t avail \<Rightarrow>
          (case excludedLanes now d of
             (lanes, d1) \<Rightarrow>
               (case fault of
                  Some m \<Rightarrow> (log_error (CycleFailed (DbFail m)) (d1\<lparr>d_phase := Idle\<rparr>), s)
                | None \<Rightarrow>
                    (case claimBatch dbnow held (claimBatchSize dc) lanes avail s of
                       (cs, s') \<Rightarrow> (d1\<lparr>d_phase := Claimed t cs\<rparr>, s'))))
      | _ \<Rightarrow> (d, s))"

definition ms_of_us :: "int \<Rightarrow> int" where
  "ms_of_us us = us div 1000"

definition bump :: "string \<Rightarrow> (string \<rightharpoonup> int) \<Rightarrow> (string \<rightharpoonup> int)" where
  "bump i m = m(i \<mapsto> count_of m i + 1)"

definition drop_one :: "string \<Rightarrow> (string \<rightharpoonup> int) \<Rightarrow> (string \<rightharpoonup> int)" where
  "drop_one i m = m(i \<mapsto> max 0 ((case m i of None \<Rightarrow> 1 | Some n \<Rightarrow> n) - 1))"

definition register_task :: "int \<Rightarrow> claimed_op \<Rightarrow> 'l disp \<Rightarrow> 'l disp" where
  "register_task now c d =
     (let d1 = measure_out (Gauge OLDEST_PENDING_AGE_MS (max 0 (now - ms_of_us (c_created_at c)))
                 [(''instance'', c_instance_id c), (''priority'', priority_name (c_priority c))]) d
      in d1\<lparr>d_activeLanes := List.insert (c_lane_key c) (d_activeLanes d1),
            d_running := bump (c_instance_id c) (d_running d1),
            d_runningBatch := (if c_priority c = Batch then bump (c_instance_id c) (d_runningBatch d1)
                               else d_runningBatch d1),
            d_tasks := d_tasks d1 @ [(c, Dispatched)]\<rparr>)"

definition register_phase :: "int \<Rightarrow> 'l disp \<Rightarrow> nat \<times> 'l disp" where
  "register_phase now d =
     (case d_phase d of
        Claimed t cs \<Rightarrow>
          (length cs,
           (fold (register_task now) cs
              (measure_out (Counter CLAIMED (int (length cs)) [])
                (measure_out (Histogram CLAIM_CYCLE_MS (now - t) []) d)))\<lparr>d_phase := Idle\<rparr>)
      | _ \<Rightarrow> (0, d))"

definition runCycle ::
  "'l disp_env \<Rightarrow> dispatcher_config \<Rightarrow> int \<Rightarrow> int \<Rightarrow> string list \<Rightarrow> bool \<Rightarrow> 'l disp \<Rightarrow> op_store
     \<Rightarrow> nat \<times> 'l disp \<times> op_store" where
  "runCycle env dc now dbnow held acquired d s =
     (if d_phase d \<noteq> Idle \<or> d_stopped d then (0, d, s)
      else case reap_phase env dc now dbnow None acquired (begin_cycle now d) s of
             (d1, s1) \<Rightarrow>
               (case claim_phase dc now dbnow held None
                       (availability_phase env now (\<lambda>_. None) s1 d1) s1 of
                  (d2, s2) \<Rightarrow> (case register_phase now d2 of (n, d3) \<Rightarrow> (n, d3, s2))))"

section \<open>Writing a resolution\<close>

definition safeRequeue :: "string option \<Rightarrow> string \<Rightarrow> 'l disp \<Rightarrow> op_store \<Rightarrow> 'l disp \<times> op_store" where
  "safeRequeue fault i d s =
     (case fault of
        Some m \<Rightarrow> (log_error (RequeueFailed i m) d, s)
      | None \<Rightarrow> (d, snd (requeue i s)))"

definition dispatch_finalize ::
  "int \<Rightarrow> int \<Rightarrow> string option \<Rightarrow> claimed_op \<Rightarrow> resolution \<Rightarrow> 'l disp \<Rightarrow> op_store
     \<Rightarrow> 'l disp \<times> op_store" where
  "dispatch_finalize now dbnow fault c r d s =
     (case rs_outcome r of
        DEFER_READBACK \<Rightarrow>
          let d1 = measure_out (Counter DEFERRED_READBACK 1 [(''instance'', c_instance_id c)]) d;
              ms = (case rs_delay r of None \<Rightarrow> 0 | Some n \<Rightarrow> n)
          in (case fault of
                Some m \<Rightarrow> (log_error (DeferFailed (c_id c) m) d1, s)
              | None \<Rightarrow> (d1, snd (deferForReadback (c_id c) (us_of_ms (now + ms)) s)))
      | REQUEUE \<Rightarrow>
          let d1 = (case rs_delay r of
                      Some ms \<Rightarrow>
                        if 0 < ms
                        then d\<lparr>d_laneDeferredUntil :=
                                 AList.update (c_lane_key c) (now + ms) (d_laneDeferredUntil d)\<rparr>
                        else d
                    | None \<Rightarrow> d);
              d2 = measure_out (Counter REQUEUED 1
                     [(''instance'', c_instance_id c), (''op'', op_type_name (c_op_type c)),
                      (''reason'', case rs_error r of None \<Rightarrow> ''UNKNOWN'' | Some e \<Rightarrow> e)]) d1
          in safeRequeue fault (c_id c) d2 s
      | Final out \<Rightarrow>
          let d1 = measure_out (Counter OUTCOME 1
                     [(''instance'', c_instance_id c), (''op'', op_type_name (c_op_type c)),
                      (''outcome'', outcome_name out)]) d
          in (case fault of
                Some m \<Rightarrow> (log_error (FinalizeFailed (c_id c) m) d1, s)
              | None \<Rightarrow>
                  (d1, snd (Operation_Store.finalize dbnow (c_id c) out (rs_result r) (rs_error r) s))))"

section \<open>Executing one claimed operation\<close>

definition message_result :: "string \<Rightarrow> jsval" where
  "message_result m = Some (JObj [(''message'', JStr m)])"

definition acquire_failed :: "thrown \<Rightarrow> resolution" where
  "acquire_failed e =
     \<lparr> rs_outcome = Final REJECTED_PRE_DISPATCH, rs_result = message_result (t_message e),
       rs_error = Some ''ACQUIRE_FAILED'', rs_delay = None \<rparr>"

definition dispatch_error :: "string \<Rightarrow> resolution" where
  "dispatch_error m =
     \<lparr> rs_outcome = Final INDETERMINATE, rs_result = message_result m,
       rs_error = Some ''DISPATCH_ERROR'', rs_delay = None \<rparr>"

text \<open>The first half of \<open>execute\<close>, up to the write. \<open>acquire\<close> is what \<open>manager.acquire\<close> answered: an
  exception, or the facade behind the lease.\<close>

definition conclude ::
  "'l disp_env \<Rightarrow> dispatcher_config \<Rightarrow> int \<Rightarrow> thrown + facade \<Rightarrow> claimed_op \<Rightarrow> 'l disp
     \<Rightarrow> facade_call list \<times> task_state \<times> 'l disp" where
  "conclude env dc now acquire c d =
     (case acquire of
        Inl e \<Rightarrow> ([], Concluded None (acquire_failed e), d)
      | Inr fac \<Rightarrow>
          (case configOf env (c_instance_id c) (d_configCache d) of
             (Inl e, cache) \<Rightarrow>
               ([], Concluded (Some now) (dispatch_error (failureText env (ConfigFail e))),
                log_error (AttemptFailed (c_id c) (ConfigFail e)) (d\<lparr>d_configCache := cache\<rparr>))
           | (Inr runtime, cache) \<Rightarrow>
               (case attempt dc (capabilitiesOf env) now fac c runtime of
                  (calls, r) \<Rightarrow> (calls, Concluded (Some now) r, d\<lparr>d_configCache := cache\<rparr>))))"

text \<open>The second half: the write, and the latency measured once the lease is released.\<close>

definition write_back ::
  "int \<Rightarrow> int \<Rightarrow> string option \<Rightarrow> claimed_op \<Rightarrow> task_state \<Rightarrow> 'l disp \<Rightarrow> op_store
     \<Rightarrow> 'l disp \<times> op_store" where
  "write_back now dbnow fault c t d s =
     (case t of
        Concluded startedAt r \<Rightarrow>
          (case dispatch_finalize now dbnow fault c r d s of
             (d1, s1) \<Rightarrow>
               ((case startedAt of
                   None \<Rightarrow> d1
                 | Some t0 \<Rightarrow> measure_out (Histogram ATTEMPT_LATENCY_MS (now - t0)
                     [(''instance'', c_instance_id c), (''op'', op_type_name (c_op_type c))]) d1), s1))
      | _ \<Rightarrow> (d, s))"

text \<open>The whole of \<open>execute\<close>, undisturbed; it ends at the time \<open>later\<close>.\<close>

definition execute ::
  "'l disp_env \<Rightarrow> dispatcher_config \<Rightarrow> int \<Rightarrow> int \<Rightarrow> int \<Rightarrow> string option \<Rightarrow> thrown + facade
     \<Rightarrow> claimed_op \<Rightarrow> 'l disp \<Rightarrow> op_store \<Rightarrow> facade_call list \<times> 'l disp \<times> op_store" where
  "execute env dc now later dbnow fault acquire c d s =
     (case conclude env dc now acquire c d of
        (calls, t, d1) \<Rightarrow> (calls, write_back later dbnow fault c t d1 s))"

text \<open>The suspended task moves to its next point.\<close>

fun replace_first :: "'a \<Rightarrow> 'a \<Rightarrow> 'a list \<Rightarrow> 'a list" where
  "replace_first x y [] = []"
| "replace_first x y (z # zs) = (if z = x then y # zs else z # replace_first x y zs)"

definition attempt_task ::
  "'l disp_env \<Rightarrow> dispatcher_config \<Rightarrow> int \<Rightarrow> thrown + facade \<Rightarrow> claimed_op \<Rightarrow> 'l disp
     \<Rightarrow> facade_call list \<times> 'l disp" where
  "attempt_task env dc now acquire c d =
     (case conclude env dc now acquire c d of
        (calls, t, d1) \<Rightarrow>
          (calls, d1\<lparr>d_tasks := replace_first (c, Dispatched) (c, t) (d_tasks d1)\<rparr>))"

definition write_task ::
  "int \<Rightarrow> int \<Rightarrow> string option \<Rightarrow> claimed_op \<Rightarrow> task_state \<Rightarrow> 'l disp \<Rightarrow> op_store
     \<Rightarrow> 'l disp \<times> op_store" where
  "write_task now dbnow fault c t d s =
     (case write_back now dbnow fault c t d s of
        (d1, s1) \<Rightarrow> (d1\<lparr>d_tasks := replace_first (c, t) (c, Written) (d_tasks d1)\<rparr>, s1))"

text \<open>The \<open>finally\<close> of the task, which then leaves \<open>inFlight\<close>.\<close>

definition settle_task :: "claimed_op \<Rightarrow> 'l disp \<Rightarrow> 'l disp" where
  "settle_task c d =
     d\<lparr>d_activeLanes := removeAll (c_lane_key c) (d_activeLanes d),
       d_running := drop_one (c_instance_id c) (d_running d),
       d_runningBatch := (if c_priority c = Batch then drop_one (c_instance_id c) (d_runningBatch d)
                          else d_runningBatch d),
       d_tasks := remove1 (c, Written) (d_tasks d)\<rparr>"

end
