(* ===== verification/Dispatcher_Props.thy ===== *)
theory Dispatcher_Props
  imports Dispatcher Store_Contract
begin

text \<open>
  The claim loop stays within its budgets. The two in-flight counters are the counts of the tasks,
  the configuration cache serves what it would resolve, an availability offers no more than is
  free, and a claim, which the store fills within what is offered, cannot take an instance over its
  mutation budget nor its batch work over the batch slots. The facts about the claim come from the
  interface \<open>claim_store\<close>, through its interpretation on the SQL.
\<close>

section \<open>Counters\<close>

definition tasks_of :: "'l disp \<Rightarrow> claimed_op list" where
  "tasks_of d = map fst (d_tasks d)"

lemma tasks_of_updates [simp]:
  "tasks_of (d\<lparr>d_activeLanes := v0\<rparr>) = tasks_of d"
  "tasks_of (d\<lparr>d_running := v1\<rparr>) = tasks_of d"
  "tasks_of (d\<lparr>d_runningBatch := v2\<rparr>) = tasks_of d"
  "tasks_of (d\<lparr>d_laneDeferredUntil := v3\<rparr>) = tasks_of d"
  "tasks_of (d\<lparr>d_limiters := v4\<rparr>) = tasks_of d"
  "tasks_of (d\<lparr>d_configCache := v5\<rparr>) = tasks_of d"
  "tasks_of (d\<lparr>d_roundRobinCursor := v6\<rparr>) = tasks_of d"
  "tasks_of (d\<lparr>d_backlogSampleCountdown := v7\<rparr>) = tasks_of d"
  "tasks_of (d\<lparr>d_lastReapAt := v8\<rparr>) = tasks_of d"
  "tasks_of (d\<lparr>d_phase := v9\<rparr>) = tasks_of d"
  "tasks_of (d\<lparr>d_stopped := v10\<rparr>) = tasks_of d"
  "tasks_of (d\<lparr>d_timer := v11\<rparr>) = tasks_of d"
  "tasks_of (d\<lparr>d_metrics := v12\<rparr>) = tasks_of d"
  "tasks_of (d\<lparr>d_log := v13\<rparr>) = tasks_of d"
  by (simp_all add: tasks_of_def)

definition counters_ok :: "'l disp \<Rightarrow> bool" where
  "counters_ok d =
     (\<forall>i. count_of (d_running d) i = claims_of i (tasks_of d) \<and>
          count_of (d_runningBatch d) i = batch_claims_of i (tasks_of d))"

lemma count_of_bump: "count_of (bump i m) j = count_of m j + (if i = j then 1 else 0)"
  by (simp add: bump_def count_of_def)

lemma count_of_drop_one: "0 < count_of m i \<Longrightarrow> count_of (drop_one i m) j = count_of m j - (if i = j then 1 else 0)"
  by (auto simp: drop_one_def count_of_def split: option.splits)

lemma claims_of_remove1:
  "(c, t) \<in> set ts \<Longrightarrow> claims_of i (map fst (remove1 (c, t) ts)) =
     claims_of i (map fst ts) - (if c_instance_id c = i then 1 else 0)"
  "(c, t) \<in> set ts \<Longrightarrow> batch_claims_of i (map fst (remove1 (c, t) ts)) =
     batch_claims_of i (map fst ts) - (if c_instance_id c = i \<and> c_priority c = Batch then 1 else 0)"
  by (induction ts) (auto simp: claims_of_Cons)

lemma claims_of_mem:
  "(c, t) \<in> set ts \<Longrightarrow> 0 < claims_of (c_instance_id c) (map fst ts)"
  "(c, t) \<in> set ts \<Longrightarrow> c_priority c = Batch \<Longrightarrow> 0 < batch_claims_of (c_instance_id c) (map fst ts)"
proof -
  have "0 \<le> claims_of i cs" "0 \<le> batch_claims_of i cs" for i cs by simp_all
  then show "(c, t) \<in> set ts \<Longrightarrow> 0 < claims_of (c_instance_id c) (map fst ts)"
    "(c, t) \<in> set ts \<Longrightarrow> c_priority c = Batch \<Longrightarrow> 0 < batch_claims_of (c_instance_id c) (map fst ts)"
    by (induction ts) (auto simp: claims_of_Cons intro: add_nonneg_pos add_pos_nonneg)
qed

lemma register_task_tasks [simp]: "tasks_of (register_task now c d) = tasks_of d @ [c]"
  by (simp add: tasks_of_def register_task_def Let_def measure_out_def)

lemma register_tasks_tasks [simp]: "tasks_of (fold (register_task now) cs d) = tasks_of d @ cs"
  by (induction cs arbitrary: d) simp_all

lemma register_task_counters: "counters_ok d \<Longrightarrow> counters_ok (register_task now c d)"
  unfolding counters_ok_def register_task_tasks
  by (auto simp: register_task_def Let_def measure_out_def count_of_bump claims_of_Cons)

lemma register_tasks_counters: "counters_ok d \<Longrightarrow> counters_ok (fold (register_task now) cs d)"
  by (induction cs arbitrary: d) (simp_all add: register_task_counters)

lemma settle_task_tasks:
  assumes "(c, Written) \<in> set (d_tasks d)"
  shows "claims_of i (tasks_of (settle_task c d)) = claims_of i (tasks_of d) - (if c_instance_id c = i then 1 else 0)"
    "batch_claims_of i (tasks_of (settle_task c d)) =
       batch_claims_of i (tasks_of d) - (if c_instance_id c = i \<and> c_priority c = Batch then 1 else 0)"
  using claims_of_remove1 [OF assms] by (simp_all add: tasks_of_def settle_task_def)

lemma settle_task_counters:
  assumes "counters_ok d" "(c, Written) \<in> set (d_tasks d)"
  shows "counters_ok (settle_task c d)"
proof -
  have r: "0 < count_of (d_running d) (c_instance_id c)"
    "c_priority c = Batch \<Longrightarrow> 0 < count_of (d_runningBatch d) (c_instance_id c)"
    using assms(1) claims_of_mem [OF assms(2)] by (simp_all add: counters_ok_def tasks_of_def)
  have "count_of (d_running (settle_task c d)) i = claims_of i (tasks_of (settle_task c d))"
    "count_of (d_runningBatch (settle_task c d)) i = batch_claims_of i (tasks_of (settle_task c d))" for i
    unfolding settle_task_tasks [OF assms(2)] using assms(1) r
    by (auto simp: settle_task_def count_of_drop_one counters_ok_def)
  then show ?thesis by (simp add: counters_ok_def)
qed

section \<open>The configuration cache\<close>

lemma config_key_inject: "config_key i rt = config_key j rt' \<longleftrightarrow> i = j \<and> mutationConcurrency rt = mutationConcurrency rt'"
proof
  have no: "CHR '':'' \<notin> set (int_to_string n)" for n
    using int_to_string_chars [of "CHR '':''" n] by (auto simp: is_digit_def char_code_def)
  assume "config_key i rt = config_key j rt'"
  then have "i @ [CHR '':''] @ int_to_string (mutationConcurrency rt)
      = j @ [CHR '':''] @ int_to_string (mutationConcurrency rt')" by (simp add: config_key_def)
  from append_last_sep_inject [OF this no no]
  show "i = j \<and> mutationConcurrency rt = mutationConcurrency rt'" by (simp add: int_to_string_inject)
qed (simp add: config_key_def)

text \<open>What \<open>configOf\<close> answers without a cache.\<close>

definition resolved_config :: "'l disp_env \<Rightarrow> string \<Rightarrow> scheduling_error + instance_config option" where
  "resolved_config env i =
     (case runtimeOf env i of
        None \<Rightarrow> Inr None
      | Some rt \<Rightarrow>
          (case resolveSchedulingConfig (schedulingOf env i) (mutationConcurrency rt) of
             Inl e \<Rightarrow> Inl e
           | Inr sc \<Rightarrow> Inr (Some \<lparr> ic_runtime = rt, ic_scheduling = sc \<rparr>)))"

definition cache_for :: "'l disp_env \<Rightarrow> (string \<rightharpoonup> instance_config) \<Rightarrow> bool" where
  "cache_for env cache =
     (\<forall>i rt cfg. runtimeOf env i = Some rt \<longrightarrow> cache (config_key i rt) = Some cfg \<longrightarrow>
        resolved_config env i = Inr (Some cfg))"

lemma cache_for_empty [simp]: "cache_for env Map.empty"
  by (simp add: cache_for_def)

lemma configOf_resolves:
  assumes "cache_for env cache"
  shows "fst (configOf env i cache) = resolved_config env i \<and> cache_for env (snd (configOf env i cache))"
proof (cases "runtimeOf env i")
  case None
  then show ?thesis using assms by (simp add: configOf_def resolved_config_def)
next
  case (Some rt)
  show ?thesis
  proof (cases "cache (config_key i rt)")
    case (Some cfg)
    then show ?thesis using assms \<open>runtimeOf env i = Some rt\<close> by (simp add: configOf_def cache_for_def)
  next
    case None
    show ?thesis
    proof (cases "resolveSchedulingConfig (schedulingOf env i) (mutationConcurrency rt)")
      case (Inl e)
      then show ?thesis using assms None \<open>runtimeOf env i = Some rt\<close>
        by (simp add: configOf_def resolved_config_def)
    next
      case (Inr sc)
      have "resolved_config env i = Inr (Some \<lparr> ic_runtime = rt, ic_scheduling = sc \<rparr>)"
        using Inr Some by (simp add: resolved_config_def)
      then show ?thesis using assms None Inr Some
        by (auto simp: configOf_def Let_def cache_for_def config_key_inject)
    qed
  qed
qed

section \<open>Availability\<close>

definition total_budget :: "'l disp_env \<Rightarrow> string \<Rightarrow> int" where
  "total_budget env i = (case runtimeOf env i of None \<Rightarrow> 0 | Some rt \<Rightarrow> max 0 (mutationConcurrency rt))"

definition batch_budget :: "'l disp_env \<Rightarrow> string \<Rightarrow> int" where
  "batch_budget env i =
     (case resolved_config env i of
        Inr (Some cfg) \<Rightarrow> max 0 (batchSlots (ic_scheduling cfg)) | _ \<Rightarrow> 0)"

text \<open>Work in hand is within the budgets; an offer on top of it fits them.\<close>

definition in_budget :: "'l disp_env \<Rightarrow> claimed_op list \<Rightarrow> bool" where
  "in_budget env cs =
     (\<forall>i. claims_of i cs \<le> total_budget env i \<and> batch_claims_of i cs \<le> batch_budget env i)"

definition fits :: "'l disp_env \<Rightarrow> claimed_op list \<Rightarrow> avail \<Rightarrow> bool" where
  "fits env cs av =
     (distinct (map fst av) \<and>
      (\<forall>i a. map_of av i = Some a \<longrightarrow>
         claims_of i cs + totalFree a \<le> total_budget env i \<and>
         0 < totalFree a \<and> 0 \<le> batchFree a \<and> batchFree a \<le> totalFree a \<and>
         batch_claims_of i cs + batchFree a \<le> batch_budget env i))"

text \<open>What an availability computation may write.\<close>

definition same_work :: "'l disp \<Rightarrow> 'l disp \<Rightarrow> bool" where
  "same_work d d' =
     (d_running d' = d_running d \<and> d_runningBatch d' = d_runningBatch d \<and> d_tasks d' = d_tasks d \<and>
      d_activeLanes d' = d_activeLanes d \<and> d_phase d' = d_phase d \<and> d_stopped d' = d_stopped d)"

lemma same_work_refl [simp]: "same_work d d"
  by (simp add: same_work_def)

lemma same_work_trans [trans]: "same_work d e \<Longrightarrow> same_work e f \<Longrightarrow> same_work d f"
  by (simp add: same_work_def)

lemma rate_limit_same_work:
  "same_work d (snd (hasRateLimitTokens env now i cfg d))"
  "d_configCache (snd (hasRateLimitTokens env now i cfg d)) = d_configCache d"
  by (simp_all add: hasRateLimitTokens_def Let_def same_work_def split: option.splits prod.splits)

lemma resolved_config_Some:
  assumes "resolved_config env i = Inr (Some cfg)"
  shows "runtimeOf env i = Some (ic_runtime cfg)"
  using assms by (auto simp: resolved_config_def split: option.splits sum.splits)

lemma in_budget_batch: "in_budget env cs \<Longrightarrow> batch_claims_of i cs \<le> batch_budget env i"
  by (simp add: in_budget_def)

lemma slack_bound: "(x::int) \<le> max 0 b \<Longrightarrow> x + max 0 (min (b - x) t) \<le> max 0 b"
  by linarith

lemma availability_loop_ok:
  assumes "availability_loop env now is d out = (res, d')"
    and "cache_for env (d_configCache d)" "counters_ok d" "fits env (tasks_of d) out"
    and "in_budget env (tasks_of d)"
  shows "same_work d d' \<and> cache_for env (d_configCache d') \<and>
    (\<forall>av. res = Inr av \<longrightarrow> fits env (tasks_of d) av)"
  using assms
proof (induction "is" arbitrary: d out)
  case Nil
  then show ?case by auto
next
  case (Cons i "is")
  obtain r cache where c: "configOf env i (d_configCache d) = (r, cache)" by fastforce
  from configOf_resolves [OF Cons.prems(2), of i] c
  have r: "r = resolved_config env i" and cache: "cache_for env cache" by simp_all
  consider (err) e where "r = Inl e" | (none) "r = Inr None" | (cfg) cfg where "r = Inr (Some cfg)"
    by (metis Inl_Inr_False obj_sumE option.exhaust)
  then show ?case
  proof cases
    case err
    then show ?thesis using Cons.prems c by auto
  next
    case none
    then show ?thesis using Cons.IH [OF _ Cons.prems(2-5)] Cons.prems(1) c by simp
  next
    case (cfg cfg)
    let ?d1 = "d\<lparr>d_configCache := cache\<rparr>"
    let ?total = "mutationConcurrency (ic_runtime cfg) - count_of (d_running d) i"
    have w1: "same_work d ?d1" "tasks_of ?d1 = tasks_of d" "counters_ok ?d1"
      using Cons.prems(3) by (simp_all add: same_work_def tasks_of_def counters_ok_def)
    show ?thesis
    proof (cases "?total \<le> 0")
      case True
      then show ?thesis
        using Cons.IH [of ?d1 out] Cons.prems(1,4,5) c cfg cache w1 same_work_trans [OF w1(1)] by auto
    next
      case False
      obtain ok d2 where h: "hasRateLimitTokens env now i cfg ?d1 = (ok, d2)" by fastforce
      have w2: "same_work ?d1 d2" "d_configCache d2 = cache"
        using rate_limit_same_work [where d = ?d1 and env = env and now = now and i = i and cfg = cfg] h by simp_all
      have w: "same_work d d2" "tasks_of d2 = tasks_of d" "counters_ok d2"
        using w1 w2(1) by (simp_all add: same_work_def tasks_of_def counters_ok_def)
      show ?thesis
      proof (cases ok)
        case False
        then show ?thesis
          using Cons.IH [of d2 out] Cons.prems(1,4,5) c cfg cache w w2 h \<open>\<not> ?total \<le> 0\<close>
            same_work_trans [OF w(1)] by auto
      next
        case True
        let ?a = "\<lparr> batchFree = max 0 (min (batchSlots (ic_scheduling cfg) - count_of (d_runningBatch d2) i) ?total),
                    totalFree = ?total \<rparr>"
        have rc: "resolved_config env i = Inr (Some cfg)" using r cfg by simp
        have bb: "batch_budget env i = max 0 (batchSlots (ic_scheduling cfg))"
          "total_budget env i = max 0 (mutationConcurrency (ic_runtime cfg))"
          using rc resolved_config_Some [OF rc] by (simp_all add: batch_budget_def total_budget_def)
        have "batch_claims_of i (tasks_of d) \<le> max 0 (batchSlots (ic_scheduling cfg))"
          using in_budget_batch [OF Cons.prems(5), of i] bb by simp
        from slack_bound [OF this] have "fits env (tasks_of d) (AList.update i ?a out)"
          using Cons.prems(3,4) w(3) False bb
          by (auto simp: fits_def update_conv' distinct_update counters_ok_def w(2))
        moreover have "availability_loop env now is d2 (AList.update i ?a out) = (res, d')"
          using Cons.prems(1) c cfg h True False by (simp add: Let_def)
        ultimately have "same_work d2 d' \<and> cache_for env (d_configCache d') \<and>
            (\<forall>av. res = Inr av \<longrightarrow> fits env (tasks_of d2) av)"
          using cache w(2,3) w2(2) Cons.prems(5) by (intro Cons.IH) simp_all
        then show ?thesis using same_work_trans [OF w(1)] w(2) by simp
      qed
    qed
  qed
qed

lemma computeAvailability_ok:
  assumes "computeAvailability env now d = (res, d')"
    and "cache_for env (d_configCache d)" "counters_ok d" "in_budget env (tasks_of d)"
  shows "same_work d d' \<and> cache_for env (d_configCache d') \<and>
    (\<forall>av. res = Inr av \<longrightarrow> fits env (tasks_of d) av)"
proof (cases "registeredIds env = []")
  case True
  then show ?thesis using assms by (auto simp: computeAvailability_def fits_def)
next
  case False
  let ?d1 = "d\<lparr>d_roundRobinCursor := d_roundRobinCursor d + 1\<rparr>"
  have eq: "availability_loop env now (rotate_from (d_roundRobinCursor d) (registeredIds env)) ?d1 [] = (res, d')"
    using assms(1) False by (simp add: computeAvailability_def Let_def)
  have t: "tasks_of ?d1 = tasks_of d" by (simp add: tasks_of_def)
  have "same_work ?d1 d' \<and> cache_for env (d_configCache d') \<and>
      (\<forall>av. res = Inr av \<longrightarrow> fits env (tasks_of ?d1) av)"
    by (rule availability_loop_ok [OF eq]) (use assms in \<open>simp_all add: t counters_ok_def fits_def\<close>)
  then show ?thesis by (simp add: t same_work_def)
qed

section \<open>The invariant of a dispatcher\<close>

fun phase_ok :: "'l disp_env \<Rightarrow> claimed_op list \<Rightarrow> cycle_phase \<Rightarrow> bool" where
  "phase_ok env ts (Ready t av) = fits env ts av"
| "phase_ok env ts (Claimed t cs) = in_budget env (ts @ cs)"
| "phase_ok env ts Idle = True"
| "phase_ok env ts (Started t) = True"
| "phase_ok env ts (Reaped t) = True"

definition disp_ok :: "'l disp_env \<Rightarrow> 'l disp \<Rightarrow> bool" where
  "disp_ok env d =
     (counters_ok d \<and> cache_for env (d_configCache d) \<and> in_budget env (tasks_of d) \<and>
      phase_ok env (tasks_of d) (d_phase d))"

text \<open>Fields the invariant does not read.\<close>

definition same_core :: "'l disp \<Rightarrow> 'l disp \<Rightarrow> bool" where
  "same_core d d' =
     (d_running d' = d_running d \<and> d_runningBatch d' = d_runningBatch d \<and>
      d_tasks d' = d_tasks d \<and> d_phase d' = d_phase d \<and> d_configCache d' = d_configCache d)"

lemma disp_ok_core: "same_core d d' \<Longrightarrow> disp_ok env d \<Longrightarrow> disp_ok env d'"
  by (simp add: same_core_def disp_ok_def counters_ok_def tasks_of_def)

lemma disp_ok_phase:
  "disp_ok env d \<Longrightarrow> p \<in> {Idle, Started t, Reaped t} \<Longrightarrow> disp_ok env (d\<lparr>d_phase := p\<rparr>)"
  by (auto simp: disp_ok_def counters_ok_def tasks_of_def)

lemma disp_ok_cache:
  "disp_ok env d \<Longrightarrow> cache_for env cache \<Longrightarrow> disp_ok env (d\<lparr>d_configCache := cache\<rparr>)"
  by (auto simp: disp_ok_def counters_ok_def tasks_of_def)

lemma new_dispatcher_ok [simp]: "disp_ok env new_dispatcher"
  by (auto simp: disp_ok_def new_dispatcher_def counters_ok_def tasks_of_def count_of_def in_budget_def
      total_budget_def batch_budget_def split: option.split sum.split)

lemma core_simps [simp]:
  "same_core d d" "same_core d (measure_out m d)" "same_core d (log_error e d)" "same_core d (count_reaped r d)"
  "same_core d (start d)" "same_core d (stop d)"
  by (simp_all add: same_core_def measure_out_def log_error_def count_reaped_def Let_def tasks_of_def
      start_def stop_def)

lemma same_core_trans: "same_core d e \<Longrightarrow> same_core e f \<Longrightarrow> same_core d f"
  by (simp add: same_core_def)

lemma phase_measure_log [simp]:
  "d_phase (measure_out m d) = d_phase d" "d_phase (log_error e d) = d_phase d"
  "d_stopped (measure_out m d) = d_stopped d" "d_stopped (log_error e d) = d_stopped d"
  "d_phase (count_reaped r d) = d_phase d"
  by (simp_all add: measure_out_def log_error_def count_reaped_def Let_def)

lemma begin_cycle_ok: "disp_ok env d \<Longrightarrow> disp_ok env (begin_cycle now d)"
  by (auto simp: begin_cycle_def intro: disp_ok_phase [where t = now])

lemma deadline_ceiling_cache:
  "cache_for env cache \<Longrightarrow> cache_for env (snd (deadline_ceiling env is cache n))"
proof (induction "is" arbitrary: cache n)
  case (Cons i "is")
  obtain r cache' where c: "configOf env i cache = (r, cache')" by fastforce
  then have "cache_for env cache'" using configOf_resolves [OF Cons.prems, of i] by simp
  with c Cons.IH show ?case by (auto split: sum.splits option.splits)
qed simp

lemma maybeReap_ok:
  assumes "disp_ok env d"
  shows "disp_ok env (fst (maybeReap env dc now dbnow fault acq d s)) \<and>
    d_phase (fst (maybeReap env dc now dbnow fault acq d s)) = d_phase d"
proof -
  let ?d0 = "d\<lparr>d_lastReapAt := now\<rparr>"
  obtain r cache where c: "deadline_ceiling env (registeredIds env) (d_configCache ?d0) 0 = (r, cache)"
    by fastforce
  have "cache_for env (d_configCache ?d0)" using assms by (simp add: disp_ok_def)
  from deadline_ceiling_cache [OF this, of "registeredIds env" 0] have cache: "cache_for env cache"
    by (simp only: c snd_conv)
  have "same_core d ?d0" by (simp add: same_core_def tasks_of_def)
  then have d1: "disp_ok env (?d0\<lparr>d_configCache := cache\<rparr>)"
    using disp_ok_cache [OF disp_ok_core [OF _ assms] cache] by blast
  show ?thesis
    using assms d1 c disp_ok_core [OF _ d1]
    by (auto simp: maybeReap_def readBackDelayCeilingMs_def Let_def
        split: sum.splits option.splits prod.splits)
qed

lemma reap_phase_ok: "disp_ok env d \<Longrightarrow> disp_ok env (fst (reap_phase env dc now dbnow fault acq d s))"
  using maybeReap_ok [of env d dc now dbnow fault acq s]
  by (auto simp: reap_phase_def intro: disp_ok_phase split: cycle_phase.split prod.split)

lemma gauge_core: "same_core d (fold (\<lambda>i d'. if faults i = None then gauge_backlog s i d' else d') is d)"
proof (induction "is" arbitrary: d)
  case (Cons i "is")
  have "same_core d (if faults i = None then gauge_backlog s i d else d)"
    by (simp add: gauge_backlog_def Let_def same_core_def measure_out_def tasks_of_def)
  from same_core_trans [OF this Cons.IH] show ?case by simp
qed simp

lemma sampleBacklog_core: "same_core d (sampleBacklog faults s av d)"
proof -
  have e: "same_core d (d\<lparr>d_backlogSampleCountdown := n\<rparr>)" for n
    by (simp add: same_core_def)
  have "same_core d (fold (\<lambda>i d'. if faults i = None then gauge_backlog s i d' else d') (map fst av)
      (d\<lparr>d_backlogSampleCountdown := BACKLOG_SAMPLE_EVERY_N_CYCLES\<rparr>))"
    by (rule same_core_trans [OF e gauge_core])
  then show ?thesis using e by (simp add: sampleBacklog_def Let_def)
qed

lemma availability_phase_ok:
  assumes "disp_ok env d"
  shows "disp_ok env (availability_phase env now faults s d)"
proof (cases "d_phase d")
  case (Reaped t)
  obtain res d' where c: "computeAvailability env now d = (res, d')" by fastforce
  have h: "cache_for env (d_configCache d)" "counters_ok d" "in_budget env (tasks_of d)"
    using assms by (simp_all add: disp_ok_def)
  from computeAvailability_ok [OF c h] have w: "same_work d d'" "cache_for env (d_configCache d')"
    and av: "\<And>av. res = Inr av \<Longrightarrow> fits env (tasks_of d) av" by simp_all
  have d': "counters_ok d'" "tasks_of d' = tasks_of d" "in_budget env (tasks_of d')"
    using w(1) h by (simp_all add: same_work_def counters_ok_def tasks_of_def)
  have idle: "disp_ok env (d'\<lparr>d_phase := Idle\<rparr>)"
    using w(2) d' by (auto simp: disp_ok_def counters_ok_def tasks_of_def)
  have ready: "disp_ok env (d'\<lparr>d_phase := Ready t av\<rparr>)" if "res = Inr av" for av
    using w(2) d' av [OF that] by (auto simp: disp_ok_def counters_ok_def tasks_of_def)
  show ?thesis
  proof (cases res)
    case (Inl e)
    then show ?thesis using Reaped c disp_ok_core [OF core_simps(3) idle] by (simp add: availability_phase_def)
  next
    case (Inr av)
    then show ?thesis using Reaped c idle ready [OF Inr] disp_ok_core [OF sampleBacklog_core ready [OF Inr]]
      by (auto simp: availability_phase_def split: list.split)
  qed
qed (use assms in \<open>simp_all add: availability_phase_def\<close>)

text \<open>The claim fills the offer through the store's interface.\<close>

lemma claim_phase_ok:
  assumes "disp_ok env d" "store_inv s"
  shows "disp_ok env (fst (claim_phase dc now dbnow held fault d s)) \<and>
    store_inv (snd (claim_phase dc now dbnow held fault d s))"
proof (cases "d_phase d")
  case (Ready t av)
  let ?lanes = "fst (excludedLanes now d)"
  let ?d1 = "snd (excludedLanes now d)"
  let ?cs = "fst (claimBatch dbnow held (claimBatchSize dc) ?lanes av s)"
  have core: "same_core d ?d1"
    by (simp add: excludedLanes_def Let_def prune_deferred_def same_core_def tasks_of_def)
  have d1: "disp_ok env ?d1" by (rule disp_ok_core [OF core assms(1)])
  have f: "fits env (tasks_of d) av" "in_budget env (tasks_of d)" using assms(1) Ready by (simp_all add: disp_ok_def)
  have "claims_of i (tasks_of d) + claims_of i ?cs \<le> total_budget env i" for i
    using sql.claim_within_budget [OF assms(2), of av "\<lambda>i. claims_of i (tasks_of d)" i "total_budget env"
        "(dbnow, held)" "claimBatchSize dc" ?lanes] f
    by (simp add: fits_def in_budget_def)
  moreover have "batch_claims_of i (tasks_of d) + batch_claims_of i ?cs \<le> batch_budget env i" for i
    using sql.claim_within_batch_budget [OF assms(2), of av "\<lambda>i. batch_claims_of i (tasks_of d)" i
        "batch_budget env" "(dbnow, held)" "claimBatchSize dc" ?lanes] f
    by (simp add: fits_def in_budget_def)
  ultimately have "in_budget env (tasks_of d @ ?cs)" by (simp add: in_budget_def)
  then have claimed: "disp_ok env (?d1\<lparr>d_phase := Claimed t ?cs\<rparr>)"
    using d1 core by (auto simp: disp_ok_def counters_ok_def tasks_of_def same_core_def)
  have idle: "disp_ok env (log_error e (?d1\<lparr>d_phase := Idle\<rparr>))" for e
    by (rule disp_ok_core [OF core_simps(3)]) (rule disp_ok_phase [OF d1], simp)
  have inv: "store_inv (snd (claimBatch dbnow held (claimBatchSize dc) ?lanes av s))"
    by (rule claimBatch_inv [OF assms(2)])
  show ?thesis using Ready claimed idle inv assms(2)
    by (auto simp: claim_phase_def split: prod.splits option.splits)
qed (use assms in \<open>simp_all add: claim_phase_def\<close>)

lemma register_phase_ok:
  assumes "disp_ok env d"
  shows "disp_ok env (snd (register_phase now d))"
proof (cases "d_phase d")
  case (Claimed t cs)
  let ?m = "measure_out (Counter CLAIMED (int (length cs)) []) (measure_out (Histogram CLAIM_CYCLE_MS (now - t) []) d)"
  have core: "same_core d ?m" by (blast intro: same_core_trans core_simps)
  have m: "counters_ok ?m" "tasks_of ?m = tasks_of d" "cache_for env (d_configCache ?m)"
    "in_budget env (tasks_of d @ cs)"
    using assms core Claimed by (simp_all add: disp_ok_def same_core_def counters_ok_def tasks_of_def)
  have cache: "d_configCache (fold (register_task now) cs e) = d_configCache e" for e
    by (induction cs arbitrary: e) (simp_all add: register_task_def Let_def measure_out_def)
  have "counters_ok (fold (register_task now) cs ?m)" by (rule register_tasks_counters [OF m(1)])
  then have "disp_ok env ((fold (register_task now) cs ?m)\<lparr>d_phase := Idle\<rparr>)"
    using m cache [of ?m] register_tasks_tasks [of now cs ?m]
    by (simp add: disp_ok_def counters_ok_def tasks_of_def)
  then show ?thesis using Claimed by (simp add: register_phase_def)
qed (use assms in \<open>simp_all add: register_phase_def\<close>)

section \<open>Tasks\<close>

lemma map_replace_first: "f x = f y \<Longrightarrow> map f (replace_first x y zs) = map f zs"
  by (induction zs) auto

lemma tasks_of_replace [simp]:
  "tasks_of (d\<lparr>d_tasks := replace_first (c, t) (c, t') (d_tasks d)\<rparr>) = tasks_of d"
  by (simp add: tasks_of_def map_replace_first)

lemma disp_ok_replace:
  assumes "disp_ok env d"
  shows "disp_ok env (d\<lparr>d_tasks := replace_first (c, t) (c, t') (d_tasks d)\<rparr>)"
  using assms by (simp add: disp_ok_def counters_ok_def tasks_of_def map_replace_first)

lemma in_budget_mono:
  assumes "in_budget env cs"
    and "\<And>i. claims_of i ds \<le> claims_of i cs \<and> batch_claims_of i ds \<le> batch_claims_of i cs"
  shows "in_budget env ds"
  using assms unfolding in_budget_def by (meson order_trans)

lemma fits_mono:
  assumes "fits env cs av"
    and "\<And>i. claims_of i ds \<le> claims_of i cs \<and> batch_claims_of i ds \<le> batch_claims_of i cs"
  shows "fits env ds av"
  using assms unfolding fits_def by (meson add_right_mono order_trans)

lemma conclude_ok:
  assumes "disp_ok env d" "conclude env dc now acq c d = (calls, t, d')"
  shows "disp_ok env d' \<and> d_tasks d' = d_tasks d"
proof (cases acq)
  case (Inr fac)
  obtain r cache where cfg: "configOf env (c_instance_id c) (d_configCache d) = (r, cache)" by fastforce
  have "cache_for env cache"
    using configOf_resolves [of env "d_configCache d" "c_instance_id c"] assms(1) cfg by (simp add: disp_ok_def)
  from disp_ok_cache [OF assms(1) this] have d1: "disp_ok env (d\<lparr>d_configCache := cache\<rparr>)" .
  then show ?thesis
    using assms(2) Inr cfg disp_ok_core [OF core_simps(3) d1]
    by (auto simp: conclude_def log_error_def split: sum.splits prod.splits)
qed (use assms in \<open>simp add: conclude_def\<close>)

lemma attempt_task_ok:
  assumes "disp_ok env d"
  shows "disp_ok env (snd (attempt_task env dc now acq c d))"
proof -
  obtain calls t d' where eq: "conclude env dc now acq c d = (calls, t, d')" by (metis prod_cases3)
  from conclude_ok [OF assms eq] have "disp_ok env d'" by simp
  then show ?thesis using disp_ok_replace [of env d' c Dispatched t] by (simp add: attempt_task_def eq)
qed

lemma safeRequeue_core: "same_core d (fst (safeRequeue fault i d s))"
  by (simp add: safeRequeue_def split: option.split)

lemma dispatch_finalize_core: "same_core d (fst (dispatch_finalize now dbnow fault c r d s))"
proof -
  have lane: "same_core d (d\<lparr>d_laneDeferredUntil := x\<rparr>)" for d x by (simp add: same_core_def)
  show ?thesis
    by (auto simp: dispatch_finalize_def Let_def split: verdict.split option.split
        intro!: same_core_trans [OF _ safeRequeue_core] intro: same_core_trans [OF lane] same_core_trans core_simps)
qed

lemma write_back_core: "same_core d (fst (write_back now dbnow fault c t d s))"
proof (cases t)
  case (Concluded startedAt r)
  have "same_core d (fst (dispatch_finalize now dbnow fault c r d s))" by (rule dispatch_finalize_core)
  then show ?thesis using Concluded
    by (auto simp: write_back_def split: option.split prod.split intro: same_core_trans [OF _ core_simps(2)])
qed (simp_all add: write_back_def)

lemma write_task_ok:
  assumes "disp_ok env d"
  shows "disp_ok env (fst (write_task now dbnow fault c t d s))"
proof -
  have "disp_ok env (fst (write_back now dbnow fault c t d s))"
    by (rule disp_ok_core [OF write_back_core assms])
  moreover obtain d1 s1 where "write_back now dbnow fault c t d s = (d1, s1)" by fastforce
  ultimately show ?thesis using disp_ok_replace [of env d1 c t Written] by (simp add: write_task_def)
qed

lemma settle_task_ok:
  assumes "disp_ok env d" "(c, Written) \<in> set (d_tasks d)"
  shows "disp_ok env (settle_task c d)"
proof -
  have le: "claims_of i (tasks_of (settle_task c d)) \<le> claims_of i (tasks_of d)"
    "batch_claims_of i (tasks_of (settle_task c d)) \<le> batch_claims_of i (tasks_of d)" for i
    unfolding settle_task_tasks [OF assms(2)] by simp_all
  have "phase_ok env (tasks_of (settle_task c d)) (d_phase d)"
  proof (cases "d_phase d")
    case (Ready t av)
    then have "fits env (tasks_of d) av" using assms(1) by (simp add: disp_ok_def)
    then have "fits env (tasks_of (settle_task c d)) av" by (rule fits_mono) (simp add: le)
    then show ?thesis using Ready by simp
  next
    case (Claimed t cs)
    then have "in_budget env (tasks_of d @ cs)" using assms(1) by (simp add: disp_ok_def)
    then have "in_budget env (tasks_of (settle_task c d) @ cs)"
      by (rule in_budget_mono) (simp add: le)
    then show ?thesis using Claimed by simp
  qed simp_all
  moreover have "in_budget env (tasks_of (settle_task c d))"
    using assms(1) le in_budget_mono unfolding disp_ok_def by blast
  ultimately show ?thesis
    using settle_task_counters [OF _ assms(2)] assms(1) by (simp add: disp_ok_def) (simp add: settle_task_def)
qed

section \<open>Properties\<close>

lemma runCycle_ok:
  assumes "disp_ok env d" "store_inv s" "runCycle env dc now dbnow held acq d s = (n, d', s')"
  shows "disp_ok env d' \<and> store_inv s'"
proof (cases "d_phase d \<noteq> Idle \<or> d_stopped d")
  case True
  then show ?thesis using assms by (simp add: runCycle_def)
next
  case False
  obtain d1 s1 where 1: "reap_phase env dc now dbnow None acq (begin_cycle now d) s = (d1, s1)" by fastforce
  obtain d2 s2 where 2: "claim_phase dc now dbnow held None (availability_phase env now (\<lambda>_. None) s1 d1) s1 = (d2, s2)"
    by fastforce
  have "disp_ok env d1"
    using reap_phase_ok [OF begin_cycle_ok [OF assms(1), of now], of dc now dbnow None acq s] 1 by simp
  moreover have "store_inv s1"
    using 1 reapStale_inv [OF assms(2)] assms(2)
    by (auto simp: reap_phase_def maybeReap_def split: cycle_phase.splits sum.splits prod.splits if_splits)
      (metis snd_conv)+
  ultimately have "disp_ok env d2 \<and> store_inv s2"
    using claim_phase_ok [OF availability_phase_ok, of env d1 s1 dc now dbnow held None now "\<lambda>_. None" s1] 2 by simp
  then show ?thesis
    using assms(3) False 1 2 register_phase_ok [of env d2 now] by (auto simp: runCycle_def split: prod.splits)
qed

definition example_runtime :: core_runtime where
  "example_runtime = \<lparr> attemptDeadlineMs = (\<lambda>_. 3000), mutationConcurrency = 10 \<rparr>"

definition example_env :: "unit disp_env" where
  "example_env =
     \<lparr> registeredIds = [''ad''], runtimeOf = (\<lambda>i. if i = ''ad'' then Some example_runtime else None),
       capabilitiesOf = (\<lambda>_. \<lparr> equalitySearchOnName = True, idempotentDelta = False \<rparr>),
       schedulingOf = (\<lambda>_. None), newLimiter = (\<lambda>_ _. ()), tryConsume = (\<lambda>_ _. (True, ())),
       failureText = (\<lambda>_. ''failed'') \<rparr>"

text \<open>A claim cycle keeps the dispatcher within its budgets: from a consistent dispatcher and a
  well-formed table, after a whole cycle no instance has more attempts in flight than its mutation
  concurrency, nor more batch attempts than its batch slots, whatever was already running when the
  cycle began; and the counters are again the counts of the attempts in flight.\<close>

theorem cycle_within_budget:
  assumes "disp_ok env d" "store_inv s" "runCycle env dc now dbnow held acq d s = (n, d', s')"
  shows "claims_of i (tasks_of d') \<le> total_budget env i \<and>
    batch_claims_of i (tasks_of d') \<le> batch_budget env i \<and>
    count_of (d_running d') i = claims_of i (tasks_of d') \<and>
    count_of (d_runningBatch d') i = batch_claims_of i (tasks_of d') \<and> store_inv s'"
  using runCycle_ok [OF assms] by (simp add: disp_ok_def counters_ok_def in_budget_def)

theorem cycle_within_budget_witness:
  "\<exists>n d' s'. runCycle example_env DEFAULTS 60000 60000000 [] True new_dispatcher (empty_store [0]) = (n, d', s') \<and>
     claims_of ''ad'' (tasks_of d') \<le> 10"
proof -
  obtain n d' s' where
    eq: "runCycle example_env DEFAULTS 60000 60000000 [] True new_dispatcher (empty_store [0]) = (n, d', s')"
    by (metis prod_cases3)
  have "total_budget example_env ''ad'' = 10"
    by (simp add: total_budget_def example_env_def example_runtime_def)
  with cycle_within_budget [OF new_dispatcher_ok store_inv_empty eq, of "''ad''"] eq show ?thesis by auto
qed

text \<open>The configuration cache is transparent: while the registry and the scheduling settings stay as
  they are, \<open>configOf\<close> answers through the cache what it would resolve afresh, for every instance,
  and leaves a cache of which the same holds; two instances never share an entry.\<close>

theorem config_cache_transparent:
  assumes "cache_for env cache"
  shows "fst (configOf env i cache) = resolved_config env i \<and>
    cache_for env (snd (configOf env i cache)) \<and>
    fst (configOf env j (snd (configOf env i cache))) = resolved_config env j"
  using configOf_resolves [OF assms, of i]
    configOf_resolves [of env "snd (configOf env i cache)" j] by simp

theorem config_cache_transparent_witness:
  "fst (configOf example_env ''ad'' (snd (configOf example_env ''hr'' Map.empty))) = resolved_config example_env ''ad''"
  using config_cache_transparent [OF cache_for_empty, of example_env "''hr''" "''ad''"] by simp

text \<open>A changed configuration is not noticed as long as the mutation budget stays the same: after one
  lookup, the lookup in any other environment that registers the instance with the same budget,
  whatever its deadlines, slice and rate limits, answers the first configuration.\<close>

theorem changed_scheduling_unnoticed:
  assumes "configOf env i cache = (Inr (Some cfg), cache')" "runtimeOf env i = Some rt"
    and "runtimeOf env' i = Some rt'" "mutationConcurrency rt' = mutationConcurrency rt"
  shows "configOf env' i cache' = (Inr (Some cfg), cache')"
proof -
  have "cache' (config_key i rt) = Some cfg"
    using assms(1,2) by (auto simp: configOf_def Let_def split: option.splits sum.splits)
  moreover have "config_key i rt' = config_key i rt" using assms(4) by (simp add: config_key_def)
  ultimately show ?thesis using assms(3) by (simp add: configOf_def)
qed

definition one_slot :: "int \<Rightarrow> core_runtime" where
  "one_slot ms = \<lparr> attemptDeadlineMs = (\<lambda>_. ms), mutationConcurrency = 1 \<rparr>"

definition env_with :: "core_runtime \<Rightarrow> unit disp_env" where
  "env_with rt = example_env\<lparr>runtimeOf := (\<lambda>_. Some rt)\<rparr>"

theorem changed_scheduling_unnoticed_witness:
  "\<exists>cfg cache. attemptDeadlineMs (ic_runtime cfg) K_create = 3000 \<and>
     configOf (env_with (one_slot 3000)) ''ad'' Map.empty = (Inr (Some cfg), cache) \<and>
     configOf (env_with (one_slot 9000)) ''ad'' cache = (Inr (Some cfg), cache)"
proof -
  obtain cfg cache where cfg: "configOf (env_with (one_slot 3000)) ''ad'' Map.empty = (Inr (Some cfg), cache)"
    "ic_runtime cfg = one_slot 3000"
    by (simp add: configOf_def env_with_def example_env_def resolve_default Let_def)
  have "configOf (env_with (one_slot 9000)) ''ad'' cache = (Inr (Some cfg), cache)"
    by (rule changed_scheduling_unnoticed [OF cfg(1), where rt = "one_slot 3000" and rt' = "one_slot 9000"]) (simp_all add: env_with_def one_slot_def)
  with cfg show ?thesis by (auto simp: one_slot_def)
qed

section \<open>Backoff\<close>

lemma map_of_filter_mem:
  "map_of xs k = Some v \<Longrightarrow> P (k, v) \<Longrightarrow> k \<in> set (map fst (filter P xs))"
  by (induction xs) (auto split: if_splits)

lemma excluded_deferred:
  assumes "map_of (d_laneDeferredUntil d) lane = Some until" "now < until"
  shows "lane \<in> set (fst (excludedLanes now d))"
  using map_of_filter_mem [OF assms(1), of "\<lambda>(lane, until). now < until"] assms(2)
  by (simp add: excludedLanes_def Let_def prune_deferred_def)


definition retry_later :: resolution where
  "retry_later = again REQUEUE ''CONNECTION_FAILED'' 1000"

definition idle_claim :: claimed_op where
  "idle_claim =
     \<lparr> c_id = ''op'', c_instance_id = ''ad'', c_object_class = ''user'', c_op_type = DELETE,
       c_priority = Batch, c_lane_key = ''uid:user:u1'', c_uid = Some ''u1'',
       c_name_attr_value = None, c_attrs = None, c_attempt_count = 0, c_created_at = 0,
       c_idempotency_key = ''k'', c_prior_status = Pend PENDING \<rparr>"


section \<open>Turns\<close>

text \<open>Turns rotate: with \<open>n\<close> registered instances every cycle offers each of them exactly once,
  in the registry's order started at the next instance, so that in \<open>n\<close> consecutive cycles each
  instance is offered first once.\<close>

theorem turns_rotate:
  assumes "ids \<noteq> []"
  shows "hd (rotate_from k ids) = ids ! (k mod length ids) \<and>
    set (rotate_from k ids) = set ids \<and> length (rotate_from k ids) = length ids \<and>
    (\<forall>x\<in>set ids. \<exists>m. k \<le> m \<and> m < k + length ids \<and> hd (rotate_from m ids) = x)"
proof -
  have l: "0 < length ids" using assms by simp
  have hd: "hd (rotate_from m ids) = ids ! (m mod length ids)" for m
  proof -
    have m: "m mod length ids < length ids" using l by simp
    then have "drop (m mod length ids) ids \<noteq> []" by simp
    then show ?thesis using hd_drop_conv_nth [OF m] by (simp add: rotate_from_def Let_def hd_append del: drop_eq_Nil)
  qed
  have s: "set (rotate_from m ids) = set ids" "length (rotate_from m ids) = length ids" for m
    using l by (simp_all add: rotate_from_def Let_def)
      (metis append_take_drop_id set_append sup_commute)
  have "\<exists>m. k \<le> m \<and> m < k + length ids \<and> hd (rotate_from m ids) = x" if "x \<in> set ids" for x
  proof -
    from that obtain j where j: "j < length ids" "ids ! j = x" by (auto simp: in_set_conv_nth)
    let ?n = "length ids"
    let ?m = "k + (j + ?n - k mod ?n) mod ?n"
    have "?m mod ?n = (k mod ?n + (j + ?n - k mod ?n)) mod ?n" by presburger
    also have "k mod ?n + (j + ?n - k mod ?n) = j + ?n" using mod_less_divisor [OF l, of k] by linarith
    also have "(j + ?n) mod ?n = j" using j(1) by simp
    finally have "hd (rotate_from ?m ids) = x" using hd j(2) by simp
    moreover have "?m < k + ?n" using l by simp
    ultimately show ?thesis by (intro exI [of _ ?m]) simp
  qed
  with hd s show ?thesis by blast
qed

theorem turns_rotate_witness: "hd (rotate_from 4 [''a'', ''b'', ''c'']) = ''b''"
  using turns_rotate [of "[''a'', ''b'', ''c'']" 4] by simp

end
