(* ===== verification/Partition_Maintainer.thy ===== *)
theory Partition_Maintainer
  imports Metrics Store_Contract Admission
begin

text \<open>
  \<open>src/ops/PartitionMaintainer.ts\<close> with the two functions of \<open>sql/schema.sql\<close> it calls: creation of
  the coming days' partitions, the gated drop of those past retention, the days-ahead gauge. A pass
  is one transaction. \<open>day_text\<close> stands for the database's \<open>to_char\<close> of a date.
\<close>

section \<open>Partitions (sql/schema.sql)\<close>

definition create_operations_partition :: "int \<Rightarrow> op_store \<Rightarrow> op_store" where
  "create_operations_partition day s =
     (if day \<in> set (partitions s) then s else s\<lparr>partitions := partitions s @ [day]\<rparr>)"

definition in_day :: "int \<Rightarrow> op_row \<Rightarrow> bool" where
  "in_day day r = (day_of (r_created_at r) = day)"

definition live_rows :: "int \<Rightarrow> op_store \<Rightarrow> nat" where
  "live_rows day s = count_where (\<lambda>r. in_day day r \<and> \<not> terminal (r_status r)) s"

definition drop_operations_partition :: "int \<Rightarrow> op_store \<Rightarrow> bool \<times> op_store" where
  "drop_operations_partition day s =
     (if day \<notin> set (partitions s) then (False, s)
      else if 0 < live_rows day s then (False, s)
      else (True, s\<lparr>rows := filter (\<lambda>r. \<not> in_day day r) (rows s),
                    partitions := removeAll day (partitions s)\<rparr>))"

section \<open>The maintainer\<close>

datatype pm_log = Retained string nat | PassFailed string

record maintainer =
  retentionDays :: int
  lookaheadDays :: int
  intervalMs :: int
  daysAheadProbeCap :: int
  pm_timer :: bool
  pm_stopped :: bool
  pm_metrics :: "metric list"
  pm_log :: "pm_log list"

definition new_maintainer :: "int \<Rightarrow> int option \<Rightarrow> int option \<Rightarrow> int option \<Rightarrow> maintainer" where
  "new_maintainer retention lookahead interval cap =
     \<lparr> retentionDays = retention,
       lookaheadDays = (case lookahead of None \<Rightarrow> 1 | Some n \<Rightarrow> n),
       intervalMs = (case interval of None \<Rightarrow> 3600000 | Some n \<Rightarrow> n),
       daysAheadProbeCap = (case cap of None \<Rightarrow> 30 | Some n \<Rightarrow> n),
       pm_timer = False, pm_stopped = False, pm_metrics = [], pm_log = [] \<rparr>"

text \<open>\<open>generate_series\<close> over days.\<close>

definition days_from :: "int \<Rightarrow> int \<Rightarrow> int list" where
  "days_from today n = [today..today + n]"

definition ensure_partitions :: "int \<Rightarrow> int \<Rightarrow> op_store \<Rightarrow> op_store" where
  "ensure_partitions today n s = fold create_operations_partition (days_from today n) s"

definition drop_candidates :: "int \<Rightarrow> int \<Rightarrow> op_store \<Rightarrow> int list" where
  "drop_candidates today retention s =
     sort (remdups (filter (\<lambda>d. d < today - retention) (partitions s)))"

definition refuse_drop :: "(int \<Rightarrow> string) \<Rightarrow> int \<Rightarrow> op_store \<Rightarrow> maintainer \<Rightarrow> maintainer" where
  "refuse_drop day_text day s m =
     m\<lparr>pm_log := pm_log m @ [Retained (day_text day) (live_rows day s)],
       pm_metrics := pm_metrics m @ [Counter PARTITION_DROP_REFUSED 1 [(''day'', day_text day)]]\<rparr>"

fun drop_pass ::
  "(int \<Rightarrow> string) \<Rightarrow> int list \<Rightarrow> maintainer \<Rightarrow> op_store \<Rightarrow> maintainer \<times> op_store" where
  "drop_pass day_text [] m s = (m, s)"
| "drop_pass day_text (d # ds) m s =
     (case drop_operations_partition d s of
        (True, s') \<Rightarrow> drop_pass day_text ds m s'
      | (False, s') \<Rightarrow> drop_pass day_text ds (refuse_drop day_text d s' m) s')"

definition computeDaysAhead :: "int \<Rightarrow> int \<Rightarrow> op_store \<Rightarrow> int" where
  "computeDaysAhead today cap s =
     int (length (takeWhile (\<lambda>d. d \<in> set (partitions s)) (days_from today cap)))"

text \<open>Where a query of the pass rejects: the connection, before or at the candidate query, after
  some candidates, or at the probe or the commit. The transaction is rolled back; what was already
  measured or logged is not.\<close>

datatype pass_fault = AtConnect | BeforeDrops | AfterDrops nat | AtProbe | AtCommit

datatype pass_result = Resolved | Rejected string

definition pass_body ::
  "(int \<Rightarrow> string) \<Rightarrow> int \<Rightarrow> pass_fault option \<Rightarrow> maintainer \<Rightarrow> op_store \<Rightarrow> maintainer \<times> op_store" where
  "pass_body day_text today fault m s =
     (let s1 = ensure_partitions today (lookaheadDays m) s;
          cs = drop_candidates today (retentionDays m) s1;
          gauge = (\<lambda>s' m'. m'\<lparr>pm_metrics := pm_metrics m' @
                    [Gauge PARTITION_DAYS_AHEAD (computeDaysAhead today (daysAheadProbeCap m) s') []]\<rparr>)
      in case fault of
           None \<Rightarrow> (case drop_pass day_text cs m s1 of (m2, s2) \<Rightarrow> (gauge s2 m2, s2))
         | Some (AfterDrops n) \<Rightarrow> (fst (drop_pass day_text (take n cs) m s1), s)
         | Some AtProbe \<Rightarrow> (fst (drop_pass day_text cs m s1), s)
         | Some AtCommit \<Rightarrow> (case drop_pass day_text cs m s1 of (m2, s2) \<Rightarrow> (gauge s2 m2, s))
         | Some _ \<Rightarrow> (m, s))"

definition runPass ::
  "(int \<Rightarrow> string) \<Rightarrow> int \<Rightarrow> (pass_fault \<times> string) option \<Rightarrow> maintainer \<Rightarrow> op_store
     \<Rightarrow> pass_result \<times> maintainer \<times> op_store" where
  "runPass day_text now fault m s =
     (if pm_stopped m then (Resolved, m, s)
      else case fault of
             None \<Rightarrow> (Resolved, pass_body day_text (day_of now) None m s)
           | Some (AtConnect, msg) \<Rightarrow> (Rejected msg, m, s)
           | Some (f, msg) \<Rightarrow>
               (case pass_body day_text (day_of now) (Some f) m s of
                  (m', s') \<Rightarrow> (Resolved, m'\<lparr>pm_log := pm_log m' @ [PassFailed msg]\<rparr>, s')))"

text \<open>\<open>start\<close> runs a pass at once and arms the timer; \<open>stop\<close> disarms it.\<close>

definition pm_start ::
  "(int \<Rightarrow> string) \<Rightarrow> int \<Rightarrow> (pass_fault \<times> string) option \<Rightarrow> maintainer \<Rightarrow> op_store
     \<Rightarrow> pass_result \<times> maintainer \<times> op_store" where
  "pm_start day_text now fault m s =
     (if pm_timer m then (Resolved, m, s)
      else case runPass day_text now fault (m\<lparr>pm_stopped := False\<rparr>) s of
             (r, m', s') \<Rightarrow> (r, m'\<lparr>pm_timer := True\<rparr>, s'))"

definition pm_stop :: "maintainer \<Rightarrow> maintainer" where
  "pm_stop m = m\<lparr>pm_stopped := True, pm_timer := False\<rparr>"

section \<open>One partition\<close>

lemma create_partition_simps [simp]:
  "rows (create_operations_partition d s) = rows s"
  "history (create_operations_partition d s) = history s"
  "set (partitions (create_operations_partition d s)) = insert d (set (partitions s))"
  by (auto simp: create_operations_partition_def)

lemma status_at_cong:
  "rows s = rows t \<Longrightarrow> history s = history t \<Longrightarrow> status_at s i = status_at t i"
  by (simp add: status_at_def getStatus_def cong: option.case_cong)

lemma create_partition_inv:
  "store_inv s \<Longrightarrow> store_inv (create_operations_partition d s)"
  by (rule store_inv_restrict [where P = "\<lambda>_. True"]) (auto dest: inv_row)

lemma live_rows_zero:
  "live_rows d s = 0 \<longleftrightarrow> (\<forall>r\<in>set (rows s). in_day d r \<longrightarrow> terminal (r_status r))"
  by (auto simp: live_rows_def count_where_def filter_empty_conv)

lemma drop_partition_cases:
  obtains (dropped) s' where "drop_operations_partition d s = (True, s')" "live_rows d s = 0"
      "d \<in> set (partitions s)" "rows s' = filter (\<lambda>r. \<not> in_day d r) (rows s)"
      "history s' = history s" "partitions s' = removeAll d (partitions s)"
  | (kept) "drop_operations_partition d s = (False, s)" "d \<notin> set (partitions s) \<or> 0 < live_rows d s"
proof (cases "d \<in> set (partitions s) \<and> live_rows d s = 0")
  case True
  let ?t = "s\<lparr>rows := filter (\<lambda>r. \<not> in_day d r) (rows s), partitions := removeAll d (partitions s)\<rparr>"
  show ?thesis by (rule dropped [of ?t]) (use True in \<open>simp_all add: drop_operations_partition_def\<close>)
next
  case False
  then show ?thesis using kept by (auto simp: drop_operations_partition_def)
qed

lemma drop_partition_inv:
  assumes "store_inv s"
  shows "store_inv (snd (drop_operations_partition d s))"
proof (cases rule: drop_partition_cases [of d s])
  case (dropped s')
  then have "store_inv s'"
    using inv_row [OF assms] by (intro store_inv_restrict [OF assms]) (auto simp: in_day_def)
  with dropped show ?thesis by simp
qed (use assms in simp)

lemma drop_partition_status:
  assumes inv: "store_inv s"
  shows "status_at (snd (drop_operations_partition d s)) i = status_at s i"
proof (cases rule: drop_partition_cases [of d s])
  case (dropped s')
  have inv': "store_inv s'" using drop_partition_inv [OF inv, of d] dropped(1) by simp
  consider (bad) "\<not> isOperationId i"
    | (none) "isOperationId i" "\<forall>r\<in>set (rows s). \<not> has_id i r"
    | (row) r where "isOperationId i" "r \<in> set (rows s)" "has_id i r" by blast
  then have "status_at s' i = status_at s i"
  proof cases
    case bad
    then show ?thesis by (simp add: status_at_bad_id)
  next
    case none
    then show ?thesis using dropped by (simp add: status_at_no_row)
  next
    case row
    show ?thesis
    proof (cases "in_day d r")
      case False
      then show ?thesis using row dropped(4) status_at_row [OF inv row]
        status_at_row [OF inv' row(1) _ row(3)] by simp
    next
      case True
      have "terminal (r_status r)" using True row(2) dropped(2) by (simp add: live_rows_zero)
      then obtain h where h: "h \<in> set (history s)" "records h r"
        using inv_history [OF inv] row(2) by (auto simp: history_ok_def)
      have "\<forall>q\<in>set (rows s'). \<not> has_id i q"
      proof
        fix q assume "q \<in> set (rows s')"
        then have q: "q \<in> set (rows s)" "\<not> in_day d q" using dropped(4) by auto
        then have "q \<noteq> r" using True by blast
        then show "\<not> has_id i q" using inv_same_id [OF inv q(1) row(2)] row(3) by (auto simp: has_id_def)
      qed
      then have "status_at s' i = Some (h_status h)"
        using status_at_history [OF inv' row(1)] h row(3) dropped(5)
        by (auto simp: records_def has_id_def)
      then show ?thesis using status_at_row [OF inv row] h(2) by (simp add: records_def)
    qed
  qed
  with dropped(1) show ?thesis by simp
qed simp

section \<open>A pass\<close>

lemma ensure_simps [simp]:
  "rows (fold create_operations_partition ds s) = rows s"
  "history (fold create_operations_partition ds s) = history s"
  "set (partitions (fold create_operations_partition ds s)) = set ds \<union> set (partitions s)"
  by (induction ds arbitrary: s) auto

lemma ensure_inv: "store_inv s \<Longrightarrow> store_inv (fold create_operations_partition ds s)"
  by (induction ds arbitrary: s) (simp_all add: create_partition_inv)

text \<open>What a run of drops keeps: the invariant, every status, the days that were not candidates,
  the live rows; and what it removes: every candidate day without a live row.\<close>

lemma drop_pass_keeps:
  assumes "store_inv s"
  shows "store_inv (snd (drop_pass day_text ds m s)) \<and>
    status_at (snd (drop_pass day_text ds m s)) i = status_at s i \<and>
    history (snd (drop_pass day_text ds m s)) = history s \<and>
    set (partitions s) - set ds \<subseteq> set (partitions (snd (drop_pass day_text ds m s))) \<and>
    set (partitions (snd (drop_pass day_text ds m s))) \<subseteq> set (partitions s) \<and>
    filter (\<lambda>r. \<not> terminal (r_status r)) (rows (snd (drop_pass day_text ds m s)))
      = filter (\<lambda>r. \<not> terminal (r_status r)) (rows s)"
  using assms
proof (induction ds arbitrary: m s)
  case (Cons d ds)
  show ?case
  proof (cases rule: drop_partition_cases [of d s])
    case (dropped s')
    have inv': "store_inv s'" using drop_partition_inv [OF Cons.prems, of d] dropped(1) by simp
    have st: "status_at s' i = status_at s i"
      using drop_partition_status [OF Cons.prems, of d i] dropped(1) by simp
    have "filter (\<lambda>r. \<not> terminal (r_status r)) (rows s') = filter (\<lambda>r. \<not> terminal (r_status r)) (rows s)"
      using dropped(2) unfolding dropped(4) live_rows_zero filter_filter by (auto intro: filter_cong)
    with Cons.IH [OF inv', of m] dropped(1,5,6) st show ?thesis by auto
  next
    case kept
    with Cons.IH [OF Cons.prems, of "refuse_drop day_text d s m"] show ?thesis by auto
  qed
qed simp

lemma drop_pass_empties:
  assumes "store_inv s" "d \<in> set ds" "live_rows d s = 0"
  shows "d \<notin> set (partitions (snd (drop_pass day_text ds m s)))"
  using assms
proof (induction ds arbitrary: m s)
  case (Cons c ds)
  show ?case
  proof (cases rule: drop_partition_cases [of c s])
    case (dropped s')
    have inv': "store_inv s'" using drop_partition_inv [OF Cons.prems(1), of c] dropped(1) by simp
    show ?thesis
    proof (cases "d = c")
      case True
      then have "d \<notin> set (partitions s')" using dropped(6) by simp
      then show ?thesis using drop_pass_keeps [OF inv', of day_text ds m] dropped(1) by auto
    next
      case False
      have "live_rows d s' = 0" using Cons.prems(3) dropped(4) by (simp add: live_rows_zero)
      then show ?thesis using Cons.IH [OF inv'] Cons.prems(2) False dropped(1) by simp
    qed
  next
    case kept
    show ?thesis
    proof (cases "d = c")
      case True
      then have "d \<notin> set (partitions s)" using kept(2) Cons.prems(3) by simp
      then show ?thesis
        using drop_pass_keeps [OF Cons.prems(1), of day_text ds "refuse_drop day_text c s m"] kept(1) by auto
    next
      case False
      then show ?thesis using Cons.IH [OF Cons.prems(1) _ Cons.prems(3)] Cons.prems(2) kept(1) by simp
    qed
  qed
qed simp

lemma drop_pass_m:
  "retentionDays (fst (drop_pass day_text ds m s)) = retentionDays m"
  "lookaheadDays (fst (drop_pass day_text ds m s)) = lookaheadDays m"
  "daysAheadProbeCap (fst (drop_pass day_text ds m s)) = daysAheadProbeCap m"
  "pm_stopped (fst (drop_pass day_text ds m s)) = pm_stopped m"
  by (induction ds arbitrary: m s; auto simp: refuse_drop_def split: prod.splits bool.splits)+

text \<open>The store after a pass: unchanged, or the committed pass.\<close>

definition committed :: "int \<Rightarrow> maintainer \<Rightarrow> op_store \<Rightarrow> op_store" where
  "committed today m s =
     (let s1 = ensure_partitions today (lookaheadDays m) s
      in snd (drop_pass (\<lambda>_. '''') (drop_candidates today (retentionDays m) s1) m s1))"

lemma drop_pass_store: "snd (drop_pass f ds m s) = snd (drop_pass g ds m' s)"
  by (induction ds arbitrary: m m' s) (auto split: prod.splits bool.splits)

lemma pass_body_store:
  "snd (pass_body day_text today fault m s) = (if fault = None then committed today m s else s)"
  using drop_pass_store [of day_text _ m _ "\<lambda>_. ''''" m]
  by (auto simp: pass_body_def committed_def Let_def split: option.splits pass_fault.splits prod.splits)
    (metis snd_conv)+

lemma runPass_store:
  "snd (snd (runPass day_text now fault m s)) =
     (if pm_stopped m \<or> fault \<noteq> None then s else committed (day_of now) m s)"
  using pass_body_store [of day_text "day_of now" _ m s]
  by (auto simp: runPass_def split: option.splits prod.splits pass_fault.splits) (metis option.distinct(1) snd_conv)+

section \<open>Properties\<close>

lemma committed_keeps:
  assumes "store_inv s"
  shows "store_inv (committed today m s) \<and> status_at (committed today m s) i = status_at s i \<and>
    history (committed today m s) = history s \<and>
    filter (\<lambda>r. \<not> terminal (r_status r)) (rows (committed today m s))
      = filter (\<lambda>r. \<not> terminal (r_status r)) (rows s)"
proof -
  let ?s1 = "ensure_partitions today (lookaheadDays m) s"
  have inv: "store_inv ?s1" using ensure_inv [OF assms] by (simp add: ensure_partitions_def)
  have st: "status_at ?s1 i = status_at s i"
    by (rule status_at_cong) (simp_all add: ensure_partitions_def)
  show ?thesis
    using drop_pass_keeps [OF inv, of "\<lambda>_. ''''" "drop_candidates today (retentionDays m) ?s1" m i] st
    by (simp add: committed_def Let_def ensure_partitions_def)
qed

lemma committed_partition:
  assumes "store_inv s" "0 \<le> retentionDays m" "today \<le> d" "d \<le> today + lookaheadDays m"
  shows "d \<in> set (partitions (committed today m s))"
proof -
  let ?s1 = "ensure_partitions today (lookaheadDays m) s"
  have inv: "store_inv ?s1" using ensure_inv [OF assms(1)] by (simp add: ensure_partitions_def)
  have "d \<in> set (partitions ?s1)" using assms(3,4) by (simp add: ensure_partitions_def days_from_def)
  moreover have "d \<notin> set (drop_candidates today (retentionDays m) ?s1)"
    using assms(2,3) by (simp add: drop_candidates_def)
  ultimately show ?thesis
    using drop_pass_keeps [OF inv, of "\<lambda>_. ''''" "drop_candidates today (retentionDays m) ?s1" m]
    by (auto simp: committed_def Let_def)
qed

lemma committed_retention:
  assumes "store_inv s" "d < today - retentionDays m" "live_rows d s = 0"
  shows "d \<notin> set (partitions (committed today m s))"
proof -
  let ?s1 = "ensure_partitions today (lookaheadDays m) s"
  have inv: "store_inv ?s1" using ensure_inv [OF assms(1)] by (simp add: ensure_partitions_def)
  have live: "live_rows d ?s1 = 0" using assms(3) by (simp add: live_rows_zero ensure_partitions_def)
  show ?thesis
  proof (cases "d \<in> set (drop_candidates today (retentionDays m) ?s1)")
    case True
    from drop_pass_empties [OF inv this live] show ?thesis by (simp add: committed_def Let_def)
  next
    case False
    then have "d \<notin> set (partitions ?s1)" using assms(2) by (simp add: drop_candidates_def)
    then show ?thesis
      using drop_pass_keeps [OF inv, of "\<lambda>_. ''''" "drop_candidates today (retentionDays m) ?s1" m]
      by (auto simp: committed_def Let_def)
  qed
qed

definition example_maintainer :: maintainer where
  "example_maintainer = new_maintainer 1 None None None"

text \<open>A maintenance pass, committed or failed at any point, keeps the table well-formed, drops no
  row that is not terminal, and leaves the status of every operation id as it was: an answer that
  leaves the hot table with its partition is still reported from the history.\<close>

theorem maintenance_keeps_answers:
  assumes "store_inv s"
  shows "store_inv (snd (snd (runPass day_text now fault m s))) \<and>
    status_at (snd (snd (runPass day_text now fault m s))) i = status_at s i \<and>
    filter (\<lambda>r. \<not> terminal (r_status r)) (rows (snd (snd (runPass day_text now fault m s))))
      = filter (\<lambda>r. \<not> terminal (r_status r)) (rows s)"
  using committed_keeps [OF assms, of "day_of now" m i] assms by (simp add: runPass_store)

theorem maintenance_keeps_answers_witness:
  "store_inv (empty_store [0, 7]) \<and>
   status_at (snd (snd (runPass (\<lambda>_. ''d'') 700000000000 None example_maintainer (empty_store [0, 7])))) ''x''
     = status_at (empty_store [0, 7]) ''x''"
  using maintenance_keeps_answers [OF store_inv_empty [of "[0, 7]"]] by simp

text \<open>C30: After a committed pass with a non-negative retention, every day from today to the lookahead
  has a partition, so no enqueue on those days is refused for a missing partition; and every day
  past retention that held no live row is gone.\<close>

theorem maintenance_secures_days:
  assumes "store_inv s" "\<not> pm_stopped m" "0 \<le> retentionDays m"
    and "s' = snd (snd (runPass day_text now None m s))"
  shows "(\<forall>t i op. day_of now \<le> day_of t \<and> day_of t \<le> day_of now + lookaheadDays m \<longrightarrow>
            enqueue t i op s' \<noteq> Inl (NoPartition (day_of t))) \<and>
    (\<forall>d. d < day_of now - retentionDays m \<and> live_rows d s = 0 \<longrightarrow> d \<notin> set (partitions s'))"
proof -
  have s': "s' = committed (day_of now) m s" using assms(2,4) by (simp add: runPass_store)
  have "enqueue t i op s' \<noteq> Inl (NoPartition (day_of t))"
    if "day_of now \<le> day_of t" "day_of t \<le> day_of now + lookaheadDays m" for t i op
    using committed_partition [OF assms(1,3) that] unfolding s' [symmetric]
    by (auto simp: enqueue_def split: option.splits)
  then show ?thesis using committed_retention [OF assms(1)] unfolding s' by blast
qed

theorem maintenance_secures_days_witness:
  "\<exists>s'. s' = snd (snd (runPass (\<lambda>_. ''d'') 700000000000 None example_maintainer (empty_store [0, 7]))) \<and>
     0 \<notin> set (partitions s') \<and>
     enqueue 700000000000 ''i'' (a_input (example_input ''k1'')) s' \<noteq> Inl (NoPartition (day_of 700000000000))"
proof -
  let ?s' = "snd (snd (runPass (\<lambda>_. ''d'') 700000000000 None example_maintainer (empty_store [0, 7])))"
  have m: "\<not> pm_stopped example_maintainer" "0 \<le> retentionDays example_maintainer"
    "retentionDays example_maintainer = 1" "lookaheadDays example_maintainer = 1"
    by (simp_all add: example_maintainer_def new_maintainer_def)
  have d: "day_of 700000000000 = 8" by (simp add: day_of_def)
  have "live_rows 0 (empty_store [0, 7]) = 0" by (simp add: live_rows_def count_where_def empty_store_def)
  with maintenance_secures_days [OF store_inv_empty [of "[0, 7]"] m(1,2) refl, of 700000000000 "\<lambda>_. ''d''"]
  have "0 \<notin> set (partitions ?s')"
    "\<forall>t i op. 8 \<le> day_of t \<and> day_of t \<le> 9 \<longrightarrow> enqueue t i op ?s' \<noteq> Inl (NoPartition (day_of t))"
    unfolding m d by auto
  moreover have "8 \<le> day_of 700000000000 \<and> day_of 700000000000 \<le> 9" by (simp add: d)
  ultimately show ?thesis by blast
qed

lemma takeWhile_days:
  "length (takeWhile P [a..b]) = nat k \<Longrightarrow> 0 \<le> k \<Longrightarrow> (\<forall>d. a \<le> d \<and> d < a + k \<longrightarrow> P d) \<and>
     (a + k \<le> b \<longrightarrow> \<not> P (a + k))"
proof (induction "nat k" arbitrary: a k)
  case 0
  then show ?case by (cases "a \<le> b") (auto simp: upto.simps [of a b] split: if_splits)
next
  case (Suc n)
  then have k: "0 < k" "n = nat (k - 1)" by linarith+
  from Suc.prems k have ab: "a \<le> b" "P a" by (auto simp: upto.simps [of a b] split: if_splits)
  with Suc.prems(1) k have "length (takeWhile P [a + 1..b]) = nat (k - 1)"
    by (simp add: upto.simps [of a b] nat_diff_distrib)
  from Suc.hyps(1) [OF k(2) this] k(1)
  have IH: "\<forall>d. a + 1 \<le> d \<and> d < a + k \<longrightarrow> P d" "a + k \<le> b \<longrightarrow> \<not> P (a + k)" by simp_all
  moreover have "P d" if "a \<le> d" "d < a + k" for d
    using that ab(2) IH(1) by (cases "d = a") auto
  ultimately show ?case by blast
qed

text \<open>The days-ahead gauge counts the consecutive days, from today on, that have a partition: every
  day it counts has one, and the first day it does not count has none unless it lies past the
  probe's cap.\<close>

theorem days_ahead_counts_run:
  "0 \<le> computeDaysAhead today cap s \<and>
   (\<forall>d. today \<le> d \<and> d < today + computeDaysAhead today cap s \<longrightarrow> d \<in> set (partitions s)) \<and>
   (today + computeDaysAhead today cap s \<le> today + cap \<longrightarrow>
      today + computeDaysAhead today cap s \<notin> set (partitions s))"
  using takeWhile_days [of "\<lambda>d. d \<in> set (partitions s)" today "today + cap" "computeDaysAhead today cap s"]
  by (simp add: computeDaysAhead_def days_from_def)

theorem days_ahead_counts_run_witness:
  "computeDaysAhead 7 30 (empty_store [7, 8, 10]) \<le> 2"
proof (rule ccontr)
  assume "\<not> computeDaysAhead 7 30 (empty_store [7, 8, 10]) \<le> 2"
  then have "7 + 2 < 7 + computeDaysAhead 7 30 (empty_store [7, 8, 10])" by simp
  then have "7 + 2 \<in> set (partitions (empty_store [7, 8, 10]))"
    using days_ahead_counts_run [of 7 30 "empty_store [7, 8, 10]"] by (metis add_increasing2 order_refl zero_le_numeral)
  then show False by (simp add: empty_store_def)
qed

end
