(* ===== verification/Claim_Props.thy ===== *)
theory Claim_Props
  imports Store_Contract
begin

text \<open>
  The properties of one claim cycle against the table: what bounds it, that it makes progress, what
  it does to a lane, and, as concrete runs, the two ways its ordering and its snapshot fall short of
  what the comments in the query promise.
\<close>

section \<open>A small table\<close>

definition an_id :: string where
  "an_id = ''00000000-0000-0000-0000-000000000001''"

definition another_id :: string where
  "another_id = ''00000000-0000-0000-0000-000000000002''"

definition row_like :: "string \<Rightarrow> op_type \<Rightarrow> priority \<Rightarrow> op_status \<Rightarrow> int \<Rightarrow> op_row" where
  "row_like i t p st born =
     \<lparr> r_id = i, r_instance_id = ''ad'', r_object_class = ''user'', r_op_type = t, r_priority = p,
       r_status = st, r_lane_key = ''create:user:bob'', r_uid = None, r_name_attr_value = Some ''bob'',
       r_attrs = None, r_result = None, r_error_code = None, r_attempt_count = 0, r_created_at = born,
       r_claimed_at = None, r_finalized_at = None, r_idempotency_key = i,
       r_not_before = (if st = Pend AWAITING_READBACK then Some born else None) \<rparr>"

definition store_of :: "op_row list \<Rightarrow> op_store" where
  "store_of rs = \<lparr> rows = rs, history = [], partitions = [0] \<rparr>"

definition two_slots :: "(string \<times> availability) list" where
  "two_slots = [(''ad'', \<lparr> batchFree = 1, totalFree = 2 \<rparr>)]"

lemmas small_defs = row_like_def store_of_def two_slots_def an_id_def another_id_def

lemma id_ok_example [simp]: "id_ok an_id" "id_ok another_id"
  by (code_simp)+

lemma store_inv_one:
  "row_ok r \<Longrightarrow> id_ok (r_id r) \<Longrightarrow> day_of (r_created_at r) = 0 \<Longrightarrow> \<not> terminal (r_status r) \<Longrightarrow>
     store_inv (store_of [r])"
  by (simp add: store_inv_def store_of_def history_ok_def lane_exclusive_def)

definition pending_delete :: op_row where
  "pending_delete = row_like an_id DELETE Batch (Pend PENDING) 5"

lemma store_inv_pending_delete [simp]: "store_inv (store_of [pending_delete])"
  by (rule store_inv_one) (simp_all add: pending_delete_def row_like_def row_ok_def day_of_def)

section \<open>What bounds a claim\<close>

text \<open>C10: A claim respects every bound at once: it takes at most the limit in total, from each offered
  instance at most its free slots and, among them, at most its free batch slots, and nothing from
  an instance that is not offered.\<close>

theorem claim_within_bounds:
  assumes "store_inv s" "distinct (map fst av)"
  shows "int (length (fst (claimBatch now held limit act av s))) \<le> max 0 limit \<and>
    (\<forall>i. (case map_of av i of
            None \<Rightarrow> claims_of i (fst (claimBatch now held limit act av s)) = 0
          | Some a \<Rightarrow> claims_of i (fst (claimBatch now held limit act av s)) \<le> max 0 (totalFree a) \<and>
              batch_claims_of i (fst (claimBatch now held limit act av s)) \<le> max 0 (batchFree a)))"
proof -
  have "int (length (fst (claimBatch now held limit act av s))) \<le> max 0 limit"
    using claim_limit [OF assms(1), of now held limit act av] by simp
  moreover have "claims_of i (fst (claimBatch now held limit act av s)) = 0" if "map_of av i = None" for i
    using sql.claim_unknown(1) [OF assms(1) that, of "(now, held)"] by simp
  moreover have "claims_of i (fst (claimBatch now held limit act av s)) \<le> max 0 (totalFree a) \<and>
      batch_claims_of i (fst (claimBatch now held limit act av s)) \<le> max 0 (batchFree a)"
    if "map_of av i = Some a" for i a
    using sql.claim_total [OF assms that, of "(now, held)"] sql.claim_batch [OF assms that, of "(now, held)"]
    by simp
  ultimately show ?thesis by (simp split: option.split)
qed

theorem claim_within_bounds_witness:
  "store_inv (store_of [pending_delete]) \<and>
   int (length (fst (claimBatch 9 [] 100 [] two_slots (store_of [pending_delete])))) \<le> 100"
  using claim_within_bounds [OF store_inv_pending_delete, of two_slots 9 "[]" 100 "[]"]
  by (simp add: two_slots_def)

text \<open>Lane serialization: a claim keeps the table well-formed, so that no lane of an instance ever
  has two running rows; what it takes lies in pairwise distinct lanes, in none of the excluded lanes
  and in no lane where a row was running or a create was waiting out its read-back; and every row it
  takes was pending or a due read-back.\<close>

theorem claim_serializes_lanes:
  assumes "store_inv s"
  shows "store_inv (snd (claimBatch now held limit act av s)) \<and>
    lane_exclusive (snd (claimBatch now held limit act av s)) \<and>
    distinct (map (\<lambda>c. (c_instance_id c, c_lane_key c)) (fst (claimBatch now held limit act av s))) \<and>
    (\<forall>c\<in>set (fst (claimBatch now held limit act av s)).
       c_lane_key c \<notin> set act \<and>
       (c_instance_id c, c_lane_key c) \<notin> set (blocked_lanes now (rows s)) \<and>
       c_prior_status c \<in> {Pend PENDING, Pend AWAITING_READBACK})"
proof -
  have inv: "store_inv (snd (claimBatch now held limit act av s))" by (rule claimBatch_inv [OF assms])
  have "(c_instance_id c, c_lane_key c) \<notin> set (blocked_lanes now (rows s))"
    if c: "c \<in> set (fst (claimBatch now held limit act av s))" for c
  proof -
    obtain r where r: "r \<in> set (claimed_rows now held limit act av s)" "c = to_claimed r"
      using c by (auto simp: claimBatch_fst)
    have "r \<in> set (lane_candidates now act (caps_of_availability av) (rows s))"
      using claimed_rows_picked [OF assms r(1)] picked_candidate by blast
    then show ?thesis using r(2) by (simp add: lane_candidates_iff to_claimed_def lane_of_def)
  qed
  then show ?thesis
    using inv inv_lanes [OF inv] claim_lanes_distinct [OF assms] claim_member [OF assms] by blast
qed

theorem claim_serializes_lanes_witness:
  "lane_exclusive (snd (claimBatch 9 [] 100 [] two_slots (store_of [pending_delete])))"
  using claim_serializes_lanes [OF store_inv_pending_delete, of 9 "[]" 100 "[]" two_slots] by simp

section \<open>Progress\<close>

lemma leader_within_caps:
  assumes lead: "l \<in> set (lane_leaders now act cs os)" "r_instance_id l = i"
    and caps: "map_of cs i = Some (cap, bcap)" "0 < cap" "0 < bcap"
  shows "\<exists>q\<in>set (lane_leaders now act cs os). within_caps cs (lane_leaders now act cs os) q"
proof -
  let ?ls = "lane_leaders now act cs os"
  from row_number_one_exists [OF lead(1), of r_instance_id claim_order] lead(2)
  obtain q where q: "q \<in> set ?ls" "r_instance_id q = i" "row_number r_instance_id claim_order ?ls q = 1"
    by blast
  have cap: "cap_of cs q = cap" "batch_cap_of cs q = bcap" using caps(1) q(2)
    by (simp_all add: cap_of_def batch_cap_of_def)
  show ?thesis
  proof (cases "r_priority q")
    case Interactive
    then have "within_caps cs ?ls q" using q(3) cap caps(2) by (simp add: within_caps_def)
    with q(1) show ?thesis by blast
  next
    case Batch
    have all: "r_priority u = Batch" if "u \<in> set ?ls" "r_instance_id u = i" for u
      using row_number_one_least [OF q(1,3) that(1)] that(2) q(2) Batch by (simp add: claim_order_def)
    have "row_number r_instance_id claim_order ?ls q
        = row_number (\<lambda>r. (r_instance_id r, r_priority r)) r_created_at ?ls q"
      by (rule row_number_cong) (use all q(2) Batch in \<open>auto simp: claim_order_def intro!: filter_cong\<close>)
    then have "within_caps cs ?ls q" using q(3) cap caps(2,3) by (simp add: within_caps_def)
    with q(1) show ?thesis by blast
  qed
qed

lemma claim_progress:
  assumes "store_inv s" "distinct (map fst av)" "map_of av (r_instance_id r) = Some a"
    and "0 < totalFree a" "0 < batchFree a" "0 < limit"
    and "r \<in> set (rows s)" "claimable now r" "r_lane_key r \<notin> set act"
    and "lane_of r \<notin> set (blocked_lanes now (rows s))"
  shows "fst (claimBatch now [] limit act av s) \<noteq> []"
proof -
  let ?cs = "caps_of_availability av"
  let ?ls = "lane_leaders now act ?cs (rows s)"
  have caps: "map_of ?cs (r_instance_id r) = Some (totalFree a, max 0 (min (batchFree a) (totalFree a)))"
    using assms(3,4) by (simp add: caps_of_availability_map_of [OF assms(2)])
  have "r_instance_id r \<in> fst ` set ?cs" using caps by (metis domI dom_map_of_conv_image_fst)
  then have "r \<in> set (lane_candidates now act ?cs (rows s))" using assms by (simp add: lane_candidates_iff)
  from lane_leaders_exist [OF this] obtain l where "l \<in> set ?ls" "r_instance_id l = r_instance_id r"
    by (auto simp: lane_of_def)
  from leader_within_caps [OF this caps assms(4)] assms(4,5)
  obtain q where "q \<in> set ?ls" "within_caps ?cs ?ls q" by auto
  then have "filter (within_caps ?cs ?ls) ?ls \<noteq> []" by (auto simp: filter_empty_conv)
  then have "picked now limit act ?cs (rows s) \<noteq> []"
    using assms(6) by (simp add: picked_def Let_def)
  then obtain p where p: "p \<in> set (picked now limit act ?cs (rows s))" using hd_in_set by blast
  have "claimable now p" "p \<in> set (rows s)"
    using picked_candidate [OF p] by (simp_all add: lane_candidates_iff)
  then have "locked [] (picked now limit act ?cs (rows s)) p"
    using p by (auto simp: locked_def claimable_def readback_due_def)
  then have "p \<in> set (claimed_rows now [] limit act av s)"
    using \<open>p \<in> set (rows s)\<close> assms(6) caps by (auto simp: claimed_rows_def Let_def)
  then show ?thesis by (auto simp: claimBatch_fst)
qed

text \<open>A claim makes progress: when an offered instance has a free slot in both classes and holds
  a claimable row whose lane is neither excluded nor blocked, an undisturbed claim with a positive
  limit takes at least one row.\<close>

theorem claim_makes_progress:
  assumes "store_inv s" "distinct (map fst av)" "map_of av (r_instance_id r) = Some a"
    and "0 < totalFree a" "0 < batchFree a" "0 < limit"
    and "r \<in> set (rows s)" "claimable now r" "r_lane_key r \<notin> set act"
    and "lane_of r \<notin> set (blocked_lanes now (rows s))"
  shows "fst (claimBatch now [] limit act av s) \<noteq> []"
  by (rule claim_progress [OF assms])

theorem claim_makes_progress_witness:
  "fst (claimBatch 9 [] 100 [] two_slots (store_of [pending_delete])) \<noteq> []"
  by (rule claim_makes_progress [OF store_inv_pending_delete, where r = pending_delete
        and a = "\<lparr> batchFree = 1, totalFree = 2 \<rparr>"])
    (simp_all add: two_slots_def pending_delete_def row_like_def store_of_def claimable_def
      blocked_lanes_def is_running_def readback_waiting_def lane_of_def)

section \<open>Priority\<close>

text \<open>Interactive work goes first: if a claim takes a batch row of an instance, it also takes every
  interactive lane leader of that instance that no other transaction holds.\<close>

theorem claim_prefers_interactive:
  assumes "store_inv s" "b \<in> set (claimed_rows now held limit act av s)" "r_priority b = Batch"
    and "r \<in> set (lane_leaders now act (caps_of_availability av) (rows s))"
    and "r_priority r = Interactive" "r_instance_id r = r_instance_id b" "r_id r \<notin> set held"
  shows "to_claimed r \<in> set (fst (claimBatch now held limit act av s))"
proof -
  let ?ps = "picked now limit act (caps_of_availability av) (rows s)"
  have p: "r \<in> set ?ps"
    using claimed_rows_picked [OF assms(1,2)] assms(3-6) by (blast intro: picked_interactive_first)
  then have "locked held ?ps r" "r \<in> set (rows s)"
    using picked_candidate [OF p] assms(7)
    by (auto simp: locked_def lane_candidates_iff claimable_def readback_due_def)
  then have "r \<in> set (claimed_rows now held limit act av s)"
    using assms(2) by (auto simp: claimed_rows_def Let_def split: if_splits)
  then show ?thesis by (simp add: claimBatch_fst)
qed

definition helpdesk_delete :: op_row where
  "helpdesk_delete = (row_like another_id DELETE Interactive (Pend PENDING) 7)\<lparr>r_lane_key := ''uid:user:u2''\<rparr>"

definition busy_desk :: op_store where
  "busy_desk = store_of [pending_delete, helpdesk_delete]"

lemma store_inv_busy_desk [simp]: "store_inv busy_desk"
  by code_simp

lemma busy_desk_rows:
  "claimed_rows 9 [] 100 [] two_slots busy_desk = [pending_delete, helpdesk_delete]"
  "lane_leaders 9 [] (caps_of_availability two_slots) (rows busy_desk) = [pending_delete, helpdesk_delete]"
  by code_simp+

theorem claim_prefers_interactive_witness:
  "to_claimed helpdesk_delete \<in> set (fst (claimBatch 9 [] 100 [] two_slots busy_desk))"
  by (rule claim_prefers_interactive [where b = pending_delete])
    (simp_all add: busy_desk_rows, simp_all add: helpdesk_delete_def pending_delete_def row_like_def)

section \<open>Where the query falls short\<close>

text \<open>In each lane the order is by class first and by age second: a row a claim takes comes, in that
  order, before or with every claimable row of its lane.\<close>

theorem claim_lane_order:
  assumes "store_inv s" "r \<in> set (claimed_rows now held l act av s)"
    and "q \<in> set (rows s)" "claimable now q" "lane_of q = lane_of r"
  shows "claim_order r \<le> claim_order q"
proof -
  let ?cs = "caps_of_availability av"
  have lead: "r \<in> set (lane_leaders now act ?cs (rows s))"
    using claimed_rows_picked [OF assms(1,2)] picked_leader by blast
  then have r: "r \<in> set (lane_candidates now act ?cs (rows s))" by (rule lane_leaders_candidate)
  then have "q \<in> set (lane_candidates now act ?cs (rows s))"
    using assms(3-5) by (simp add: lane_candidates_iff lane_of_def)
  from lane_leaders_exist [OF this] obtain p where
    "p \<in> set (lane_leaders now act ?cs (rows s))" "lane_of p = lane_of q" "claim_order p \<le> claim_order q" by blast
  with lane_leaders_unique [OF this(1) lead] assms(5) show ?thesis by simp
qed

theorem claim_lane_order_witness:
  "claim_order helpdesk_delete \<le> claim_order helpdesk_delete"
  by (rule claim_lane_order [OF store_inv_busy_desk, of _ 9 "[]" 100 "[]" two_slots])
    (simp_all add: busy_desk_rows, simp_all add: busy_desk_def store_of_def claimable_def helpdesk_delete_def row_like_def)

text \<open>A create on a name is parked because its outcome is unknown, and its wait is over; a later
  interactive create on the same name is queued behind it.\<close>

definition parked_create :: op_row where
  "parked_create = row_like an_id CREATE Batch (Pend AWAITING_READBACK) 5"

definition later_create :: op_row where
  "later_create = row_like another_id CREATE Interactive (Pend PENDING) 7"

text \<open>A due read-back can be overtaken: in a well-formed table with a due parked create and a later
  interactive create on the same lane, the claim takes the later create, so a second create is sent
  while the outcome of the first is unknown, although the comment at the claimable rows says
  ordering by age picks the parked row ahead of any later operation on its lane.\<close>

theorem parked_create_overtaken:
  "store_inv (store_of [parked_create, later_create]) \<and>
   lane_of parked_create = lane_of later_create \<and> readback_due 9 parked_create \<and>
   r_created_at parked_create < r_created_at later_create \<and>
   fst (claimBatch 9 [] 100 [] two_slots (store_of [parked_create, later_create]))
     = [to_claimed later_create]"
  by code_simp

text \<open>Two replicas pick from two snapshots; an interactive row arrives on the lane in between.\<close>

definition first_pick :: "op_row list" where
  "first_pick = picked 9 100 [] (caps_of_availability two_slots) [pending_delete]"

definition rival :: op_row where
  "rival = row_like another_id DELETE Interactive (Pend PENDING) 7"

definition second_pick :: "op_row list" where
  "second_pick = picked 9 100 [] (caps_of_availability two_slots) [pending_delete, rival]"

text \<open>Lane exclusion does not survive overlapping claims: the row locks of two claims whose
  snapshots differ by one interactive arrival do not exclude each other, since they pick different
  rows of the lane; each commits its own pick, and two rows of one lane are running.\<close>

theorem snapshots_break_lane:
  "lane_of pending_delete = lane_of rival \<and>
   store_inv (store_of [pending_delete, rival]) \<and>
   map c_id (fst (claim_commit 9 [] first_pick (store_of [pending_delete, rival]))) = [an_id] \<and>
   map c_id (fst (claim_commit 9 [an_id] second_pick (store_of [pending_delete, rival]))) = [another_id] \<and>
   \<not> lane_exclusive (snd (claim_commit 10 [] second_pick
       (snd (claim_commit 9 [] first_pick (store_of [pending_delete, rival])))))"
  by code_simp

end
