(* ===== verification/Store_Props.thy ===== *)
theory Store_Props
  imports Claim_Props
begin

text \<open>
  The properties of the single operations of the store: \<open>enqueue\<close> is idempotent per key, the ledger
  of visible statuses is an abstract specification that \<open>finalize\<close>, \<open>requeue\<close> and
  \<open>deferForReadback\<close> refine, answers never change, and the reaper routes stale rows by kind.
\<close>

section \<open>enqueue\<close>

lemma enqueue_InrE:
  assumes "enqueue now i op s = Inr (res, s')"
  obtains (again) r where "newest_with_key (e_idempotency_key op) (rows s) = Some r"
      "res = \<lparr> er_id = r_id r, er_deduplicated = True \<rparr>" "s' = s"
  | (fresh) "newest_with_key (e_idempotency_key op) (rows s) = None"
      "res = \<lparr> er_id = i, er_deduplicated = False \<rparr>"
      "s' = s\<lparr>rows := rows s @ [new_row now i op]\<rparr>"
  using assms by (auto simp: enqueue_def split: option.splits if_splits)

lemma newest_unique:
  assumes "distinct (map r_idempotency_key rs)" "r \<in> set rs"
  shows "newest_with_key (r_idempotency_key r) rs = Some r"
  using filter_key_unique [OF assms] by (simp add: newest_with_key_def)

lemma enqueue_row:
  assumes "store_inv s" "fresh_id s i" "enqueue now i op s = Inr (res, s')"
  obtains r where "r \<in> set (rows s')" "r_id r = er_id res" "r_idempotency_key r = e_idempotency_key op"
  using assms(3)
proof (cases rule: enqueue_InrE)
  case (again r)
  then show ?thesis using that newest_with_key_Some by auto
next
  case fresh
  then show ?thesis using that [of "new_row now i op"] by simp
qed

text \<open>C16: Enqueueing is idempotent per key: once an operation with a key has been accepted, every further
  enqueue with that key, whatever it asks for, answers the same id, says that it is a duplicate and
  leaves the table as it is; and the id answered is one whose status can be looked up.\<close>

theorem enqueue_idempotent:
  assumes "store_inv s" "fresh_id s i" "enqueue now i op s = Inr (res, s')"
    and "e_idempotency_key op' = e_idempotency_key op"
  shows "enqueue now' i' op' s' = Inr (\<lparr> er_id = er_id res, er_deduplicated = True \<rparr>, s') \<and>
    status_at s' (er_id res) \<noteq> None"
proof -
  have inv: "store_inv s'" by (rule enqueue_inv [OF assms(1-3)])
  from assms(1-3) obtain r where r: "r \<in> set (rows s')" "r_id r = er_id res"
    "r_idempotency_key r = e_idempotency_key op" by (rule enqueue_row)
  have "newest_with_key (e_idempotency_key op') (rows s') = Some r"
    using newest_unique [OF inv_distinct_keys [OF inv] r(1)] r(3) assms(4) by simp
  moreover have "status_at s' (er_id res) = Some (r_status r)"
    using status_at_row [OF inv _ r(1)] inv_row [OF inv r(1)] r(2) by (simp add: id_ok_def has_id_def)
  ultimately show ?thesis using r(2) by (simp add: enqueue_def)
qed

definition delete_input :: enqueue_input where
  "delete_input =
     \<lparr> e_instance_id = ''ad'', e_object_class = ''user'', e_op_type = DELETE,
       e_lane_key = ''uid:user:u1'', e_idempotency_key = ''k1'', e_priority = None,
       e_uid = Some ''u1'', e_name_attr_value = None, e_attrs = None \<rparr>"

lemma enqueue_delete:
  "enqueue 5 an_id delete_input (empty_store [0]) =
     Inr (\<lparr> er_id = an_id, er_deduplicated = False \<rparr>, store_of [new_row 5 an_id delete_input])"
  by (simp add: enqueue_def newest_with_key_def empty_store_def store_of_def day_of_def delete_input_def)

lemma fresh_an_id [simp]: "fresh_id (empty_store ds) an_id"
  by (simp add: fresh_id_def empty_store_def)

theorem enqueue_idempotent_witness:
  "enqueue 8 another_id delete_input (store_of [new_row 5 an_id delete_input])
     = Inr (\<lparr> er_id = an_id, er_deduplicated = True \<rparr>, store_of [new_row 5 an_id delete_input])"
  using enqueue_idempotent [OF store_inv_empty fresh_an_id enqueue_delete, of delete_input 8 another_id]
  by simp

section \<open>The ledger of statuses\<close>

text \<open>The abstract state: what a caller sees under every id. Two texts address one operation when
  they are the same uuid.\<close>

type_synonym ledger = "string \<Rightarrow> op_status option"

definition same_id :: "string \<Rightarrow> string \<Rightarrow> bool" where
  "same_id i j = (isOperationId i \<and> isOperationId j \<and> uuid_of i = uuid_of j)"

definition is_live :: "op_status option \<Rightarrow> bool" where
  "is_live v = (case v of Some (Pend _) \<Rightarrow> True | _ \<Rightarrow> False)"

definition ledger_finish :: "string \<Rightarrow> outcome \<Rightarrow> ledger \<Rightarrow> bool \<times> ledger" where
  "ledger_finish i x L = (is_live (L i), \<lambda>j. if same_id i j \<and> is_live (L j) then Some (Outc x) else L j)"

definition ledger_move :: "pending_status \<Rightarrow> string \<Rightarrow> ledger \<Rightarrow> bool \<times> ledger" where
  "ledger_move p i L =
     (L i = Some (Pend RUNNING),
      \<lambda>j. if same_id i j \<and> L j = Some (Pend RUNNING) then Some (Pend p) else L j)"

lemma status_at_same_id: "same_id i j \<Longrightarrow> status_at s i = status_at s j"
proof -
  assume a: "same_id i j"
  then have "has_id i = has_id j" by (auto simp: same_id_def has_id_def)
  with a show ?thesis by (simp add: same_id_def status_at_def getStatus_def cong: option.case_cong)
qed

lemma status_live_row:
  assumes "store_inv s" "status_at s i = Some (Pend p)"
  obtains r where "isOperationId i" "r \<in> set (rows s)" "has_id i r" "r_status r = Pend p"
  using assms
proof (cases rule: status_at_cases)
  case (row r)
  then show ?thesis using that by simp
next
  case (history h)
  then have "terminal (h_status h)" using inv_history [OF assms(1)] by (simp add: history_ok_def)
  with history(5) show ?thesis by (metis terminal_simps(2))
qed

text \<open>The status of one row moves, no other.\<close>

lemma status_moved:
  assumes inv: "store_inv s" "store_inv (update_where (\<lambda>r. has_id i r \<and> is_running r) f s)"
    and f: "keeps_identity f" "\<And>r. r_status (f r) = Pend p" and i: "isOperationId i"
  shows "status_at (update_where (\<lambda>r. has_id i r \<and> is_running r) f s) j =
    (if same_id i j \<and> status_at s j = Some (Pend RUNNING) then Some (Pend p) else status_at s j)"
proof -
  let ?t = "update_where (\<lambda>r. has_id i r \<and> is_running r) f s"
  consider (bad) "\<not> isOperationId j"
    | (none) "isOperationId j" "\<forall>r\<in>set (rows s). \<not> has_id j r"
    | (row) r where "isOperationId j" "r \<in> set (rows s)" "has_id j r" by blast
  then show ?thesis
  proof cases
    case bad
    then show ?thesis by (simp add: status_at_bad_id)
  next
    case none
    then have "\<forall>r\<in>set (rows ?t). \<not> has_id j r"
      using has_id_keeps [OF f(1)] by (auto simp: mem_rows_update split: if_splits)
    then have "status_at ?t j = status_at s j"
      using none by (simp add: status_at_no_row rows_update_where)
    moreover have "status_at s j \<noteq> Some (Pend RUNNING)"
      using status_live_row [OF inv(1), of j RUNNING] none(2) by blast
    ultimately show ?thesis by simp
  next
    case row
    let ?q = "if has_id i r \<and> is_running r then f r else r"
    have "?q \<in> set (rows ?t)" "has_id j ?q"
      using row has_id_keeps [OF f(1)] by (auto simp: mem_rows_update)
    then have "status_at ?t j = Some (r_status ?q)" using status_at_row [OF inv(2) row(1)] by blast
    moreover have "same_id i j \<longleftrightarrow> has_id i r"
      using row(1,3) i by (auto simp: same_id_def has_id_def)
    ultimately show ?thesis using status_at_row [OF inv(1) row] f(2) by (auto simp: is_running_def)
  qed
qed

lemma moved_count:
  assumes "store_inv s" "isOperationId i"
  shows "0 < count_where (\<lambda>r. has_id i r \<and> is_running r) s \<longleftrightarrow> status_at s i = Some (Pend RUNNING)"
proof
  assume "0 < count_where (\<lambda>r. has_id i r \<and> is_running r) s"
  then obtain r where "r \<in> set (rows s)" "has_id i r" "is_running r"
    by (auto simp: count_where_def filter_empty_conv)
  then show "status_at s i = Some (Pend RUNNING)"
    using status_at_row [OF assms(1,2)] by (simp add: is_running_def)
next
  assume "status_at s i = Some (Pend RUNNING)"
  from status_live_row [OF assms(1) this]
  show "0 < count_where (\<lambda>r. has_id i r \<and> is_running r) s"
    by (auto simp: count_where_def filter_empty_conv is_running_def)
qed

lemma requeue_ledger:
  assumes "store_inv s"
  shows "fst (requeue i s) = fst (ledger_move PENDING i (status_at s)) \<and>
    status_at (snd (requeue i s)) = snd (ledger_move PENDING i (status_at s))"
proof (cases "isOperationId i")
  case True
  have "store_inv (snd (requeue i s))" by (rule requeue_inv [OF assms])
  with True show ?thesis
    using moved_count [OF assms True]
    by (auto simp: requeue_def Let_def ledger_move_def keeps_identity_def fun_eq_iff
        status_moved [OF assms _ _ _ True, where p = PENDING])
next
  case False
  then show ?thesis by (auto simp: requeue_def ledger_move_def same_id_def status_at_bad_id)
qed

lemma defer_ledger:
  assumes "store_inv s"
  shows "fst (deferForReadback i t s) = fst (ledger_move AWAITING_READBACK i (status_at s)) \<and>
    status_at (snd (deferForReadback i t s)) = snd (ledger_move AWAITING_READBACK i (status_at s))"
proof (cases "isOperationId i")
  case True
  have "store_inv (snd (deferForReadback i t s))" by (rule deferForReadback_inv [OF assms])
  with True show ?thesis
    using moved_count [OF assms True]
    by (auto simp: deferForReadback_def Let_def ledger_move_def keeps_identity_def fun_eq_iff
        status_moved [OF assms _ _ _ True, where p = AWAITING_READBACK])
next
  case False
  then show ?thesis by (auto simp: deferForReadback_def ledger_move_def same_id_def status_at_bad_id)
qed

lemma finalize_ledger:
  assumes "store_inv s"
  shows "fst (finalize now i x v e s) = fst (ledger_finish i x (status_at s)) \<and>
    status_at (snd (finalize now i x v e s)) = snd (ledger_finish i x (status_at s))"
  using assms
proof (cases rule: finalize_dichotomy [where i = i and now = now and out = x and res = v and err = e])
  case (live r)
  have "status_at s i = Some (r_status r)" by (rule status_at_row [OF assms live(4,1,2)])
  then have l: "is_live (status_at s i)" using live(3) by (auto simp: is_live_def not_terminal_iff)
  have "status_at (finalized_store now x v e r s) j
      = (if same_id i j \<and> is_live (status_at s j) then Some (Outc x) else status_at s j)" for j
  proof (cases "status_at s j")
    case (Some a)
    have "isOperationId j" using Some status_at_bad_id by fastforce
    then have "has_id j r \<longleftrightarrow> same_id i j" using live(2,4) by (auto simp: has_id_def same_id_def)
    moreover have "same_id i j \<Longrightarrow> is_live (status_at s j)" using l status_at_same_id by metis
    ultimately show ?thesis using status_at_finalized [OF assms live(1,3) Some] Some by auto
  next
    case None
    then have "status_at (finalized_store now x v e r s) j = None"
    proof (cases "isOperationId j")
      case True
      have "\<forall>q\<in>set (rows s). \<not> has_id j q" using status_at_row [OF assms True] None by fastforce
      then have no: "\<forall>q\<in>set (rows (finalized_store now x v e r s)). \<not> has_id j q" "\<not> has_id j r"
        using live(1) by (auto simp: finalized_store_def has_id_def)
      have "List.find (\<lambda>h. h_id h = uuid_of j) (history s) = None"
        using None \<open>\<forall>q\<in>set (rows s). \<not> has_id j q\<close> by (simp add: status_at_no_row [OF True])
      then have "\<forall>h\<in>set (history (finalized_store now x v e r s)). h_id h \<noteq> uuid_of j"
        using no(2) by (auto simp: find_None finalized_store_def has_id_def)
      then show ?thesis by (simp add: status_at_no_row [OF True no(1)] find_None)
    qed (simp add: status_at_bad_id)
    then show ?thesis using None by (simp add: is_live_def)
  qed
  then show ?thesis using live(5) l by (auto simp: ledger_finish_def)
next
  case dead
  have "\<not> is_live (status_at s i)"
    using finalize_live_status [OF assms, of i _ now x v e] dead
    by (auto simp: is_live_def split: option.splits op_status.splits)
  then have "status_at s j = (if same_id i j \<and> is_live (status_at s j) then Some (Outc x) else status_at s j)" for j
    using status_at_same_id by metis
  then show ?thesis using dead \<open>\<not> is_live (status_at s i)\<close> by (auto simp: ledger_finish_def)
qed

text \<open>The store refines a ledger of statuses: seen through \<open>getStatus\<close>, a finalize sets exactly
  the addressed operation's outcome if it was live and answers whether it was, a requeue and a
  deferral move exactly a running operation to pending and to awaiting its read-back and answer
  whether it was running, and nothing else changes.\<close>

theorem store_refines_ledger:
  assumes "store_inv s"
  shows "(fst (finalize now i x v e s), status_at (snd (finalize now i x v e s)))
        = ledger_finish i x (status_at s) \<and>
    (fst (requeue i s), status_at (snd (requeue i s))) = ledger_move PENDING i (status_at s) \<and>
    (fst (deferForReadback i t s), status_at (snd (deferForReadback i t s)))
        = ledger_move AWAITING_READBACK i (status_at s)"
  using finalize_ledger [OF assms] requeue_ledger [OF assms] defer_ledger [OF assms]
  by (simp add: prod_eq_iff)

theorem store_refines_ledger_witness:
  "ledger_finish an_id SUCCEEDED (status_at (store_of [pending_delete])) =
     (fst (finalize 9 an_id SUCCEEDED None None (store_of [pending_delete])),
      status_at (snd (finalize 9 an_id SUCCEEDED None None (store_of [pending_delete]))))"
  using store_refines_ledger [OF store_inv_pending_delete] by metis

section \<open>Answers never change\<close>

text \<open>C15: The first answer wins: a finalize that answers true makes its outcome the visible status and
  writes the matching history row, every later finalize of that id is refused and changes nothing,
  and neither a claim, a requeue, a deferral nor a reaper pass changes that status.\<close>

theorem outcome_is_final:
  assumes "store_inv s" "finalize now i x v e s = (True, s')"
  shows "status_at s' i = Some (Outc x) \<and>
    (\<exists>h\<in>set (history s'). h_id h = uuid_of i \<and> h_status h = Outc x \<and> h_error_code h = e) \<and>
    finalize now' i x' v' e' s' = (False, s') \<and>
    status_at (snd (claimBatch now' held l act av s')) i = Some (Outc x) \<and>
    status_at (snd (requeue j s')) i = Some (Outc x) \<and>
    status_at (snd (deferForReadback j t s')) i = Some (Outc x) \<and>
    status_at (snd (reapStale now' acq th d s')) i = Some (Outc x)"
proof -
  have inv: "store_inv s'" using sql.finish_keeps [OF assms(1), of now i x v e] assms(2) by simp
  have st: "status_at s' i = Some (Outc x)"
    using sql.finish_answer [OF assms(1), of now i x v e] assms(2) by simp
  have keep: "status_at t i = Some (Outc x)"
    if "\<exists>b. status_at t i = Some b \<and> lifecycle\<^sup>*\<^sup>* (Outc x) b" for t
    using that lifecycle_star_terminal by blast
  have "\<not> fst (finalize now' i x' v' e' s')"
    using finalize_ledger [OF inv, of now' i x' v' e'] st by (simp add: ledger_finish_def is_live_def)
  then have refused: "finalize now' i x' v' e' s' = (False, s')"
    using sql.finish_refused [OF inv] by (metis (full_types) prod.collapse)
  have hist: "\<exists>h\<in>set (history s'). h_id h = uuid_of i \<and> h_status h = Outc x \<and> h_error_code h = e"
    using assms(1)
  proof (cases rule: finalize_dichotomy [where i = i and now = now and out = x and res = v and err = e])
    case (live r)
    then have "s' = finalized_store now x v e r s" using assms(2) by simp
    with live(2) show ?thesis by (simp add: finalized_store_def has_id_def)
  qed (use assms(2) in simp)
  have "status_at (snd (claimBatch now' held l act av s')) i = Some (Outc x)"
    using sql.claim_lifecycle [OF inv st, of "(now', held)" l act av] by (intro keep) simp
  moreover have "status_at (snd (requeue j s')) i = Some (Outc x)"
    by (rule keep) (rule sql.give_up_lifecycle [OF inv st])
  moreover have "status_at (snd (deferForReadback j t s')) i = Some (Outc x)"
    by (rule keep) (rule sql.park_lifecycle [OF inv st])
  moreover have "status_at (snd (reapStale now' acq th d s')) i = Some (Outc x)"
    by (rule keep) (rule sql.reap_lifecycle [OF inv st])
  ultimately show ?thesis using st hist refused by blast
qed

lemma finalize_pending_delete:
  "finalize 9 an_id SUCCEEDED None None (store_of [pending_delete]) =
     (True, finalized_store 9 SUCCEEDED None None pending_delete (store_of [pending_delete]))"
  by (rule finalize_live [OF store_inv_pending_delete])
    (use id_ok_example(1) in \<open>simp_all add: store_of_def has_id_iff pending_delete_def row_like_def id_ok_def has_id_def\<close>)

theorem outcome_is_final_witness:
  "finalize 10 an_id INDETERMINATE None (Some ''LATE'')
       (finalized_store 9 SUCCEEDED None None pending_delete (store_of [pending_delete])) =
     (False, finalized_store 9 SUCCEEDED None None pending_delete (store_of [pending_delete]))"
  using outcome_is_final [OF store_inv_pending_delete finalize_pending_delete,
      of 10 INDETERMINATE None "Some ''LATE''"] by blast

section \<open>The reaper\<close>

text \<open>The route of one row in one pass.\<close>

definition reap_route :: "int \<Rightarrow> int \<Rightarrow> int \<Rightarrow> op_row \<Rightarrow> op_row" where
  "reap_route now th d r =
     (if \<not> stale now th r then r
      else if r_op_type r = CREATE
      then r\<lparr>r_status := Pend AWAITING_READBACK, r_claimed_at := None,
             r_not_before := Some (now + us_of_ms d)\<rparr>
      else r\<lparr>r_status := Pend PENDING, r_claimed_at := None, r_not_before := None\<rparr>)"

lemma reap_pass_row:
  "(if stale_other now th (if stale_create now th r
        then r\<lparr>r_status := Pend AWAITING_READBACK, r_claimed_at := None, r_not_before := Some t\<rparr> else r)
    then (if stale_create now th r
        then r\<lparr>r_status := Pend AWAITING_READBACK, r_claimed_at := None, r_not_before := Some t\<rparr> else r)
      \<lparr>r_status := Pend PENDING, r_claimed_at := None, r_not_before := None\<rparr>
    else (if stale_create now th r
        then r\<lparr>r_status := Pend AWAITING_READBACK, r_claimed_at := None, r_not_before := Some t\<rparr> else r))
   = (if \<not> stale now th r then r
      else if r_op_type r = CREATE
      then r\<lparr>r_status := Pend AWAITING_READBACK, r_claimed_at := None, r_not_before := Some t\<rparr>
      else r\<lparr>r_status := Pend PENDING, r_claimed_at := None, r_not_before := None\<rparr>)"
  by (simp add: stale_create_def stale_other_def stale_def is_running_def)

text \<open>C20: A reaper pass that holds its lock routes every row abandoned past the threshold by its kind,
  in one pass over the table: a create waits out the read-back delay, so it will be looked up and
  not sent again, any other kind returns to the backlog at once; no attempt is charged, no other
  row changes, the counts are those of the two routes, and a routed row can be claimed again once
  its wait is over. Without the lock nothing happens.\<close>

theorem reaper_routes_stale:
  "snd (reapStale now True th d s) = s\<lparr>rows := map (reap_route now th d) (rows s)\<rparr> \<and>
   deferredForReadback (fst (reapStale now True th d s)) = count_where (stale_create now th) s \<and>
   requeued (fst (reapStale now True th d s)) = count_where (stale_other now th) s \<and>
   reapStale now False th d s = (\<lparr> deferredForReadback = 0, requeued = 0 \<rparr>, s) \<and>
   (\<forall>r. r_attempt_count (reap_route now th d r) = r_attempt_count r \<and>
      (stale now th r \<and> 0 \<le> d \<longrightarrow> claimable (now + us_of_ms d) (reap_route now th d r)))"
proof -
  have "snd (reapStale now True th d s) = s\<lparr>rows := map (reap_route now th d) (rows s)\<rparr>"
    by (simp add: reapStale_def Let_def reap_creates_def reap_others_def update_where_def o_def
        reap_pass_row reap_route_def [abs_def])
  moreover have "filter (stale_other now th) (map (\<lambda>r. if stale_create now th r
      then r\<lparr>r_status := Pend AWAITING_READBACK, r_claimed_at := None, r_not_before := Some t\<rparr> else r) rs)
      = filter (stale_other now th) rs" for t rs
    by (induction rs) (auto simp: stale_create_def stale_other_def stale_def is_running_def)
  then have "requeued (fst (reapStale now True th d s)) = count_where (stale_other now th) s"
    by (simp add: reapStale_def Let_def reap_creates_def update_where_def count_where_def)
  ultimately show ?thesis
    by (auto simp: reapStale_def Let_def reap_route_def claimable_def readback_due_def)
qed

definition stranded_create :: op_row where
  "stranded_create = (row_like an_id CREATE Batch (Pend RUNNING) 5)\<lparr>r_claimed_at := Some 5\<rparr>"

theorem reaper_routes_stale_witness:
  "rows (snd (reapStale 900000000 True 600000 5000 (store_of [stranded_create]))) =
     [stranded_create\<lparr>r_status := Pend AWAITING_READBACK, r_claimed_at := None,
                      r_not_before := Some 905000000\<rparr>]"
  using reaper_routes_stale [of 900000000 600000 5000 "store_of [stranded_create]"]
  by (simp add: store_of_def reap_route_def stranded_create_def row_like_def stale_def is_running_def us_of_ms_def)

end
