(* ===== verification/Resolution_Props.thy ===== *)
theory Resolution_Props
  imports Resolution
begin

text \<open>
  What the resolution protocol guarantees, for every facade, every registry answer and every
  claimed operation: a resumed create only searches, an attempt issues at most one mutation,
  a rejected operation never reached the target, a timed-out create is never re-issued blindly,
  and a requeue is only ever concluded where a replay is safe and attempts remain.
\<close>

section \<open>Case analysis\<close>

lemma verdict_simps [simp]:
  "rs_outcome (succeed v) = Final SUCCEEDED" "rs_result (succeed v) = v"
  "rs_error (succeed v) = None" "rs_delay (succeed v) = None"
  "rs_outcome (fail_with out code) = Final out" "rs_error (fail_with out code) = Some code"
  "rs_result (fail_with out code) = None" "rs_delay (fail_with out code) = None"
  "rs_outcome (again w code ms) = w" "rs_error (again w code ms) = Some code"
  "rs_result (again w code ms) = None" "rs_delay (again w code ms) = Some ms"
  by (simp_all add: succeed_def fail_with_def again_def)

lemmas attempt_defs =
  attemptCreate_def attemptUpdate_def attemptDelta_def attemptDelete_def resumeReadBack_def Let_def

lemma backoff_outcome:
  "rs_outcome (backoffOrGiveUp dc c code x) =
     (if maxAttempts dc \<le> int (c_attempt_count c) + 1 then Final x else REQUEUE)"
  by (simp add: backoffOrGiveUp_def)

lemma resolve_deadline_outcome:
  "rs_outcome (resolveCreateAfterDeadline dc caps c cfg) \<in> {DEFER_READBACK, Final INDETERMINATE}"
  by (simp add: resolveCreateAfterDeadline_def)

lemmas outcome_simps = backoff_outcome resolveCreateAfterDeadline_def

text \<open>The three shapes of an attempt: not registered, a resumed read-back, a fresh attempt of one
  of the five kinds.\<close>

lemma attempt_cases:
  assumes "attempt dc caps now fac c runtime = (calls, r)"
  obtains (unknown) "runtime = None" "calls = []"
      "r = fail_with REJECTED_PRE_DISPATCH ''UNKNOWN_INSTANCE''"
  | (resumed) cfg where "runtime = Some cfg" "c_prior_status c = Pend AWAITING_READBACK"
      "resumeReadBack now fac c cfg = (calls, r)"
  | (create) cfg where "runtime = Some cfg" "c_prior_status c \<noteq> Pend AWAITING_READBACK"
      "c_op_type c = CREATE"
      "attemptCreate dc caps fac c cfg (optionsFor now c cfg) (attrs_of c) = (calls, r)"
  | (update) cfg opts attrs where "runtime = Some cfg" "c_prior_status c \<noteq> Pend AWAITING_READBACK"
      "c_op_type c = UPDATE" "attemptUpdate dc fac c opts attrs = (calls, r)"
  | (delete) cfg opts where "runtime = Some cfg" "c_prior_status c \<noteq> Pend AWAITING_READBACK"
      "c_op_type c = DELETE" "attemptDelete dc fac c opts = (calls, r)"
  | (delta) cfg opts attrs where "runtime = Some cfg" "c_prior_status c \<noteq> Pend AWAITING_READBACK"
      "c_op_type c \<in> {ADD_VALUES, REMOVE_VALUES}"
      "attemptDelta dc caps fac c opts attrs = (calls, r)"
proof (cases runtime)
  case None
  with assms unknown show ?thesis by (simp add: attempt_def)
next
  case (Some cfg)
  show ?thesis
  proof (cases "c_prior_status c = Pend AWAITING_READBACK")
    case True
    with assms Some resumed show ?thesis by (simp add: attempt_def)
  next
    case False
    with assms Some create update delete delta show ?thesis
      by (cases "c_op_type c") (auto simp: attempt_def Let_def)
  qed
qed

section \<open>Calls\<close>

lemma resume_calls: "resumeReadBack now fac c cfg = (calls, r) \<Longrightarrow> \<forall>k\<in>set calls. \<not> is_mutation k"
  by (auto simp: resumeReadBack_def readback_call_def Let_def split: option.splits)

text \<open>A create resumed from its read-back wait never issues a mutation: every facade call it
  makes is a schema lookup or a search, so the create is not sent a second time.\<close>

theorem resumed_create_only_reads:
  assumes "c_prior_status c = Pend AWAITING_READBACK"
  shows "\<forall>k\<in>set (fst (attempt dc caps now fac c runtime)). \<not> is_mutation k"
proof -
  obtain calls r where eq: "attempt dc caps now fac c runtime = (calls, r)" by fastforce
  then show ?thesis
  proof (cases rule: attempt_cases)
    case unknown
    with eq show ?thesis by simp
  next
    case (resumed cfg)
    with eq resume_calls show ?thesis by simp
  qed (use assms in simp_all)
qed

definition example_claim :: "op_type \<Rightarrow> pending_status \<Rightarrow> nat \<Rightarrow> claimed_op" where
  "example_claim t p n =
     \<lparr> c_id = ''op'', c_instance_id = ''ad'', c_object_class = ''user'', c_op_type = t,
       c_priority = Batch, c_lane_key = ''create:user:bob'', c_uid = None,
       c_name_attr_value = Some ''bob'', c_attrs = None, c_attempt_count = n, c_created_at = 0,
       c_idempotency_key = ''k'', c_prior_status = Pend p \<rparr>"

definition example_caps :: "string \<Rightarrow> capabilities" where
  "example_caps i = \<lparr> equalitySearchOnName = True, idempotentDelta = False \<rparr>"

definition example_config :: instance_config where
  "example_config =
     \<lparr> ic_runtime = \<lparr> attemptDeadlineMs = (\<lambda>_. 3000), mutationConcurrency = 10 \<rparr>,
       ic_scheduling = \<lparr> interactiveSliceFraction = 0, interactiveSlots = 0, batchSlots = 10,
                         rateLimits = [] \<rparr> \<rparr>"

definition timeout_error :: thrown where
  "timeout_error = \<lparr> t_connector = None, t_deadline = True, t_message = ''create exceeded'' \<rparr>"

definition timeout_facade :: facade where
  "timeout_facade call = Inl timeout_error"

theorem resumed_create_only_reads_witness:
  "c_prior_status (example_claim CREATE AWAITING_READBACK 0) = Pend AWAITING_READBACK \<and>
   filter is_mutation (fst (attempt DEFAULTS example_caps 0 timeout_facade
     (example_claim CREATE AWAITING_READBACK 0) (Some example_config))) = []"
proof -
  have "c_prior_status (example_claim CREATE AWAITING_READBACK 0) = Pend AWAITING_READBACK"
    by (simp add: example_claim_def)
  with resumed_create_only_reads [OF this] show ?thesis by (auto simp: filter_empty_conv)
qed

text \<open>One attempt sends at most one mutation to the target, whatever the facade answers.\<close>

theorem attempt_mutates_once:
  "length (filter is_mutation (fst (attempt dc caps now fac c runtime))) \<le> 1"
proof -
  obtain calls r where eq: "attempt dc caps now fac c runtime = (calls, r)" by fastforce
  then show ?thesis
  proof (cases rule: attempt_cases)
    case (resumed cfg)
    then have "filter is_mutation calls = []" using resume_calls by (auto simp: filter_empty_conv)
    with eq show ?thesis by simp
  next
    case (delta cfg opts attrs)
    with eq show ?thesis by (auto simp: attemptDelta_def Let_def split: option.splits if_splits)
  qed (use eq in \<open>auto simp: attemptCreate_def attemptUpdate_def attemptDelete_def Let_def\<close>)
qed

section \<open>Verdicts\<close>

text \<open>C19: An attempt concludes REJECTED_PRE_DISPATCH only without having made any facade call: the
  verdict that tells the caller to retry wholesale is never given by an attempt that reached the
  target.\<close>

theorem rejected_never_reached_target:
  assumes "rs_outcome (snd (attempt dc caps now fac c runtime)) = Final REJECTED_PRE_DISPATCH"
  shows "fst (attempt dc caps now fac c runtime) = []"
proof -
  obtain calls r where eq: "attempt dc caps now fac c runtime = (calls, r)" by fastforce
  then show ?thesis
  proof (cases rule: attempt_cases)
    case (resumed cfg)
    then show ?thesis using eq assms
      by (auto simp: resumeReadBack_def Let_def split: option.splits sum.splits if_splits)
  next
    case (create cfg)
    then show ?thesis using eq assms
      by (auto simp: attemptCreate_def outcome_simps Let_def split: sum.splits if_splits)
  next
    case (update cfg opts attrs)
    then show ?thesis using eq assms
      by (auto simp: attemptUpdate_def outcome_simps Let_def split: sum.splits if_splits)
  next
    case (delete cfg opts)
    then show ?thesis using eq assms
      by (auto simp: attemptDelete_def outcome_simps Let_def split: sum.splits if_splits)
  next
    case (delta cfg opts attrs)
    then show ?thesis using eq assms
      by (auto simp: attemptDelta_def outcome_simps Let_def split: option.splits sum.splits if_splits)
  qed (use eq in simp)
qed

theorem rejected_never_reached_target_witness:
  "rs_outcome (snd (attempt DEFAULTS example_caps 0 timeout_facade (example_claim DELETE PENDING 0) None))
     = Final REJECTED_PRE_DISPATCH \<and>
   fst (attempt DEFAULTS example_caps 0 timeout_facade (example_claim DELETE PENDING 0) None) = []"
proof -
  have h: "rs_outcome (snd (attempt DEFAULTS example_caps 0 timeout_facade (example_claim DELETE PENDING 0) None))
      = Final REJECTED_PRE_DISPATCH"
    by (simp add: attempt_def)
  from h rejected_never_reached_target [OF h] show ?thesis by blast
qed

text \<open>C17: A create whose attempt deadline expired, and that the target did not refuse as already
  existing, is either parked for a read-back, and then for at least its own attempt deadline plus
  the grace period, or concluded INDETERMINATE; it is never requeued, so the create is never
  re-issued while its outcome is unknown.\<close>

theorem timed_out_create_not_replayed:
  assumes "c_op_type c = CREATE" "c_prior_status c \<noteq> Pend AWAITING_READBACK"
    and "fac (CallCreate (c_object_class c) (attrs_of c) (optionsFor now c cfg)) = Inl e"
    and "t_deadline e" "\<not> has_code ALREADY_EXISTS e"
  shows "rs_outcome (snd (attempt dc caps now fac c (Some cfg))) = Final INDETERMINATE \<or>
    rs_outcome (snd (attempt dc caps now fac c (Some cfg))) = DEFER_READBACK \<and>
    rs_delay (snd (attempt dc caps now fac c (Some cfg))) =
      Some (attemptDeadlineMs (ic_runtime cfg) K_create + readBackGraceMs dc)"
proof -
  obtain calls r where eq: "attempt dc caps now fac c (Some cfg) = (calls, r)" by fastforce
  then show ?thesis
  proof (cases rule: attempt_cases)
    case (create cfg')
    with assms(3-5) have "r = resolveCreateAfterDeadline dc caps c cfg"
      by (auto simp: attemptCreate_def Let_def)
    then show ?thesis using eq by (simp add: resolveCreateAfterDeadline_def)
  qed (use assms in auto)
qed

theorem timed_out_create_not_replayed_witness:
  "rs_outcome (snd (attempt DEFAULTS example_caps 0 timeout_facade (example_claim CREATE PENDING 0)
      (Some example_config))) = DEFER_READBACK"
proof -
  let ?c = "example_claim CREATE PENDING 0"
  have t: "c_op_type ?c = CREATE" "c_prior_status ?c \<noteq> Pend AWAITING_READBACK"
    by (simp_all add: example_claim_def)
  have f: "timeout_facade (CallCreate (c_object_class ?c) (attrs_of ?c) (optionsFor 0 ?c example_config))
      = Inl timeout_error" "t_deadline timeout_error" "\<not> has_code ALREADY_EXISTS timeout_error"
    by (simp_all add: timeout_facade_def timeout_error_def has_code_def)
  have "rs_outcome (snd (attempt DEFAULTS example_caps 0 timeout_facade ?c (Some example_config)))
      \<noteq> Final INDETERMINATE"
    by (simp add: attempt_def attemptCreate_def Let_def resolveCreateAfterDeadline_def example_claim_def
        example_caps_def timeout_facade_def timeout_error_def has_code_def)
  with timed_out_create_not_replayed
    [of ?c timeout_facade 0 example_config timeout_error DEFAULTS example_caps, OF t f]
  show ?thesis by blast
qed

lemma resume_requeues:
  assumes "rs_outcome (snd (resumeReadBack now fac c cfg)) = REQUEUE"
  shows "\<exists>name res. c_name_attr_value c = Some name \<and> c_attempt_count c = 0 \<and>
    fac (readback_call now c (resolveNameAttribute fac (c_object_class c)) name cfg) = Inr res \<and>
    \<not> truthy (first_result res) \<and> resumeReadBack now fac c cfg =
      ([CallSchema, readback_call now c (resolveNameAttribute fac (c_object_class c)) name cfg],
       again REQUEUE ''READBACK_MISS'' 0)"
  using assms by (auto simp: resumeReadBack_def Let_def split: option.splits sum.splits if_splits)

text \<open>C18: A retry is safe to make and bounded: an attempt of a delta is requeued only where the
  connector declares deltas idempotent; an attempt of a create only after the create call itself
  failed, not by a deadline, with an error marked retryable; a resumed read-back only when its search
  answered and found no object, and only on the first try, so an object that was found, or a search
  that failed, is never created again; any other requeue needs an attempt left under the maximum; and
  the delay lies between zero and the configured maximum.\<close>

theorem requeue_is_safe:
  assumes "rs_outcome (snd (attempt dc caps now fac c runtime)) = REQUEUE"
  shows "(c_op_type c \<in> {ADD_VALUES, REMOVE_VALUES} \<and> c_prior_status c \<noteq> Pend AWAITING_READBACK \<longrightarrow>
        idempotentDelta (caps (c_instance_id c))) \<and>
    (c_op_type c = CREATE \<and> c_prior_status c \<noteq> Pend AWAITING_READBACK \<longrightarrow>
        (\<exists>cfg e. runtime = Some cfg \<and> \<not> t_deadline e \<and> is_retryable e \<and>
            fac (CallCreate (c_object_class c) (attrs_of c) (optionsFor now c cfg)) = Inl e)) \<and>
    (c_prior_status c = Pend AWAITING_READBACK \<longrightarrow>
        c_attempt_count c = 0 \<and>
        (\<exists>cfg name res. runtime = Some cfg \<and> c_name_attr_value c = Some name \<and>
            fac (readback_call now c (resolveNameAttribute fac (c_object_class c)) name cfg) = Inr res \<and>
            \<not> truthy (first_result res))) \<and>
    (c_prior_status c \<noteq> Pend AWAITING_READBACK \<longrightarrow> int (c_attempt_count c) + 1 < maxAttempts dc) \<and>
    (0 \<le> backoffBaseMs dc \<and> 0 \<le> backoffMaxMs dc \<longrightarrow>
        (\<exists>ms. rs_delay (snd (attempt dc caps now fac c runtime)) = Some ms \<and>
              0 \<le> ms \<and> ms \<le> backoffMaxMs dc))"
proof -
  obtain calls r where eq: "attempt dc caps now fac c runtime = (calls, r)" by fastforce
  then show ?thesis
  proof (cases rule: attempt_cases)
    case unknown
    then show ?thesis using eq assms by simp
  next
    case (resumed cfg)
    then have "rs_outcome (snd (resumeReadBack now fac c cfg)) = REQUEUE" using eq assms by simp
    from resume_requeues [OF this] resumed eq show ?thesis by (auto simp: again_def)
  next
    case (create cfg)
    obtain e where e: "sbind (fac (CallCreate (c_object_class c) (attrs_of c) (optionsFor now c cfg))) (\<lambda>created.
        sbind (js_member created ''uid'') (\<lambda>uid.
          Inr (obj_literal [(''uid'', uid), (''object'', created)]))) = Inl e"
        "\<not> t_deadline e" "is_retryable e" "r = backoffOrGiveUp dc c (codeOf e) INDETERMINATE"
      using create(4) eq assms
      by (auto simp: attemptCreate_def Let_def resolveCreateAfterDeadline_def
          split: sum.splits if_splits)
    have "fac (CallCreate (c_object_class c) (attrs_of c) (optionsFor now c cfg)) = Inl e"
      using e(1,3) by (cases "fac (CallCreate (c_object_class c) (attrs_of c) (optionsFor now c cfg))")
        (auto simp: js_member_def type_error_def is_retryable_def split: if_splits)
    then show ?thesis using create(1-3) eq assms e
      by (auto simp: backoffOrGiveUp_def split: if_splits)
  next
    case (update cfg opts attrs)
    then show ?thesis using eq assms
      by (auto simp: attemptUpdate_def backoffOrGiveUp_def Let_def split: sum.splits if_splits)
  next
    case (delete cfg opts)
    then show ?thesis using eq assms
      by (auto simp: attemptDelete_def backoffOrGiveUp_def Let_def split: sum.splits if_splits)
  next
    case (delta cfg opts attrs)
    then show ?thesis using eq assms
      by (auto simp: attemptDelta_def backoffOrGiveUp_def Let_def
          split: option.splits sum.splits if_splits)
  qed
qed

definition missing_facade :: facade where
  "missing_facade _ = Inr None"

theorem requeue_is_safe_witness:
  "rs_outcome (snd (attempt DEFAULTS example_caps 0 timeout_facade (example_claim DELETE PENDING 2) (Some example_config)))
     = REQUEUE \<and> int (c_attempt_count (example_claim DELETE PENDING 2)) + 1 < maxAttempts DEFAULTS \<and>
   rs_outcome (snd (attempt DEFAULTS example_caps 0 missing_facade (example_claim CREATE AWAITING_READBACK 0)
     (Some example_config))) = REQUEUE \<and>
   (\<exists>res. missing_facade (readback_call 0 (example_claim CREATE AWAITING_READBACK 0)
      (resolveNameAttribute missing_facade ''user'') ''bob'' example_config) = Inr res \<and> \<not> truthy (first_result res))"
proof -
  have h: "rs_outcome (snd (attempt DEFAULTS example_caps 0 timeout_facade
      (example_claim DELETE PENDING 2) (Some example_config))) = REQUEUE"
    by (simp add: attempt_def attemptDelete_def example_claim_def timeout_facade_def timeout_error_def has_code_def
        retryable_failure_def backoffOrGiveUp_def DEFAULTS_def Let_def)
  have "int (c_attempt_count (example_claim DELETE PENDING 2)) + 1 < maxAttempts DEFAULTS"
    using requeue_is_safe [OF h] by (simp add: example_claim_def)
  moreover have m: "rs_outcome (snd (attempt DEFAULTS example_caps 0 missing_facade
      (example_claim CREATE AWAITING_READBACK 0) (Some example_config))) = REQUEUE"
    by (simp add: attempt_def resumeReadBack_def example_claim_def missing_facade_def first_result_def opt_field_def
        obj_get_def truthy_def again_def Let_def)
  moreover have "\<exists>res. missing_facade (readback_call 0 (example_claim CREATE AWAITING_READBACK 0)
      (resolveNameAttribute missing_facade ''user'') ''bob'' example_config) = Inr res \<and> \<not> truthy (first_result res)"
    using requeue_is_safe [OF m] by (simp add: example_claim_def)
  ultimately show ?thesis using h by blast
qed

end
