(* ===== verification/Op_System.thy ===== *)
theory Op_System
  imports Dispatcher_Props Partition_Maintainer Store_Props Resolution_Props
begin

text \<open>
  The running service: one operation table, any number of replicas of the claim loop, the partition
  maintainer, and the target as a log of the facade calls made for each operation. One step is what
  happens between two suspensions of one of them: an accepted enqueue, a phase of a claim cycle, the
  attempt of a task, the write of its result, its cleanup, a start or stop, a crash with its restart,
  a maintenance pass. Steps interleave freely; clocks, faults, held row locks, connector answers and
  new ids (unused ones, as \<open>gen_random_uuid\<close> mints them) are arbitrary. A claim is one step: what
  two overlapping claims may do is \<open>snapshots_break_lane\<close>. The registry and the dispatcher's
  configuration do not change within a run.
\<close>

section \<open>States and steps\<close>

record 'l system =
  sy_store :: op_store
  sy_replicas :: "nat \<Rightarrow> 'l disp"
  sy_maintainer :: maintainer
  sy_calls :: "(claimed_op \<times> facade_call) list"

definition init_system :: "int list \<Rightarrow> maintainer \<Rightarrow> 'l system" where
  "init_system days m =
     \<lparr> sy_store = empty_store days, sy_replicas = (\<lambda>_. new_dispatcher), sy_maintainer = m, sy_calls = [] \<rparr>"

definition set_replica :: "nat \<Rightarrow> 'l disp \<Rightarrow> 'l system \<Rightarrow> 'l system" where
  "set_replica r d w = w\<lparr>sy_replicas := (sy_replicas w)(r := d)\<rparr>"

definition set_both :: "nat \<Rightarrow> 'l disp \<times> op_store \<Rightarrow> 'l system \<Rightarrow> 'l system" where
  "set_both r ds w = (set_replica r (fst ds) w)\<lparr>sy_store := snd ds\<rparr>"

inductive sys_step ::
  "'l disp_env \<Rightarrow> dispatcher_config \<Rightarrow> (int \<Rightarrow> string) \<Rightarrow> 'l system \<Rightarrow> 'l system \<Rightarrow> bool"
  for env dc day_text where
  enqueue: "fresh_id (sy_store w) i \<Longrightarrow> enqueue now i op (sy_store w) = Inr (res, s') \<Longrightarrow>
    sys_step env dc day_text w (w\<lparr>sy_store := s'\<rparr>)"
| start: "sys_step env dc day_text w (set_replica r (start (sy_replicas w r)) w)"
| stop: "sys_step env dc day_text w (set_replica r (stop (sy_replicas w r)) w)"
| cycle: "sys_step env dc day_text w (set_replica r (begin_cycle now (sy_replicas w r)) w)"
| reap: "sys_step env dc day_text w
    (set_both r (reap_phase env dc now dbnow fault acq (sy_replicas w r) (sy_store w)) w)"
| offer: "sys_step env dc day_text w
    (set_replica r (availability_phase env now faults (sy_store w) (sy_replicas w r)) w)"
| claim: "sys_step env dc day_text w
    (set_both r (claim_phase dc now dbnow held fault (sy_replicas w r) (sy_store w)) w)"
| register: "sys_step env dc day_text w (set_replica r (snd (register_phase now (sy_replicas w r))) w)"
| attempt: "(c, Dispatched) \<in> set (d_tasks (sy_replicas w r)) \<Longrightarrow>
    attempt_task env dc now acquire c (sy_replicas w r) = (calls, d') \<Longrightarrow>
    sys_step env dc day_text w
      ((set_replica r d' w)\<lparr>sy_calls := sy_calls w @ map (\<lambda>k. (c, k)) calls\<rparr>)"
| write_result: "(c, Concluded t0 v) \<in> set (d_tasks (sy_replicas w r)) \<Longrightarrow>
    sys_step env dc day_text w
      (set_both r (write_task now dbnow fault c (Concluded t0 v) (sy_replicas w r) (sy_store w)) w)"
| settle: "(c, Written) \<in> set (d_tasks (sy_replicas w r)) \<Longrightarrow>
    sys_step env dc day_text w (set_replica r (settle_task c (sy_replicas w r)) w)"
| crash: "sys_step env dc day_text w (set_replica r new_dispatcher w)"
| maintain: "runPass day_text now fault' (sy_maintainer w) (sy_store w) = (res', m', s') \<Longrightarrow>
    sys_step env dc day_text w (w\<lparr>sy_store := s', sy_maintainer := m'\<rparr>)"

inductive_cases sys_stepE: "sys_step env dc day_text w w'"

section \<open>What a step does to the store\<close>

text \<open>The store changes of all steps: each is one of these. Only creates are parked.\<close>

definition only_creates :: "op_store \<Rightarrow> string \<Rightarrow> bool" where
  "only_creates s i = (\<forall>q\<in>set (rows s). has_id i q \<longrightarrow> r_op_type q = CREATE)"

inductive store_change :: "op_store \<Rightarrow> op_store \<Rightarrow> bool" where
  same: "store_change s s"
| enqueued: "fresh_id s i \<Longrightarrow> enqueue now i op s = Inr (res, s') \<Longrightarrow> store_change s s'"
| claimed: "store_change s (snd (claimBatch now held l act av s))"
| reaped: "store_change s (snd (reapStale now acq th d s))"
| requeued: "store_change s (snd (requeue i s))"
| parked: "only_creates s i \<Longrightarrow> store_change s (snd (deferForReadback i t s))"
| finalized: "store_change s (snd (finalize now i x v e s))"
| maintained: "store_change s (committed today m s)"

lemma reap_phase_change: "store_change s (snd (reap_phase env dc now dbnow fault acq d s))"
  using store_change.same store_change.reaped
  by (auto simp: reap_phase_def maybeReap_def split: cycle_phase.split sum.split prod.split option.split)
    (metis snd_conv)+

lemma claim_phase_change: "store_change s (snd (claim_phase dc now dbnow held fault d s))"
  using store_change.same store_change.claimed
  by (auto simp: claim_phase_def split: cycle_phase.split prod.split option.split) (metis snd_conv)+

lemma dispatch_finalize_change:
  "(rs_outcome v = DEFER_READBACK \<Longrightarrow> only_creates s (c_id c)) \<Longrightarrow>
     store_change s (snd (dispatch_finalize now dbnow fault c v d s))"
  by (auto simp: dispatch_finalize_def safeRequeue_def Let_def split: verdict.split option.split
      intro: store_change.intros)

lemma write_task_change:
  assumes "rs_outcome v = DEFER_READBACK \<Longrightarrow> only_creates s (c_id c)"
  shows "store_change s (snd (write_task now dbnow fault c (Concluded t0 v) d s))"
proof -
  have "store_change s (snd (dispatch_finalize now dbnow fault c v d s))"
    by (rule dispatch_finalize_change [OF assms])
  then show ?thesis by (auto simp: write_task_def write_back_def split: prod.splits)
qed

text \<open>What is recorded of an operation's kind, in the hot table and in the history.\<close>

definition known :: "op_store \<Rightarrow> string \<Rightarrow> op_type \<Rightarrow> bool" where
  "known s i k =
     (i \<in> r_id ` set (rows s) \<union> h_id ` set (history s) \<and>
      (\<forall>q\<in>set (rows s). r_id q = i \<longrightarrow> r_op_type q = k) \<and>
      (\<forall>h\<in>set (history s). h_id h = i \<longrightarrow> h_op_type h = k))"

lemma known_only_creates: "store_inv s \<Longrightarrow> known s i CREATE \<Longrightarrow> only_creates s i"
proof -
  assume inv: "store_inv s" and k: "known s i CREATE"
  have "id_ok i"
    using k inv_row [OF inv] inv_history [OF inv] by (auto simp: known_def history_ok_def)
  with k show ?thesis by (simp add: known_def only_creates_def has_id_def id_ok_def)
qed

text \<open>The tasks of a replica: the store knows their operations, parked creates alone are resumed, and
  only creates conclude a deferral.\<close>

definition phase_claims :: "cycle_phase \<Rightarrow> claimed_op list" where
  "phase_claims p = (case p of Claimed t cs \<Rightarrow> cs | _ \<Rightarrow> [])"

definition claim_ok :: "op_store \<Rightarrow> claimed_op \<Rightarrow> bool" where
  "claim_ok s c =
     (known s (c_id c) (c_op_type c) \<and>
      (c_prior_status c = Pend PENDING \<or>
       c_prior_status c = Pend AWAITING_READBACK \<and> c_op_type c = CREATE))"

fun task_ok :: "op_store \<Rightarrow> claimed_op \<times> task_state \<Rightarrow> bool" where
  "task_ok s (c, Concluded t0 v) = (claim_ok s c \<and> (rs_outcome v = DEFER_READBACK \<longrightarrow> c_op_type c = CREATE))"
| "task_ok s (c, t) = claim_ok s c"

definition replica_ok :: "op_store \<Rightarrow> 'l disp \<Rightarrow> bool" where
  "replica_ok s d =
     ((\<forall>x\<in>set (d_tasks d). task_ok s x) \<and> (\<forall>c\<in>set (phase_claims (d_phase d)). claim_ok s c))"

lemma step_store_change:
  "sys_step env dc day_text w w' \<Longrightarrow> store_inv (sy_store w) \<Longrightarrow>
     (\<And>r. replica_ok (sy_store w) (sy_replicas w r)) \<Longrightarrow> store_change (sy_store w) (sy_store w')"
proof (induction rule: sys_step.induct)
  case (write_result c t0 v w r now dbnow fault)
  have "replica_ok (sy_store w) (sy_replicas w r)" by (rule write_result(3))
  then have "task_ok (sy_store w) (c, Concluded t0 v)"
    using write_result(1) unfolding replica_ok_def by blast
  then have "rs_outcome v = DEFER_READBACK \<Longrightarrow> only_creates (sy_store w) (c_id c)"
    using known_only_creates [OF write_result(2), of "c_id c"] by (auto simp: claim_ok_def)
  from write_task_change [OF this] show ?case by (simp add: set_both_def)
next
  case (maintain now fault' w res' m' s')
  have "s' = (if pm_stopped (sy_maintainer w) \<or> fault' \<noteq> None then sy_store w
      else committed (day_of now) (sy_maintainer w) (sy_store w))"
    using runPass_store [of day_text now fault' "sy_maintainer w" "sy_store w"] maintain by simp
  then show ?case by (auto intro: store_change.same store_change.maintained)
qed (auto simp: set_both_def set_replica_def reap_phase_change claim_phase_change
    intro: store_change.same store_change.enqueued)

lemma store_change_inv: "store_change s t \<Longrightarrow> store_inv s \<Longrightarrow> store_inv t"
  by (induction rule: store_change.induct)
    (auto intro: enqueue_inv claimBatch_inv reapStale_inv requeue_inv deferForReadback_inv finalize_inv
      dest: committed_keeps)

lemma enqueue_status:
  assumes inv: "store_inv s" and fresh: "fresh_id s i" and eq: "enqueue now i op s = Inr (res, s')"
    and st: "status_at s j = Some a"
  shows "status_at s' j = Some a"
  using eq
proof (cases rule: enqueue_InrE)
  case fresh
  have inv': "store_inv s'" by (rule enqueue_inv [OF inv assms(2) eq])
  from inv st show ?thesis
  proof (cases rule: status_at_cases)
    case (row r)
    then show ?thesis using status_at_row [OF inv' row(1) _ row(3)] fresh(3) by simp
  next
    case (history h)
    have "\<not> has_id j (new_row now i op)"
      using assms(2) imageI [OF history(3), of h_id] history(4) by (auto simp: fresh_id_def has_id_def)
    then show ?thesis using history fresh(3) status_at_history [OF inv' history(1)] by auto
  qed
qed (use st in simp)

lemma store_change_status:
  assumes "store_change s t" "store_inv s" "status_at s j = Some a"
  shows "\<exists>b. status_at t j = Some b \<and> lifecycle\<^sup>*\<^sup>* a b"
  using assms
proof (induction rule: store_change.induct)
  case (enqueued s i now op res s')
  then show ?case using enqueue_status by blast
next
  case (maintained s today m)
  then show ?case using committed_keeps by simp
qed (auto intro: claim_lifecycle reapStale_lifecycle requeue_lifecycle deferForReadback_lifecycle finalize_lifecycle)

lemma store_changes_status:
  assumes "store_change\<^sup>*\<^sup>* s t" "store_inv s" "status_at s j = Some a"
  shows "store_inv t \<and> (\<exists>b. status_at t j = Some b \<and> lifecycle\<^sup>*\<^sup>* a b)"
  using assms
proof (induction rule: rtranclp_induct)
  case (step t u)
  then obtain b where b: "status_at t j = Some b" "lifecycle\<^sup>*\<^sup>* a b" "store_inv t" by blast
  from store_change_status [OF step(2) b(3,1)] b(2,3) store_change_inv [OF step(2)] show ?case
    by (meson rtranclp_trans)
qed auto

section \<open>Kinds are remembered\<close>

lemma update_where_known:
  assumes "keeps_identity f" "known s i k"
  shows "known (update_where P f s) i k"
proof -
  have "r_id ` set (rows (update_where P f s)) = r_id ` set (rows s)"
    using ids_update_where(1) [OF assms(1), of P s] by (metis set_map)
  moreover have "r_op_type (f r) = r_op_type r" "r_id (f r) = r_id r" for r
    using keeps_identityD(1,6) [OF assms(1)] by simp_all
  ultimately show ?thesis using assms(2) by (auto simp: known_def rows_update_where)
qed

lemma finalized_known:
  assumes "r \<in> set (rows s)" "known s i k"
  shows "known (finalized_store now x v e r s) i k"
proof -
  have t: "r_op_type (finalize_row now x v e r) = r_op_type r" by (simp add: finalize_row_def)
  have h: "h_op_type (history_of now (finalize_row now x v e r)) = r_op_type r"
    by (simp add: history_of_def t)
  show ?thesis using assms t h by (force simp: known_def finalized_store_def)
qed

lemma drop_pass_rows: "set (rows (snd (drop_pass day_text ds m s))) \<subseteq> set (rows s)"
proof (induction ds arbitrary: m s)
  case (Cons d ds)
  show ?case
  proof (cases rule: drop_partition_cases [of d s])
    case (dropped s')
    then show ?thesis using Cons.IH [of m s'] by auto
  next
    case kept
    then show ?thesis using Cons.IH by simp
  qed
qed simp

lemma committed_rows: "set (rows (committed today m s)) \<subseteq> set (rows s)"
  using drop_pass_rows [of "\<lambda>_. ''''" _ m "ensure_partitions today (lookaheadDays m) s"]
  by (auto simp: committed_def Let_def ensure_partitions_def)

lemma committed_known:
  assumes inv: "store_inv s" and k: "known s i k"
  shows "known (committed today m s) i k"
proof -
  have c: "history (committed today m s) = history s"
    "filter (\<lambda>r. \<not> terminal (r_status r)) (rows (committed today m s))
      = filter (\<lambda>r. \<not> terminal (r_status r)) (rows s)"
    using committed_keeps [OF inv] by blast+
  have "i \<in> r_id ` set (rows (committed today m s)) \<union> h_id ` set (history s)"
  proof (cases "i \<in> h_id ` set (history s)")
    case False
    then obtain q where q: "q \<in> set (rows s)" "r_id q = i" using k by (auto simp: known_def)
    have "\<not> terminal (r_status q)"
    proof
      assume "terminal (r_status q)"
      then obtain h where "h \<in> set (history s)" "h_id h = r_id q"
        using inv_history [OF inv] q(1) unfolding history_ok_def records_def by blast
      with q(2) False show False by force
    qed
    then have "q \<in> set (filter (\<lambda>r. \<not> terminal (r_status r)) (rows (committed today m s)))"
      using q(1) by (simp only: c(2)) simp
    with q(2) show ?thesis by auto
  qed simp
  then show ?thesis using k committed_rows [of today m s] by (auto simp: known_def c(1))
qed

lemma store_change_known:
  assumes "store_change s t" "store_inv s" "known s i k"
  shows "known t i k"
  using assms
proof (induction rule: store_change.induct)
  case (enqueued s j now op res s')
  show ?case using enqueued(2)
  proof (cases rule: enqueue_InrE)
    case fresh
    have "j \<noteq> i" using enqueued(1,4) by (auto simp: fresh_id_def known_def)
    then show ?thesis using enqueued(4) fresh(3) by (auto simp: known_def)
  qed (use enqueued in simp)
next
  case (claimed s now held l act av)
  then show ?case by (simp add: claimBatch_def claim_commit_def Let_def update_where_known)
next
  case (reaped s now acq th d)
  then show ?case
    by (simp add: reapStale_def Let_def reap_creates_def reap_others_def update_where_known keeps_identity_def)
next
  case (requeued s j)
  then show ?case by (simp add: requeue_def Let_def update_where_known keeps_identity_def)
next
  case (parked s j t)
  then show ?case by (simp add: deferForReadback_def Let_def update_where_known keeps_identity_def)
next
  case (finalized s now j x v e)
  from finalized(1) show ?case
    by (cases rule: finalize_dichotomy [where i = j and now = now and out = x and res = v and err = e])
      (use finalized(2) in \<open>simp_all add: finalized_known\<close>)
next
  case (maintained s today m)
  then show ?case by (simp add: committed_known)
qed

text \<open>Parked rows are creates.\<close>

definition parked_creates :: "op_store \<Rightarrow> bool" where
  "parked_creates s = (\<forall>q\<in>set (rows s). r_status q = Pend AWAITING_READBACK \<longrightarrow> r_op_type q = CREATE)"

lemma parked_update:
  assumes "parked_creates s" "keeps_identity f"
    and "\<And>q. q \<in> set (rows s) \<Longrightarrow> P q \<Longrightarrow> r_status (f q) = Pend AWAITING_READBACK \<Longrightarrow> r_op_type q = CREATE"
  shows "parked_creates (update_where P f s)"
  using assms keeps_identityD(6) [OF assms(2)]
  by (auto simp: parked_creates_def rows_update_where split: if_splits)

lemma store_change_parked:
  assumes "store_change s t" "store_inv s" "parked_creates s"
  shows "parked_creates t"
  using assms
proof (induction rule: store_change.induct)
  case (enqueued s j now op res s')
  show ?case using enqueued(2)
    by (cases rule: enqueue_InrE) (use enqueued in \<open>auto simp: parked_creates_def\<close>)
next
  case (claimed s now held l act av)
  then show ?case by (auto simp: claimBatch_def claim_commit_def Let_def intro!: parked_update)
next
  case (reaped s now acq th d)
  then have "parked_creates (reap_creates now th d s)"
    unfolding reap_creates_def by (intro parked_update) (simp_all add: keeps_identity_def stale_create_def)
  then have "parked_creates (reap_others now th (reap_creates now th d s))"
    unfolding reap_others_def by (intro parked_update) (simp_all add: keeps_identity_def)
  with reaped show ?case by (simp add: reapStale_def Let_def)
next
  case (requeued s j)
  then show ?case by (auto simp: requeue_def Let_def keeps_identity_def intro!: parked_update)
next
  case (parked s j t)
  then show ?case
    by (auto simp: deferForReadback_def Let_def keeps_identity_def only_creates_def intro!: parked_update)
next
  case (finalized s now j x v e)
  from finalized(1) show ?case
    by (cases rule: finalize_dichotomy [where i = j and now = now and out = x and res = v and err = e])
      (use finalized(2) in \<open>auto simp: parked_creates_def finalized_store_def\<close>)
next
  case (maintained s today m)
  then show ?case using committed_rows [of today m s] by (auto simp: parked_creates_def)
qed

lemma claimed_ok:
  assumes inv: "store_inv s" and parked: "parked_creates s"
    and c: "c \<in> set (fst (claimBatch now held l act av s))"
  shows "claim_ok (snd (claimBatch now held l act av s)) c"
proof -
  obtain r where r: "r \<in> set (claimed_rows now held l act av s)" "c = to_claimed r"
    using c by (auto simp: claimBatch_fst)
  have cand: "r \<in> set (lane_candidates now act (caps_of_availability av) (rows s))"
    using claimed_rows_picked [OF inv r(1)] picked_candidate by blast
  then have row: "r \<in> set (rows s)" "claimable now r" by (simp_all add: lane_candidates_iff)
  then have live: "\<not> terminal (r_status r)" by (auto simp: claimable_def readback_due_def)
  have "r_id r \<notin> h_id ` set (history s)"
    using inv_history [OF inv] row(1) live by (simp add: history_ok_def)
  then have "\<forall>h\<in>set (history s). h_id h \<noteq> r_id r" by force
  moreover have "r_id r \<in> r_id ` set (rows s)" using row(1) by simp
  moreover have "\<forall>q\<in>set (rows s). r_id q = r_id r \<longrightarrow> r_op_type q = r_op_type r"
    using inv_same_id [OF inv _ row(1)] by blast
  ultimately have "known s (r_id r) (r_op_type r)" unfolding known_def by blast
  then have "known (snd (claimBatch now held l act av s)) (c_id c) (c_op_type c)"
    using store_change_known [OF store_change.claimed inv] r(2) by (simp add: to_claimed_def)
  moreover have "c_prior_status c = r_status r" "c_op_type c = r_op_type r"
    using r(2) by (simp_all add: to_claimed_def)
  moreover have "r_status r = Pend PENDING \<or> r_status r = Pend AWAITING_READBACK"
    using row(2) by (auto simp: claimable_def readback_due_def)
  moreover have "r_status r = Pend AWAITING_READBACK \<Longrightarrow> r_op_type r = CREATE"
    using parked row(1) by (simp add: parked_creates_def)
  ultimately show ?thesis unfolding claim_ok_def by metis
qed

section \<open>Replicas\<close>

lemma claim_ok_change: "store_change s t \<Longrightarrow> store_inv s \<Longrightarrow> claim_ok s c \<Longrightarrow> claim_ok t c"
  by (simp add: claim_ok_def store_change_known)

lemma task_ok_claim: "task_ok s x \<Longrightarrow> claim_ok s (fst x)"
  by (cases "(s, x)" rule: task_ok.cases) simp_all

lemma task_ok_change: "store_change s t \<Longrightarrow> store_inv s \<Longrightarrow> task_ok s x \<Longrightarrow> task_ok t x"
  by (cases "(s, x)" rule: task_ok.cases) (simp_all add: claim_ok_change)

lemma replica_ok_change: "store_change s t \<Longrightarrow> store_inv s \<Longrightarrow> replica_ok s d \<Longrightarrow> replica_ok t d"
  by (simp add: replica_ok_def claim_ok_change task_ok_change)

text \<open>A step of the claim cycle that leaves the tasks alone and takes no new claims.\<close>

definition keeps_tasks :: "'l disp \<Rightarrow> 'l disp \<Rightarrow> bool" where
  "keeps_tasks d d' =
     (d_tasks d' = d_tasks d \<and> phase_claims (d_phase d') \<in> {[], phase_claims (d_phase d)})"

lemma replica_ok_keeps: "keeps_tasks d d' \<Longrightarrow> replica_ok s d \<Longrightarrow> replica_ok s d'"
  by (auto simp: replica_ok_def keeps_tasks_def)

lemma keeps_tasks_core: "same_core d d' \<Longrightarrow> keeps_tasks d d'"
  by (simp add: keeps_tasks_def same_core_def)

lemmas replica_ok_core = replica_ok_keeps [OF keeps_tasks_core]

lemma begin_cycle_keeps: "keeps_tasks d (begin_cycle now d)"
  by (simp add: keeps_tasks_def begin_cycle_def phase_claims_def)

lemma maybeReap_tasks: "d_tasks (fst (maybeReap env dc now dbnow fault acq d s)) = d_tasks d"
  by (auto simp: maybeReap_def readBackDelayCeilingMs_def count_reaped_def Let_def log_error_def
      measure_out_def split: sum.split option.split prod.split)

lemma reap_phase_keeps: "keeps_tasks d (fst (reap_phase env dc now dbnow fault acq d s))"
  using maybeReap_tasks [of env dc now dbnow fault acq d s]
  by (auto simp: keeps_tasks_def reap_phase_def phase_claims_def split: cycle_phase.split prod.split)

lemma availability_phase_keeps:
  assumes "disp_ok env d"
  shows "keeps_tasks d (availability_phase env now faults s d)"
proof (cases "d_phase d")
  case (Reaped t)
  obtain res d' where c: "computeAvailability env now d = (res, d')" by fastforce
  have "cache_for env (d_configCache d)" "counters_ok d" "in_budget env (tasks_of d)"
    using assms by (simp_all add: disp_ok_def)
  from computeAvailability_ok [OF c this] have t: "d_tasks d' = d_tasks d" by (simp add: same_work_def)
  show ?thesis
    using Reaped c t sampleBacklog_core [where d = "d'\<lparr>d_phase := Ready t av\<rparr>" for av]
    by (auto simp: availability_phase_def keeps_tasks_def phase_claims_def log_error_def same_core_def
        split: sum.split list.split)
qed (simp_all add: availability_phase_def keeps_tasks_def)

text \<open>A claim phase takes claims only from a statement that ran.\<close>

lemma claim_phase_keeps:
  assumes "\<not> (fault = None \<and> (\<exists>t av. d_phase d = Ready t av))"
  shows "keeps_tasks d (fst (claim_phase dc now dbnow held fault d s))"
  using assms
  by (auto simp: claim_phase_def keeps_tasks_def phase_claims_def excludedLanes_def Let_def
      prune_deferred_def log_error_def split: cycle_phase.splits option.splits)

lemma replica_ok_new [simp]: "replica_ok s new_dispatcher"
  by (simp add: replica_ok_def new_dispatcher_def phase_claims_def)

lemma set_replace_first: "set (replace_first x y zs) \<subseteq> insert y (set zs)"
  by (induction zs) auto

lemma replica_ok_replace:
  "replica_ok s d \<Longrightarrow> task_ok s y \<Longrightarrow> replica_ok s (d\<lparr>d_tasks := replace_first x y (d_tasks d)\<rparr>)"
  using set_replace_first [of x y "d_tasks d"] by (auto simp: replica_ok_def)

lemma claim_phase_replica:
  assumes inv: "store_inv s" "parked_creates s" and ok: "replica_ok s d"
  shows "replica_ok (snd (claim_phase dc now dbnow held fault d s)) (fst (claim_phase dc now dbnow held fault d s))"
proof (cases "d_phase d")
  case (Ready t av)
  let ?x = "excludedLanes now d"
  let ?cl = "claimBatch dbnow held (claimBatchSize dc) (fst ?x) av s"
  have t: "d_tasks (snd ?x) = d_tasks d" by (simp add: excludedLanes_def Let_def prune_deferred_def)
  have s': "replica_ok (snd ?cl) d" by (rule replica_ok_change [OF store_change.claimed inv(1) ok])
  have cl: "replica_ok (snd ?cl) ((snd ?x)\<lparr>d_phase := Claimed t (fst ?cl)\<rparr>)"
    using s' t claimed_ok [OF inv, of _ dbnow held "claimBatchSize dc" "fst ?x" av]
    by (simp add: replica_ok_def phase_claims_def)
  have "replica_ok s (log_error e ((snd ?x)\<lparr>d_phase := Idle\<rparr>))" for e
    by (rule replica_ok_core [OF core_simps(3)]) (use ok t in \<open>simp add: replica_ok_def phase_claims_def\<close>)
  with cl show ?thesis using Ready by (auto simp: claim_phase_def split: prod.splits option.split)
qed (use ok in \<open>simp_all add: claim_phase_def\<close>)

lemma register_tasks_list:
  "d_tasks (fold (register_task now) cs d) = d_tasks d @ map (\<lambda>c. (c, Dispatched)) cs"
  by (induction cs arbitrary: d) (simp_all add: register_task_def Let_def measure_out_def)

lemma register_phase_replica:
  assumes "replica_ok s d"
  shows "replica_ok s (snd (register_phase now d))"
proof (cases "d_phase d")
  case (Claimed t cs)
  then show ?thesis using assms
    by (auto simp: register_phase_def register_tasks_list replica_ok_def phase_claims_def measure_out_def)
qed (use assms in \<open>simp_all add: register_phase_def\<close>)

lemma settle_task_replica: "replica_ok s d \<Longrightarrow> replica_ok s (settle_task c d)"
  using set_remove1_subset [of "(c, Written)" "d_tasks d"] by (auto simp: replica_ok_def settle_task_def)

section \<open>The target is called as the row says\<close>

fun call_ok :: "claimed_op \<Rightarrow> facade_call \<Rightarrow> bool" where
  "call_ok c CallSchema = (c_prior_status c = Pend AWAITING_READBACK)"
| "call_ok c (CallSearch oc attr name n dl) =
     (c_prior_status c = Pend AWAITING_READBACK \<and> oc = c_object_class c \<and> c_name_attr_value c = Some name)"
| "call_ok c (CallCreate oc a opts) =
     (c_op_type c = CREATE \<and> c_prior_status c \<noteq> Pend AWAITING_READBACK \<and> oc = c_object_class c \<and> a = attrs_of c)"
| "call_ok c (CallUpdate oc u a opts) =
     (c_op_type c = UPDATE \<and> oc = c_object_class c \<and> u = c_uid c \<and> a = attrs_of c)"
| "call_ok c (CallDelete oc u opts) =
     (c_op_type c = DELETE \<and> oc = c_object_class c \<and> u = c_uid c)"
| "call_ok c (CallAddValues oc u a opts) =
     (c_op_type c = ADD_VALUES \<and> oc = c_object_class c \<and> c_uid c = Some u \<and> a = attrs_of c)"
| "call_ok c (CallRemoveValues oc u a opts) =
     (c_op_type c = REMOVE_VALUES \<and> oc = c_object_class c \<and> c_uid c = Some u \<and> a = attrs_of c)"

lemma attempt_calls_ok: "\<forall>k\<in>set (fst (attempt dc caps now fac c runtime)). call_ok c k"
proof (cases "runtime = None \<or> c_prior_status c = Pend AWAITING_READBACK")
  case True
  then show ?thesis
    by (auto simp: attempt_def resumeReadBack_def readback_call_def Let_def split: option.split)
next
  case False
  then show ?thesis
    by (cases "c_op_type c")
      (auto simp: attempt_def attemptCreate_def attemptUpdate_def attemptDelete_def attemptDelta_def Let_def
        split: option.split)
qed

lemma attempt_defers_creates:
  assumes "rs_outcome (snd (attempt dc caps now fac c runtime)) = DEFER_READBACK"
  shows "c_op_type c = CREATE"
proof -
  obtain calls r where eq: "attempt dc caps now fac c runtime = (calls, r)" by fastforce
  then show ?thesis
  proof (cases rule: attempt_cases)
    case (resumed cfg)
    then show ?thesis using assms eq
      by (auto simp: resumeReadBack_def Let_def split: option.splits sum.splits if_splits)
  next
    case (update cfg opts attrs)
    then show ?thesis using assms eq
      by (auto simp: attemptUpdate_def backoffOrGiveUp_def Let_def split: sum.splits if_splits)
  next
    case (delete cfg opts)
    then show ?thesis using assms eq
      by (auto simp: attemptDelete_def backoffOrGiveUp_def Let_def split: sum.splits if_splits)
  next
    case (delta cfg opts attrs)
    then show ?thesis using assms eq
      by (auto simp: attemptDelta_def backoffOrGiveUp_def Let_def split: option.splits sum.splits if_splits)
  qed (use assms eq in auto)
qed

lemma conclude_calls:
  assumes "conclude env dc now acq c d = (calls, t, d')" "claim_ok s c"
  shows "(\<forall>k\<in>set calls. call_ok c k) \<and> task_ok s (c, t) \<and> d_tasks d' = d_tasks d \<and> d_phase d' = d_phase d"
proof (cases acq)
  case (Inl e)
  then show ?thesis using assms by (auto simp: conclude_def acquire_failed_def)
next
  case (Inr fac)
  obtain r cache where cfg: "configOf env (c_instance_id c) (d_configCache d) = (r, cache)" by fastforce
  show ?thesis
  proof (cases r)
    case (Inl e)
    then show ?thesis using assms Inr cfg by (auto simp: conclude_def dispatch_error_def log_error_def)
  next
    case (Inr runtime)
    then show ?thesis
      using assms \<open>acq = Inr fac\<close> cfg attempt_calls_ok [of dc "capabilitiesOf env" now fac c runtime]
        attempt_defers_creates [of dc "capabilitiesOf env" now fac c runtime]
      by (auto simp: conclude_def split: prod.splits)
  qed
qed

lemma attempt_task_replica:
  assumes "attempt_task env dc now acq c d = (calls, d')" "replica_ok s d" "(c, Dispatched) \<in> set (d_tasks d)"
  shows "replica_ok s d' \<and> claim_ok s c \<and> (\<forall>k\<in>set calls. call_ok c k)"
proof -
  obtain cs t d1 where eq: "conclude env dc now acq c d = (cs, t, d1)" by (metis prod_cases3)
  have "task_ok s (c, Dispatched)" using assms(2,3) unfolding replica_ok_def by blast
  then have ok: "claim_ok s c" by simp
  note f = conclude_calls [OF eq ok]
  have "replica_ok s d1" using f assms(2) by (simp add: replica_ok_def)
  from replica_ok_replace [OF this, of "(c, t)" "(c, Dispatched)"] f ok assms(1) eq
  show ?thesis by (auto simp: attempt_task_def)
qed

lemma write_task_replica:
  assumes "replica_ok s' d" "claim_ok s' c"
  shows "replica_ok s' (fst (write_task now dbnow fault c t d s))"
proof -
  obtain d1 s1 where w: "write_back now dbnow fault c t d s = (d1, s1)" by fastforce
  have "same_core d d1" using write_back_core [of d now dbnow fault c t s] w by simp
  then have "replica_ok s' d1" by (rule replica_ok_core [OF _ assms(1)])
  from replica_ok_replace [OF this, of "(c, Written)" "(c, t)"] assms(2) show ?thesis
    by (simp add: write_task_def w)
qed

section \<open>The invariant of the system\<close>

definition sys_ok :: "'l disp_env \<Rightarrow> 'l system \<Rightarrow> bool" where
  "sys_ok env w =
     (store_inv (sy_store w) \<and> parked_creates (sy_store w) \<and>
      (\<forall>r. disp_ok env (sy_replicas w r) \<and> replica_ok (sy_store w) (sy_replicas w r)) \<and>
      (\<forall>(c, k)\<in>set (sy_calls w). claim_ok (sy_store w) c \<and> call_ok c k))"

lemma init_system_ok: "sys_ok env (init_system days m)"
  by (simp add: sys_ok_def init_system_def parked_creates_def empty_store_def store_inv_empty
      [unfolded empty_store_def])

lemma sys_okD:
  assumes "sys_ok env w"
  shows "store_inv (sy_store w)" "parked_creates (sy_store w)" "disp_ok env (sy_replicas w r)"
    "replica_ok (sy_store w) (sy_replicas w r)"
  using assms by (simp_all add: sys_ok_def)

text \<open>A step that writes one replica and the store.\<close>

lemma sys_ok_both:
  assumes ok: "sys_ok env w" and ch: "store_change (sy_store w) (snd x)"
    and d: "disp_ok env (fst x)" "replica_ok (snd x) (fst x)"
  shows "sys_ok env (set_both r x w)"
proof -
  note w = sys_okD [OF ok]
  have "claim_ok (snd x) c \<and> call_ok c k" if "(c, k) \<in> set (sy_calls w)" for c k
    using ok claim_ok_change [OF ch w(1)] that by (auto simp: sys_ok_def)
  moreover have "replica_ok (snd x) (sy_replicas w q)" for q by (rule replica_ok_change [OF ch w(1,4)])
  ultimately show ?thesis
    using w d store_change_inv [OF ch w(1)] store_change_parked [OF ch w(1,2)]
    by (auto simp: sys_ok_def set_both_def set_replica_def)
qed

lemma sys_ok_store:
  assumes ok: "sys_ok env w" and ch: "store_change (sy_store w) s'"
  shows "sys_ok env (w\<lparr>sy_store := s'\<rparr>)" "sys_ok env (w\<lparr>sy_store := s', sy_maintainer := m\<rparr>)"
proof -
  note w = sys_okD [OF ok]
  have "claim_ok s' c \<and> call_ok c k" if "(c, k) \<in> set (sy_calls w)" for c k
    using ok claim_ok_change [OF ch w(1)] that by (auto simp: sys_ok_def)
  moreover have "replica_ok s' (sy_replicas w q)" for q by (rule replica_ok_change [OF ch w(1,4)])
  ultimately show "sys_ok env (w\<lparr>sy_store := s'\<rparr>)" "sys_ok env (w\<lparr>sy_store := s', sy_maintainer := m\<rparr>)"
    using w store_change_inv [OF ch w(1)] store_change_parked [OF ch w(1,2)]
    by (auto simp: sys_ok_def)
qed

lemma sys_ok_replica:
  assumes "sys_ok env w" "disp_ok env d" "replica_ok (sy_store w) d"
  shows "sys_ok env (set_replica r d w)"
  using assms by (auto simp: sys_ok_def set_replica_def)

lemma sys_step_ok:
  assumes step: "sys_step env dc day_text w w'" and ok: "sys_ok env w"
  shows "sys_ok env w'"
proof -
  note w = sys_okD [OF ok]
  have ch: "store_change (sy_store w) (sy_store w')" by (rule step_store_change [OF step w(1,4)])
  show ?thesis
    using step
  proof cases
    case (enqueue i now op res s')
    then show ?thesis using sys_ok_store [OF ok] ch by simp
  next
    case (maintain now fault' res' m' s')
    then show ?thesis using sys_ok_store [OF ok] ch by simp
  next
    case (start r)
    then show ?thesis
      using sys_ok_replica [OF ok disp_ok_core [OF core_simps(5) w(3)] replica_ok_core [OF core_simps(5) w(4)]] by blast
  next
    case (stop r)
    then show ?thesis
      using sys_ok_replica [OF ok disp_ok_core [OF core_simps(6) w(3)] replica_ok_core [OF core_simps(6) w(4)]] by blast
  next
    case (cycle r now)
    then show ?thesis
      using sys_ok_replica [OF ok begin_cycle_ok [OF w(3)] replica_ok_keeps [OF begin_cycle_keeps w(4)]] by blast
  next
    case (reap r now dbnow fault acq)
    have "store_change (sy_store w) (snd (reap_phase env dc now dbnow fault acq (sy_replicas w r) (sy_store w)))"
      by (rule reap_phase_change)
    from sys_ok_both [OF ok this reap_phase_ok [OF w(3)]
        replica_ok_keeps [OF reap_phase_keeps replica_ok_change [OF this w(1,4)]]] reap
    show ?thesis by blast
  next
    case (offer r now faults)
    then show ?thesis
      using sys_ok_replica [OF ok availability_phase_ok [OF w(3)] replica_ok_keeps [OF availability_phase_keeps [OF w(3)] w(4)]] by blast
  next
    case (claim r now dbnow held fault)
    from sys_ok_both [OF ok claim_phase_change claim_phase_ok [OF w(3,1), THEN conjunct1]
        claim_phase_replica [OF w(1,2,4)]] claim
    show ?thesis by blast
  next
    case (register r now)
    then show ?thesis
      using sys_ok_replica [OF ok register_phase_ok [OF w(3)] register_phase_replica [OF w(4)]] by blast
  next
    case (attempt c r now acquire calls d')
    from attempt_task_replica [OF attempt(3) w(4) attempt(2)]
    have a: "replica_ok (sy_store w) d'" "claim_ok (sy_store w) c" "\<forall>k\<in>set calls. call_ok c k" by simp_all
    have d': "disp_ok env d'" using attempt_task_ok [OF w(3) [of r], of dc now acquire c] attempt(3) by simp
    show ?thesis
      using sys_ok_replica [OF ok d' a(1), of r] a(2,3) attempt(1)
      by (auto simp: sys_ok_def set_replica_def)
  next
    case (write_result c t0 v r now dbnow fault)
    let ?x = "write_task now dbnow fault c (Concluded t0 v) (sy_replicas w r) (sy_store w)"
    have "task_ok (sy_store w) (c, Concluded t0 v)"
      using w(4) [of r] write_result(2) unfolding replica_ok_def by blast
    then have c: "claim_ok (sy_store w) c" by simp
    have chx: "store_change (sy_store w) (snd ?x)" using ch write_result(1) by (simp add: set_both_def)
    from sys_ok_both [OF ok chx write_task_ok [OF w(3)]
        write_task_replica [OF replica_ok_change [OF chx w(1,4)] claim_ok_change [OF chx w(1) c]]] write_result
    show ?thesis by blast
  next
    case (settle c r)
    then show ?thesis
      using sys_ok_replica [OF ok settle_task_ok [OF w(3)] settle_task_replica [OF w(4)]] by blast
  next
    case (crash r)
    then show ?thesis using sys_ok_replica [OF ok new_dispatcher_ok replica_ok_new] by blast
  qed
qed

lemma reachable_ok:
  "(sys_step env dc day_text)\<^sup>*\<^sup>* w w' \<Longrightarrow> sys_ok env w \<Longrightarrow> sys_ok env w'"
  by (induction rule: rtranclp_induct) (simp_all add: sys_step_ok)

lemma run_store_changes:
  assumes "(sys_step env dc day_text)\<^sup>*\<^sup>* w w'" "sys_ok env w"
  shows "store_change\<^sup>*\<^sup>* (sy_store w) (sy_store w')"
  using assms
proof (induction rule: rtranclp_induct)
  case (step u v)
  have "sys_ok env u" by (rule reachable_ok [OF step(1) step(4)])
  then have "store_change (sy_store u) (sy_store v)" using step_store_change [OF step(2)] sys_okD by blast
  with step(3,4) show ?case by (auto intro: rtranclp.rtrancl_into_rtrancl)
qed simp

end
