(* ===== verification/Http_Props.thy ===== *)
theory Http_Props
  imports Http_Routes Op_System
begin

text \<open>
  Properties of the HTTP surface: nothing happens without authentication, leases are released, an
  accepted operation can be polled in every later state of the running service, the status answer
  carries the outcome exactly when there is one, and unknown errors are opaque.
\<close>

section \<open>Bookkeeping\<close>

definition acquired :: "string \<Rightarrow> effect list \<Rightarrow> nat" where
  "acquired i es = length (filter (\<lambda>e. e = Acquired i) es)"

definition released :: "string \<Rightarrow> effect list \<Rightarrow> nat" where
  "released i es = length (filter (\<lambda>e. e = Released i) es)"

lemma lease_counts [simp]:
  "acquired i [] = 0" "released i [] = 0"
  "acquired i (e # es) = (if e = Acquired i then 1 else 0) + acquired i es"
  "released i (e # es) = (if e = Released i then 1 else 0) + released i es"
  "acquired i (es @ fs) = acquired i es + acquired i fs"
  "released i (es @ fs) = released i es + released i fs"
  by (simp_all add: acquired_def released_def)

definition balanced :: "effect list \<Rightarrow> bool" where
  "balanced es = (\<forall>i. acquired i es = released i es)"

lemma error_log_balanced [simp]: "acquired i (error_log e) = 0" "released i (error_log e) = 0"
  by (simp_all add: error_log_def)

lemma conclude_balanced:
  "balanced (hr_effects (conclude_request h ty es s)) = balanced es"
  by (cases h) (simp_all add: conclude_request_def balanced_def)

lemma balanced_simps: "balanced []" "balanced [Pinged]" "balanced (Ensured i # es) = balanced es"
  by (simp_all add: balanced_def)

lemma conclude_store [simp]: "hr_store (conclude_request h ty es s) = s"
  by (cases h) (simp_all add: conclude_request_def)

lemma conclude_answered [simp]:
  "(\<exists>y. hr_response (conclude_request h ty es s) = Some y) \<longleftrightarrow> h \<noteq> Waiting"
  by (cases h) (simp_all add: conclude_request_def)

text \<open>A request is answered at once, or by the objects router behind the middleware.\<close>

lemma app_routes_shape:
  "(\<exists>h. app_routes env rq body s = conclude_request h None [] s \<and> h \<noteq> Waiting \<and>
      (\<forall>r. h = Done r \<longrightarrow> rp_status r \<noteq> 202)) \<or>
   (\<exists>inst oc rest. app_routes env rq body s = objects_router env inst oc rest rq body s)"
proof -
  let ?S = "\<lambda>h. h \<noteq> Waiting \<and> (\<forall>r. h = Done r \<longrightarrow> rp_status r \<noteq> 202)"
  have ops: "?S (operations_route env i s)" for i
    by (simp add: operations_route_def json_response_def split: option.split)
  have nf: "?S (Done not_found_page)" by (simp add: not_found_page_def)
  consider (op) i where "rq_path rq = [''operations'', i]" "rq_method rq = GET"
    | (objects) inst oc rest where "rq_path rq = ''instances'' # inst # ''objects'' # oc # rest"
    | (other) "app_routes env rq body s = conclude_request (Done not_found_page) None [] s"
    by (fastforce simp: app_routes_def split: list.splits if_splits)
  then show ?thesis
  proof cases
    case op
    then show ?thesis using ops by (auto simp: app_routes_def)
  next
    case objects
    then show ?thesis by (auto simp: app_routes_def)
  qed (use nf in blast)
qed

lemma createApp_shape:
  "(\<exists>h es. createApp env auth rq s = conclude_request h None es s \<and> h \<noteq> Waiting \<and> (es = [] \<or> es = [Pinged])) \<or>
   (\<exists>inst oc rest body. createApp env auth rq s = objects_router env inst oc rest rq body s)"
proof (cases "rq_body rq")
  case (Inr body)
  show ?thesis
  proof (cases "auth rq")
    case AuthPass
    consider "createApp env auth rq s = conclude_request (Done healthz) None [] s"
      | "createApp env auth rq s = conclude_request (Done (readyz env)) None [Pinged] s"
      | "createApp env auth rq s = app_routes env rq body s"
      unfolding createApp_def Inr AuthPass sum.case auth_answer.case by presburger
    then show ?thesis using app_routes_shape [of env rq body s] by cases (blast, blast, metis)
  qed (auto simp: createApp_def Inr)
qed (auto simp: createApp_def)

lemma objects_router_cases:
  obtains (direct) h where "objects_router env inst oc rest rq body s = conclude_request h None [Ensured inst] s"
      "h \<noteq> Waiting" "\<forall>r. h = Done r \<longrightarrow> rp_status r \<noteq> 202"
  | (mutate) t b uid h es s' where "enqueueRoute t b env inst oc uid rq body s = (h, es, s')"
      "objects_router env inst oc rest rq body s = conclude_request h None (Ensured inst # es) s'"
  | (get) uid h es where "get_route env inst oc uid = (h, es)"
      "objects_router env inst oc rest rq body s = conclude_request h None (Ensured inst # es) s"
  | (search) h ty es where "search_route env inst oc rq = ((h, ty), es)"
      "objects_router env inst oc rest rq body s = conclude_request h ty (Ensured inst # es) s"
proof (cases "ev_ensure env inst")
  case (Some e)
  then show ?thesis by (intro direct [of "Next e"]) (simp_all add: objects_router_def)
next
  case ensured: None
  show ?thesis
  proof (cases "object_route_of (rq_method rq) rest")
    case None
    then show ?thesis
      by (intro direct [of "Done not_found_page"]) (simp_all add: objects_router_def ensured not_found_page_def)
  next
    case (Some a)
    show ?thesis
    proof (cases a)
      case (Mutate t b uid)
      obtain h es s' where eq: "enqueueRoute t b env inst oc uid rq body s = (h, es, s')" by (metis prod_cases3)
      show ?thesis by (rule mutate [OF eq]) (simp add: objects_router_def ensured Some Mutate eq)
    next
      case (GetOne uid)
      obtain h es where eq: "get_route env inst oc uid = (h, es)" by fastforce
      show ?thesis by (rule get [OF eq]) (simp add: objects_router_def ensured Some GetOne eq)
    next
      case SearchAll
      obtain h ty es where eq: "search_route env inst oc rq = ((h, ty), es)" by (metis surj_pair)
      show ?thesis by (rule search [OF eq]) (simp add: objects_router_def ensured Some SearchAll eq)
    qed
  qed
qed

section \<open>Authentication comes first\<close>

definition inert :: "effect list \<Rightarrow> bool" where
  "inert es = list_all (\<lambda>e. e = Pinged \<or> (\<exists>x. e = Logged x)) es"

text \<open>Without authentication nothing happens: a request the middleware refuses changes nothing in
  the table, registers no application, takes no lease and calls no target, whatever its path, method
  and body; and beyond the two health probes and bodies that could not be parsed it is answered what
  the middleware answered.\<close>

lemma refused_requests_inert:
  assumes "auth rq = AuthRespond r"
  shows "hr_store (createApp env auth rq s) = s \<and> inert (hr_effects (createApp env auth rq s)) \<and>
    (rq_path rq \<noteq> [''healthz''] \<and> rq_path rq \<noteq> [''readyz''] \<and> (\<forall>e. rq_body rq \<noteq> Inl e) \<longrightarrow>
       hr_response (createApp env auth rq s) = Some r)"
  using assms
  by (auto simp: createApp_def conclude_request_def inert_def error_log_def split: sum.split)

definition plain_env :: http_env where
  "plain_env =
     \<lparr> ev_ensure = (\<lambda>_. None), ev_acquire = (\<lambda>_. Inr (\<lambda>_. Inr None)), ev_get = (\<lambda>_ _ _. Inr None),
       ev_search = (\<lambda>_ _ _. ([JNull], None)), ev_sink = [], ev_ping = None, ev_status_fault = None,
       ev_stringify = (\<lambda>_. ''x''), ev_uuid = ''u'', ev_now = 5, ev_new_id = an_id, ev_db_text = (\<lambda>_. ''db''),
        ev_counts = (\<lambda>_. Inr \<lparr> interactive_count = 0, batch_count = 0 \<rparr>), ev_caps = no_caps \<rparr>"

definition delete_request :: request where
  "delete_request =
     \<lparr> rq_method = DELETE_M, rq_path = [''instances'', ''ad'', ''objects'', ''user'', ''u1''],
       rq_idempotency_key = Some ''k1'', rq_authorization = None, rq_filter = None, rq_body = Inr None \<rparr>"

section \<open>Leases\<close>

definition sink_moves :: "sink_event \<Rightarrow> bool" where
  "sink_moves k = (sk_stopped_before k \<or> sk_taken k \<or> sk_drains k)"

lemma stream_ends:
  "\<forall>k\<in>set sks. sink_moves k \<Longrightarrow> snd (stream_objects f sks xs err) \<noteq> None"
proof (induction f sks xs err rule: stream_objects.induct)
  case (2 f sks x xs err)
  have k: "sink_moves (case sks of [] \<Rightarrow> calm | k # _ \<Rightarrow> k)"
    using "2.prems" by (cases sks) (simp_all add: sink_moves_def calm_def)
  have "\<forall>k\<in>set (tl sks). sink_moves k" using "2.prems" by (cases sks) simp_all
  with 2 k show ?case
    by (auto simp: ndjson_handler_def sink_moves_def split: option.split bool.split prod.split)
qed simp

lemma enqueueRoute_leases:
  "enqueueRoute t b env inst oc uid rq body s = (h, es, s') \<Longrightarrow> balanced es \<and> h \<noteq> Waiting"
  by (auto simp: enqueueRoute_def name_value_def Let_def balanced_def
      split: sum.splits prod.splits if_splits option.splits)

lemma get_route_leases: "get_route env inst oc uid = (h, es) \<Longrightarrow> balanced es \<and> h \<noteq> Waiting"
  by (auto simp: get_route_def balanced_def split: sum.splits if_splits)

lemma search_route_leases:
  "\<forall>k\<in>set (ev_sink env). sink_moves k \<Longrightarrow> search_route env inst oc rq = ((h, ty), es) \<Longrightarrow>
   balanced es \<and> h \<noteq> Waiting"
  using stream_ends [of "ev_sink env" "ev_stringify env"]
  by (auto simp: search_route_def Let_def balanced_def split: sum.splits prod.splits option.splits if_splits)
    (metis snd_conv option.distinct(1))+

lemma objects_router_leases:
  assumes "\<forall>k\<in>set (ev_sink env). sink_moves k"
  shows "hr_response (objects_router env inst oc rest rq body s) \<noteq> None \<and>
    balanced (hr_effects (objects_router env inst oc rest rq body s))"
  by (cases rule: objects_router_cases [of env inst oc rest rq body s])
    (auto simp: conclude_balanced balanced_simps
      dest: enqueueRoute_leases get_route_leases search_route_leases [OF assms])

lemma requests_answered:
  assumes "\<forall>k\<in>set (ev_sink env). sink_moves k"
  shows "hr_response (createApp env auth rq s) \<noteq> None \<and> balanced (hr_effects (createApp env auth rq s))"
  using createApp_shape [of env auth rq s] objects_router_leases [OF assms]
  by (elim disjE exE conjE) (auto simp: conclude_balanced balanced_simps)

text \<open>C21: Every request is answered and gives back what it took: if the socket drains whenever its buffer
  is full, each request of each kind, failing or not, gets a response, and has released every lease
  it acquired by then.\<close>

theorem requests_release_leases:
  assumes "\<forall>k\<in>set (ev_sink env). sink_moves k"
  shows "hr_response (createApp env auth rq s) \<noteq> None \<and>
    acquired i (hr_effects (createApp env auth rq s)) = released i (hr_effects (createApp env auth rq s))"
  using requests_answered [OF assms] by (simp add: balanced_def)

definition search_request :: request where
  "search_request = delete_request\<lparr>rq_method := GET, rq_path := [''instances'', ''ad'', ''objects'', ''user'']\<rparr>"

theorem requests_release_leases_witness:
  "hr_effects (createApp plain_env (\<lambda>_. AuthPass) search_request (empty_store [0])) =
     [Ensured ''ad'', Acquired ''ad'', Searched ''ad'' ''user'' None, Released ''ad''] \<and>
   hr_response (createApp plain_env (\<lambda>_. AuthPass) search_request (empty_store [0])) \<noteq> None"
proof -
  have s: "\<forall>k\<in>set (ev_sink plain_env). sink_moves k" by (simp add: plain_env_def)
  have "hr_effects (createApp plain_env (\<lambda>_. AuthPass) search_request (empty_store [0])) =
     [Ensured ''ad'', Acquired ''ad'', Searched ''ad'' ''user'' None, Released ''ad'']" by code_simp
  then show ?thesis using requests_release_leases [OF s] by blast
qed

text \<open>A client that goes away while the buffer is full leaves the search waiting for a drain that never
  comes: the request is never concluded and its lease never released.\<close>

theorem abandoned_search_keeps_lease:
  "hr_response (createApp (plain_env\<lparr>ev_sink := [calm\<lparr>sk_taken := False, sk_drains := False\<rparr>]\<rparr>)
       (\<lambda>_. AuthPass) search_request (empty_store [0])) = None \<and>
   hr_effects (createApp (plain_env\<lparr>ev_sink := [calm\<lparr>sk_taken := False, sk_drains := False\<rparr>]\<rparr>)
       (\<lambda>_. AuthPass) search_request (empty_store [0])) =
     [Ensured ''ad'', Acquired ''ad'', Searched ''ad'' ''user'' None]"
  by code_simp

section \<open>Accepted operations\<close>

lemma conclude_202:
  assumes "hr_response (conclude_request h ty es s) = Some r" "rp_status r = 202"
  shows "h = Done r"
proof (cases h)
  case (Next e)
  then have "rp_status r = me_status (mapError e)"
    using assms(1) by (auto simp: conclude_request_def error_response_def json_response_def)
  with assms(2) mapError_status [of e] show ?thesis by simp
qed (use assms in \<open>simp_all add: conclude_request_def\<close>)

lemma get_route_not_202: "get_route env inst oc uid = (Done r, es) \<Longrightarrow> rp_status r \<noteq> 202"
  by (auto simp: get_route_def json_response_def split: sum.splits if_splits)

lemma search_route_not_202: "search_route env inst oc rq = ((Done r, ty), es) \<Longrightarrow> rp_status r \<noteq> 202"
  by (auto simp: search_route_def ndjson_response_def Let_def split: sum.splits prod.splits option.splits if_splits)

lemma enqueueRoute_202:
  assumes "enqueueRoute t b env inst oc uid rq body s = (Done r, es, s')"
  obtains op res where "enqueue (ev_now env) (ev_new_id env) op s = Inr (res, s')"
    "rp_content r = Json (accepted_body res (idempotencyKeyOf env rq))"
    "e_idempotency_key op = idempotencyKeyOf env rq" "e_op_type op = t" "e_instance_id op = inst"
proof -
  from assms obtain a res where
    a: "admitAndEnqueue (ev_now env) (ev_new_id env) (ev_caps env) (ev_counts env inst) a s = Inr (res, s')"
    "rp_content r = Json (accepted_body res (idempotencyKeyOf env rq))"
    "e_idempotency_key (a_input a) = idempotencyKeyOf env rq" "e_op_type (a_input a) = t"
    "e_instance_id (a_input a) = inst"
    by (auto simp: enqueueRoute_def Let_def json_response_def mutation_input_def
        split: sum.splits prod.splits if_splits)
  from a(1) obtain n op where "admit_check (ev_caps env) n a = Inr op"
    "enqueue (ev_now env) (ev_new_id env) op s = Inr (res, s')" by (rule admitAndEnqueue_InrE)
  with a admit_check_Inr show ?thesis by (intro that [of op res]) auto
qed

lemma objects_router_202:
  assumes "hr_response (objects_router env inst oc rest rq body s) = Some r" "rp_status r = 202"
  obtains op res where
    "enqueue (ev_now env) (ev_new_id env) op s = Inr (res, hr_store (objects_router env inst oc rest rq body s))"
    "rp_content r = Json (accepted_body res (idempotencyKeyOf env rq))"
    "e_idempotency_key op = idempotencyKeyOf env rq"
proof (cases rule: objects_router_cases [of env inst oc rest rq body s])
  case (direct h)
  then show ?thesis using assms conclude_202 by metis
next
  case (mutate t b uid h es s')
  then have "h = Done r" using assms conclude_202 by metis
  with mutate show ?thesis using enqueueRoute_202 that by (metis conclude_store)
next
  case (get uid h es)
  then show ?thesis using assms conclude_202 get_route_not_202 by metis
next
  case (search h ty es)
  then show ?thesis using assms conclude_202 search_route_not_202 by metis
qed

lemma createApp_202:
  assumes "auth rq = AuthPass" "hr_response (createApp env auth rq s) = Some r" "rp_status r = 202"
  obtains op res where "enqueue (ev_now env) (ev_new_id env) op s = Inr (res, hr_store (createApp env auth rq s))"
    "rp_content r = Json (accepted_body res (idempotencyKeyOf env rq))"
    "e_idempotency_key op = idempotencyKeyOf env rq"
proof (cases "rq_body rq")
  case (Inl e)
  then have "createApp env auth rq s = conclude_request (Next e) None [] s" by (simp add: createApp_def)
  then show ?thesis using assms(2,3) conclude_202 by fastforce
next
  case (Inr body)
  consider (health) "createApp env auth rq s = conclude_request (Done healthz) None [] s"
    | (ready) "createApp env auth rq s = conclude_request (Done (readyz env)) None [Pinged] s"
    | (routes) "createApp env auth rq s = app_routes env rq body s"
    unfolding createApp_def Inr assms(1) sum.case auth_answer.case by presburger
  then show ?thesis
  proof cases
    case health
    then show ?thesis using assms(2,3) conclude_202 by (fastforce simp: healthz_def json_response_def)
  next
    case ready
    then show ?thesis using assms(2,3) conclude_202
      by (fastforce simp: readyz_def json_response_def split: option.splits)
  next
    case routes
    from app_routes_shape [of env rq body s] show ?thesis
    proof
      assume "\<exists>h. app_routes env rq body s = conclude_request h None [] s \<and> h \<noteq> Waiting \<and>
          (\<forall>r. h = Done r \<longrightarrow> rp_status r \<noteq> 202)"
      then show ?thesis using assms(2,3) routes conclude_202 by metis
    next
      assume "\<exists>inst oc rest. app_routes env rq body s = objects_router env inst oc rest rq body s"
      then show ?thesis using assms(2,3) routes objects_router_202 that by metis
    qed
  qed
qed

text \<open>A poll for the status of an operation.\<close>

definition poll_request :: "string \<Rightarrow> request \<Rightarrow> bool" where
  "poll_request oid rq =
     (rq_method rq = GET \<and> rq_path rq = [''operations'', oid] \<and> (\<forall>e. rq_body rq \<noteq> Inl e))"

lemma poll_answer:
  assumes "poll_request oid rq" "auth rq = AuthPass" "ev_status_fault env = None"
  shows "hr_response (createApp env auth rq s) = Some
    (case getStatus oid s of
       None \<Rightarrow> json_response 404 (problem ''not_found'' ''no operation with that id'')
     | Some row \<Rightarrow> json_response 200 (status_json row))"
  using assms
  by (cases "rq_body rq")
    (auto simp: poll_request_def createApp_def app_routes_def operations_route_def conclude_request_def
      split: option.split)

lemma getStatus_canonical:
  assumes "id_ok i" "getStatus i s = Some row"
  shows "s_id row = i"
proof -
  have "uuid_of i = i" using assms(1) by (simp add: id_ok_def)
  then have q: "List.find (has_id i) (rows s) = Some q \<Longrightarrow> r_id q = i"
    and h: "List.find (\<lambda>h. h_id h = uuid_of i) (history s) = Some h \<Longrightarrow> h_id h = i" for q h
    by (auto simp: has_id_def dest!: find_Some_mem)
  show ?thesis
  proof (cases "List.find (has_id i) (rows s)")
    case None
    then show ?thesis using assms(2) h
      by (auto simp: getStatus_def status_of_history_def split: if_splits)
  next
    case (Some r)
    then show ?thesis using assms(2) q [OF Some]
      by (auto simp: getStatus_def status_of_row_def split: if_splits)
  qed
qed

lemma accepted_known:
  assumes "(sys_step denv dc day_text)\<^sup>*\<^sup>* (init_system days m) w"
    and "fresh_id (sy_store w) (ev_new_id env)" "auth rq = AuthPass"
    and "hr_response (createApp env auth rq (sy_store w)) = Some r" "rp_status r = 202"
    and "(sys_step denv dc day_text)\<^sup>*\<^sup>* (w\<lparr>sy_store := hr_store (createApp env auth rq (sy_store w))\<rparr>) w'"
  obtains res row where "rp_content r = Json (accepted_body res (idempotencyKeyOf env rq))"
    "getStatus (er_id res) (sy_store w') = Some row" "s_id row = er_id res"
    "(sys_step denv dc day_text)\<^sup>*\<^sup>* (init_system days m) w'" "id_ok (er_id res)"
proof -
  obtain op res where op: "enqueue (ev_now env) (ev_new_id env) op (sy_store w)
      = Inr (res, hr_store (createApp env auth rq (sy_store w)))"
    "rp_content r = Json (accepted_body res (idempotencyKeyOf env rq))"
    using assms(3-5) by (rule createApp_202)
  let ?w = "w\<lparr>sy_store := hr_store (createApp env auth rq (sy_store w))\<rparr>"
  have inv: "store_inv (sy_store w)" using sys_okD(1) reachable_ok [OF assms(1) init_system_ok] by blast
  have "sys_step denv dc day_text w ?w" by (rule sys_step.enqueue [OF assms(2) op(1)])
  with assms(1) have reach: "(sys_step denv dc day_text)\<^sup>*\<^sup>* (init_system days m) ?w" by simp
  then have ok: "sys_ok denv ?w" by (rule reachable_ok [OF _ init_system_ok])
  obtain q where "q \<in> set (rows (sy_store ?w))" "r_id q = er_id res"
    using enqueue_row [OF inv assms(2) op(1)] by auto
  then have id: "id_ok (er_id res)" using inv_row [OF sys_okD(1) [OF ok]] by metis
  obtain a where "status_at (sy_store ?w) (er_id res) = Some a"
    using enqueue_idempotent [OF inv assms(2) op(1) refl] by auto
  then obtain b where "status_at (sy_store w') (er_id res) = Some b"
    using store_changes_status [OF run_store_changes [OF assms(6) ok] sys_okD(1) [OF ok]] by blast
  then obtain row where row: "getStatus (er_id res) (sy_store w') = Some row"
    by (auto simp: status_at_def)
  have "s_id row = er_id res" by (rule getStatus_canonical [OF id row])
  moreover have "(sys_step denv dc day_text)\<^sup>*\<^sup>* (init_system days m) w'" using reach assms(6) by (rule rtranclp_trans)
  ultimately show ?thesis using that op(2) row id by blast
qed

text \<open>C6: What is accepted can be polled, always: when a mutation is answered 202 in a reachable state of the
  running service, then in every state the service runs into afterwards, through claims, retries,
  crashes, reaping and dropped partitions, a poll of the answered operation id is answered 200 with
  that operation.\<close>

theorem accepted_stays_pollable:
  assumes "(sys_step denv dc day_text)\<^sup>*\<^sup>* (init_system days m) w"
    and "fresh_id (sy_store w) (ev_new_id env)" "auth rq = AuthPass"
    and "hr_response (createApp env auth rq (sy_store w)) = Some r" "rp_status r = 202"
    and "(sys_step denv dc day_text)\<^sup>*\<^sup>* (w\<lparr>sy_store := hr_store (createApp env auth rq (sy_store w))\<rparr>) w'"
  shows "\<exists>res. rp_content r = Json (accepted_body res (idempotencyKeyOf env rq)) \<and>
    (\<forall>env' auth' rq'. poll_request (er_id res) rq' \<and> auth' rq' = AuthPass \<and> ev_status_fault env' = None \<longrightarrow>
       (\<exists>row. hr_response (createApp env' auth' rq' (sy_store w')) = Some (json_response 200 (status_json row)) \<and>
          s_id row = er_id res))"
proof -
  obtain res row where "rp_content r = Json (accepted_body res (idempotencyKeyOf env rq))"
    "getStatus (er_id res) (sy_store w') = Some row" "s_id row = er_id res"
    using assms by (rule accepted_known)
  then show ?thesis using poll_answer by fastforce
qed

definition poll_of :: "string \<Rightarrow> request" where
  "poll_of oid = delete_request\<lparr>rq_method := GET, rq_path := [''operations'', oid]\<rparr>"

definition first_system :: "unit system" where
  "first_system = init_system [0] (new_maintainer 1 None None None)"

theorem accepted_stays_pollable_witness:
  "\<exists>r res row. hr_response (createApp plain_env (\<lambda>_. AuthPass) delete_request (sy_store first_system)) = Some r \<and>
     rp_content r = Json (accepted_body res ''k1'') \<and>
     hr_response (createApp plain_env (\<lambda>_. AuthPass) (poll_of (er_id res))
       (hr_store (createApp plain_env (\<lambda>_. AuthPass) delete_request (sy_store first_system))))
       = Some (json_response 200 (status_json row)) \<and> s_id row = er_id res"
proof -
  let ?a = "createApp plain_env (\<lambda>_. AuthPass) delete_request (sy_store first_system)"
  have w: "(sys_step example_env DEFAULTS (\<lambda>_. ''d''))\<^sup>*\<^sup>* (init_system [0] (new_maintainer 1 None None None)) first_system"
    by (simp add: first_system_def)
  have f: "fresh_id (sy_store first_system) (ev_new_id plain_env)"
    by (simp add: first_system_def init_system_def plain_env_def)
  have "map_option rp_status (hr_response ?a) = Some 202" by code_simp
  then obtain r where r: "hr_response ?a = Some r" "rp_status r = 202" by auto
  have run: "(sys_step example_env DEFAULTS (\<lambda>_. ''d''))\<^sup>*\<^sup>*
      (first_system\<lparr>sy_store := hr_store ?a\<rparr>) (first_system\<lparr>sy_store := hr_store ?a\<rparr>)" by simp
  obtain res where res: "rp_content r = Json (accepted_body res (idempotencyKeyOf plain_env delete_request))"
    "\<forall>env' auth' rq'. poll_request (er_id res) rq' \<and> auth' rq' = AuthPass \<and> ev_status_fault env' = None \<longrightarrow>
       (\<exists>row. hr_response (createApp env' auth' rq' (sy_store (first_system\<lparr>sy_store := hr_store ?a\<rparr>)))
          = Some (json_response 200 (status_json row)) \<and> s_id row = er_id res)"
    using accepted_stays_pollable [of example_env DEFAULTS "\<lambda>_. ''d''" "[0]" "new_maintainer 1 None None None",
        OF w f _ r run] by blast
  have "poll_request (er_id res) (poll_of (er_id res))" "ev_status_fault plain_env = None"
    by (simp_all add: poll_request_def poll_of_def delete_request_def plain_env_def)
  moreover have "idempotencyKeyOf plain_env delete_request = ''k1''" by code_simp
  ultimately show ?thesis using r(1) res by fastforce
qed

section \<open>The status answer\<close>

lemma obj_literal_get:
  assumes "distinct (map fst kvs)"
  shows "obj_get (obj_fields (Some (obj_literal kvs))) k = (case map_of kvs k of None \<Rightarrow> None | Some v \<Rightarrow> v)"
  using assms
proof (induction kvs)
  case (Cons p kvs)
  obtain j v where p: "p = (j, v)" by fastforce
  have "map_of kvs j = None" using Cons.prems p by (simp add: map_of_eq_None_iff)
  moreover have IH: "obj_get (obj_fields (Some (obj_literal kvs))) k =
      (case map_of kvs k of None \<Rightarrow> None | Some v \<Rightarrow> v)"
    using Cons by simp
  ultimately show ?case using p by (cases v) (auto simp: obj_literal_def obj_get_def)
qed (simp add: obj_literal_def obj_get_def)

lemma status_json_get:
  "obj_get (obj_fields (Some (status_json row))) ''status'' = Some (JStr (status_name (s_status row)))"
  "obj_get (obj_fields (Some (status_json row))) ''outcome'' = outcome_field (s_status row)"
  "obj_get (obj_fields (Some (status_json row))) ''operationId'' = Some (JStr (s_id row))"
  "obj_get (obj_fields (Some (status_json row))) ''type'' = Some (JStr (op_type_name (s_op_type row)))"
  unfolding status_json_def by (subst obj_literal_get; simp)+

text \<open>The status answer tells a caller when to stop: the poll of an operation the table knows is answered
  200 with its current status, and carries an outcome, equal to that status, exactly when the status
  is terminal.\<close>

theorem poll_reports_outcome:
  assumes "poll_request oid rq" "auth rq = AuthPass" "ev_status_fault env = None" "status_at s oid = Some st"
  shows "\<exists>body. hr_response (createApp env auth rq s) = Some (json_response 200 body) \<and>
    obj_get (obj_fields (Some body)) ''status'' = Some (JStr (status_name st)) \<and>
    obj_get (obj_fields (Some body)) ''outcome'' = (if terminal st then Some (JStr (status_name st)) else None)"
proof -
  obtain row where row: "getStatus oid s = Some row" "s_status row = st"
    using assms(4) by (auto simp: status_at_def)
  then show ?thesis
    using poll_answer [of oid rq auth env s, OF assms(1) assms(2) assms(3)] status_json_get
    by (intro exI [of _ "status_json row"]) (simp add: outcome_field_def terminal_iff_TERMINAL_STATUSES)
qed

theorem poll_reports_outcome_witness:
  "\<exists>body. hr_response (createApp plain_env (\<lambda>_. AuthPass) (poll_of an_id) (store_of [new_row 5 an_id delete_input])) =
     Some (json_response 200 body) \<and> obj_get (obj_fields (Some body)) ''outcome'' = None"
proof -
  have p: "poll_request an_id (poll_of an_id)" "ev_status_fault plain_env = None"
    by (simp_all add: poll_request_def poll_of_def delete_request_def plain_env_def)
  have s: "status_at (store_of [new_row 5 an_id delete_input]) an_id = Some (Pend PENDING)" by code_simp
  show ?thesis using poll_reports_outcome [of an_id "poll_of an_id" "\<lambda>_. AuthPass", OF p(1) refl p(2) s] by auto
qed

section \<open>Errors\<close>

text \<open>A handler that changed the table answers 202, and the change is the insert of one row.\<close>

lemma enqueueRoute_writes:
  assumes "enqueueRoute t b env inst oc uid rq body s = (h, es, s')" "s' \<noteq> s"
  shows "\<exists>op. rows s' = rows s @ [new_row (ev_now env) (ev_new_id env) op] \<and>
    e_idempotency_key op = idempotencyKeyOf env rq \<and> e_op_type op = t \<and> e_instance_id op = inst \<and>
    h = Done (json_response 202 (accepted_body \<lparr> er_id = ev_new_id env, er_deduplicated = False \<rparr>
                (idempotencyKeyOf env rq)))"
proof -
  obtain a res where
    a: "admitAndEnqueue (ev_now env) (ev_new_id env) (ev_caps env) (ev_counts env inst) a s = Inr (res, s')"
    "h = Done (json_response 202 (accepted_body res (idempotencyKeyOf env rq)))"
    "e_idempotency_key (a_input a) = idempotencyKeyOf env rq" "e_op_type (a_input a) = t"
    "e_instance_id (a_input a) = inst"
    using assms
    by (auto simp: enqueueRoute_def Let_def mutation_input_def split: sum.splits prod.splits if_splits)
  from a(1) obtain n op where op: "admit_check (ev_caps env) n a = Inr op"
    "enqueue (ev_now env) (ev_new_id env) op s = Inr (res, s')" by (rule admitAndEnqueue_InrE)
  from op(2) have "res = \<lparr> er_id = ev_new_id env, er_deduplicated = False \<rparr> \<and>
      rows s' = rows s @ [new_row (ev_now env) (ev_new_id env) op]"
    using assms(2) by (auto simp: enqueue_def split: option.splits if_splits)
  with a admit_check_Inr [OF op(1)] show ?thesis by auto
qed

lemma createApp_writes:
  assumes "hr_store (createApp env auth rq s) \<noteq> s"
  shows "auth rq = AuthPass \<and>
    (\<exists>op. rows (hr_store (createApp env auth rq s)) = rows s @ [new_row (ev_now env) (ev_new_id env) op] \<and>
       e_idempotency_key op = idempotencyKeyOf env rq \<and>
       hr_response (createApp env auth rq s) = Some (json_response 202
         (accepted_body \<lparr> er_id = ev_new_id env, er_deduplicated = False \<rparr> (idempotencyKeyOf env rq))))"
proof -
  have r: "\<exists>op. rows (hr_store (objects_router env inst oc rest rq body s)) =
        rows s @ [new_row (ev_now env) (ev_new_id env) op] \<and> e_idempotency_key op = idempotencyKeyOf env rq \<and>
      hr_response (objects_router env inst oc rest rq body s) = Some (json_response 202
         (accepted_body \<lparr> er_id = ev_new_id env, er_deduplicated = False \<rparr> (idempotencyKeyOf env rq)))"
    if "hr_store (objects_router env inst oc rest rq body s) \<noteq> s" for inst oc rest body
    using that
  proof (cases rule: objects_router_cases [of env inst oc rest rq body s])
    case (mutate t b uid h es s')
    with that have "s' \<noteq> s" by auto
    from enqueueRoute_writes [OF mutate(1) this] mutate show ?thesis by (auto simp: conclude_request_def)
  qed auto
  have "auth rq = AuthPass"
    using assms refused_requests_inert [of auth rq _ env s] by (cases "auth rq") auto
  moreover obtain inst oc rest body where
    "createApp env auth rq s = objects_router env inst oc rest rq body s"
    using createApp_shape [of env auth rq s] assms by (elim disjE exE conjE) auto
  ultimately show ?thesis using r assms by simp
qed

text \<open>A delete that meets a full backlog.\<close>

definition backlog_full :: "http_env \<Rightarrow> (request \<Rightarrow> auth_answer) \<Rightarrow> request \<Rightarrow> bool" where
  "backlog_full env auth rq =
     (\<exists>inst oc uid body p n. rq_method rq = DELETE_M \<and> rq_path rq = [''instances'', inst, ''objects'', oc, uid] \<and>
        rq_body rq = Inr body \<and> auth rq = AuthPass \<and> ev_ensure env inst = None \<and>
        priorityOf (ev_stringify env) body = Inr p \<and> ev_counts env inst = Inr n \<and>
        (let q = (case p of None \<Rightarrow> Batch | Some q \<Rightarrow> q) in effective_cap (ev_caps env) q \<le> depth_of q n))"



text \<open>A body that does not parse is such an exception: it is answered 500.\<close>

lemma malformed_body_500:
  "unknown_error e \<Longrightarrow> rq_body rq = Inl e \<Longrightarrow>
   map_option rp_status (hr_response (createApp env auth rq s)) = Some 500"
  by (simp add: createApp_def conclude_request_def error_response_def json_response_def mapError_unknown)

text \<open>A search that fails before its first object is answered as a problem under the stream's type.\<close>

lemma failed_search_type:
  "map_option rp_type (hr_response (createApp (plain_env\<lparr>ev_search := (\<lambda>_ _ _. ([], Some (plain_error ''boom'')))\<rparr>)
     (\<lambda>_. AuthPass) search_request (empty_store [0]))) = Some (Some ''application/x-ndjson'')"
  by code_simp

end
