(* ===== verification/Example_Runs.thy ===== *)
theory Example_Runs
  imports Op_System Store_Props
begin

text \<open>
  A run of the service from the empty table: an operation is accepted, claimed, attempted and finished.
  The properties of reachable states are applied along it.
\<close>

section \<open>Runs of the service\<close>

text \<open>A first accepted operation.\<close>

definition example_start :: "unit system" where
  "example_start = init_system [0] example_maintainer"

definition example_next :: "unit system" where
  "example_next = example_start\<lparr>sy_store := store_of [new_row 5 an_id delete_input]\<rparr>"

lemma example_step: "sys_step env dc day_text example_start example_next"
proof -
  have s: "sy_store example_start = empty_store [0]" by (simp add: example_start_def init_system_def)
  show ?thesis
    unfolding example_next_def
    by (rule sys_step.enqueue [of _ an_id 5 delete_input]) (simp_all only: s fresh_an_id enqueue_delete)
qed

lemma example_status: "status_at (sy_store example_next) an_id = Some (Pend PENDING)"
  by code_simp

text \<open>A run up to the first call: the operation is offered, claimed, registered and attempted.\<close>

definition run_env :: "unit disp_env" where
  "run_env = example_env\<lparr>runtimeOf := (\<lambda>i. if i = ''ad''
     then Some \<lparr> attemptDeadlineMs = (\<lambda>_. 3000), mutationConcurrency = 1 \<rparr> else None)\<rparr>"

definition run_claim :: claimed_op where
  "run_claim = to_claimed (new_row 5 an_id delete_input)"

definition done_facade :: facade where
  "done_facade call = Inr (Some JNull)"

definition run_begun :: "unit system" where
  "run_begun = set_replica 0 (begin_cycle 5 (sy_replicas example_next 0)) example_next"

definition run_reaped :: "unit system" where
  "run_reaped = set_both 0 (reap_phase run_env DEFAULTS 5 5000 None True
     (sy_replicas run_begun 0) (sy_store run_begun)) run_begun"

definition run_offered :: "unit system" where
  "run_offered = set_replica 0 (availability_phase run_env 5 (\<lambda>_. None) (sy_store run_reaped)
     (sy_replicas run_reaped 0)) run_reaped"

definition run_claimed :: "unit system" where
  "run_claimed = set_both 0 (claim_phase DEFAULTS 5 5000 [] None
     (sy_replicas run_offered 0) (sy_store run_offered)) run_offered"

definition run_registered :: "unit system" where
  "run_registered = set_replica 0 (snd (register_phase 6 (sy_replicas run_claimed 0))) run_claimed"

definition run_attempted :: "unit system" where
  "run_attempted =
     (case attempt_task run_env DEFAULTS 7 (Inr done_facade) run_claim (sy_replicas run_registered 0) of
        (calls, d) \<Rightarrow> (set_replica 0 d run_registered)
          \<lparr>sy_calls := sy_calls run_registered @ map (\<lambda>k. (run_claim, k)) calls\<rparr>)"

definition run_call :: facade_call where
  "run_call = CallDelete ''user'' (Some ''u1'') \<lparr> deadlineEpochMs = 3007, o_priority = Batch \<rparr>"

lemma run_registered_tasks: "d_tasks (sy_replicas run_registered 0) = [(run_claim, Dispatched)]"
  by code_simp

lemma run_attempted_calls: "sy_calls run_attempted = [(run_claim, run_call)]"
  by code_simp

text \<open>The row is running while the attempt is made.\<close>

lemma run_attempted_rows:
  "map r_status (rows (sy_store run_attempted)) = [Pend RUNNING]"
  "map lane_of (rows (sy_store run_attempted)) = [(''ad'', ''uid:user:u1'')]"
  "tasks_of (sy_replicas run_attempted 0) = [run_claim]"
  by code_simp+

lemma run_attempt_step: "sys_step run_env DEFAULTS day_text run_registered run_attempted"
proof -
  obtain calls d where eq: "attempt_task run_env DEFAULTS 7 (Inr done_facade) run_claim (sy_replicas run_registered 0)
      = (calls, d)" by fastforce
  have "(run_claim, Dispatched) \<in> set (d_tasks (sy_replicas run_registered 0))"
    by (simp add: run_registered_tasks)
  from sys_step.attempt [OF this eq] show ?thesis by (simp add: run_attempted_def eq)
qed

lemma run_from_next: "(sys_step run_env DEFAULTS day_text)\<^sup>*\<^sup>* example_next run_attempted"
proof -
  let ?R = "sys_step run_env DEFAULTS day_text"
  have "?R example_next run_begun" unfolding run_begun_def by (rule sys_step.cycle)
  moreover have "?R run_begun run_reaped" unfolding run_reaped_def by (rule sys_step.reap)
  moreover have "?R run_reaped run_offered" unfolding run_offered_def by (rule sys_step.offer)
  moreover have "?R run_offered run_claimed" unfolding run_claimed_def by (rule sys_step.claim)
  moreover have "?R run_claimed run_registered" unfolding run_registered_def by (rule sys_step.register)
  moreover note run_attempt_step
  ultimately show ?thesis by (meson rtranclp.rtrancl_into_rtrancl rtranclp.rtrancl_refl)
qed

lemma run_to_next:
  "(sys_step run_env DEFAULTS (\<lambda>_. ''d''))\<^sup>*\<^sup>* (init_system [0] example_maintainer) example_next"
  using example_step [of run_env DEFAULTS "\<lambda>_. ''d''"] unfolding example_start_def
  by (rule r_into_rtranclp)

lemma run_to_attempted:
  "(sys_step run_env DEFAULTS (\<lambda>_. ''d''))\<^sup>*\<^sup>* (init_system [0] example_maintainer) run_attempted"
  by (rule rtranclp_trans [OF run_to_next run_from_next])

text \<open>The answer of the target is written back.\<close>

definition run_written :: "unit system" where
  "run_written =
     (case d_tasks (sy_replicas run_attempted 0) of
        [] \<Rightarrow> run_attempted
      | (c, t) # _ \<Rightarrow> set_both 0 (write_task 8 8000 None c t (sy_replicas run_attempted 0) (sy_store run_attempted)) run_attempted)"

lemma run_written_status: "status_at (sy_store run_written) an_id = Some (Outc SUCCEEDED)"
  by code_simp

lemma run_attempted_concluded: "map fst (d_tasks (sy_replicas run_attempted 0)) = [run_claim]"
  "list_all (\<lambda>p. case snd p of Concluded _ _ \<Rightarrow> True | _ \<Rightarrow> False) (d_tasks (sy_replicas run_attempted 0))"
  by code_simp+

lemma run_write_step: "sys_step run_env DEFAULTS day_text run_attempted run_written"
proof -
  obtain t0 v where t: "d_tasks (sy_replicas run_attempted 0) = [(run_claim, Concluded t0 v)]"
    using run_attempted_concluded by (fastforce split: task_state.splits)
  then have "(run_claim, Concluded t0 v) \<in> set (d_tasks (sy_replicas run_attempted 0))" by simp
  from sys_step.write_result [OF this] show ?thesis by (simp add: run_written_def t)
qed

lemma run_to_written:
  "(sys_step run_env DEFAULTS (\<lambda>_. ''d''))\<^sup>*\<^sup>* (init_system [0] example_maintainer) run_written"
  by (rule rtranclp.rtrancl_into_rtrancl [OF run_to_attempted run_write_step])

end
