(* ===== verification/Client_Props.thy ===== *)
theory Client_Props
  imports Node_Client Http_Props Example_Runs
begin

text \<open>
  The client against the service: what a caller of \<open>clients/node\<close> learns from the modelled service. A
  response is carried to the client unchanged; \<open>JSON.parse\<close> undoes \<open>JSON.stringify\<close>.
\<close>

section \<open>Responses on the wire\<close>

definition reason_phrase :: "nat \<Rightarrow> string" where
  "reason_phrase n = (if n = 200 then ''OK'' else if n = 404 then ''Not Found'' else ''Other'')"

definition wire_reply :: "response \<Rightarrow> http_reply" where
  "wire_reply r =
     \<lparr> rep_status = rp_status r, rep_statusText = reason_phrase (rp_status r), rep_text = Inr [],
       rep_json = (case rp_content r of Json j \<Rightarrow> Inr j | _ \<Rightarrow> Inl ''Unexpected token'') \<rparr>"

text \<open>An unanswered request is a rejection of \<open>fetch\<close> in the end.\<close>

definition answered :: "http_result \<Rightarrow> client_error + json" where
  "answered h = call_reply (case hr_response h of None \<Rightarrow> Inl ''timeout'' | Some r \<Rightarrow> Inr (wire_reply r))"

section \<open>Waiting on the service\<close>

lemma poll_faulty:
  assumes "poll_request oid rq" "auth rq = AuthPass" "ev_status_fault env = Some e"
  shows "hr_response (createApp env auth rq s) = Some (error_response None e)"
  using assms
  by (cases "rq_body rq")
    (auto simp: poll_request_def createApp_def app_routes_def operations_route_def conclude_request_def)

lemma error_answered: "hr_response h = Some (error_response None e) \<Longrightarrow> \<exists>x. answered h = Inl x"
  using mapError_status [of e]
  by (auto simp: answered_def call_reply_def wire_reply_def error_response_def json_response_def)

lemma poll_answered:
  assumes "poll_request oid rq" "auth rq = AuthPass" "answered (createApp env auth rq s) = Inr state"
  shows "\<exists>row. getStatus oid s = Some row \<and> state = status_json row"
proof -
  have f: "ev_status_fault env = None"
  proof (rule ccontr)
    assume "ev_status_fault env \<noteq> None"
    then obtain e where "ev_status_fault env = Some e" by blast
    from poll_faulty [of oid rq auth env e s, OF assms(1) assms(2) this]
    show False using error_answered [of "createApp env auth rq s" e] assms(3) by auto
  qed
  have r: "hr_response (createApp env auth rq s) = Some
    (case getStatus oid s of
       None \<Rightarrow> json_response 404 (problem ''not_found'' ''no operation with that id'')
     | Some row \<Rightarrow> json_response 200 (status_json row))"
    by (rule poll_answer [of oid rq auth env s, OF assms(1) assms(2) f])
  show ?thesis
  proof (cases "getStatus oid s")
    case None
    then show ?thesis using r assms(3)
      by (simp add: answered_def call_reply_def wire_reply_def json_response_def)
  next
    case (Some row)
    then show ?thesis using r assms(3)
      by (simp add: answered_def call_reply_def wire_reply_def json_response_def)
  qed
qed

lemma status_json_outcome: "opt_field (Some (status_json row)) ''outcome'' = outcome_field (s_status row)"
  unfolding opt_field_def by (rule status_json_get(2))

text \<open>C7: The outcome a caller waits for is the operation's outcome for good: when \<open>waitForOutcome\<close>, polling the
  service in reachable states, resolves, then it resolves with the outcome the operation has in one of
  those states and keeps in every state the service runs into from there; and the wait ends: once one
  poll more than the timeout holds poll intervals has been made it has resolved or thrown.\<close>

theorem awaited_outcome_is_final:
  assumes reached: "\<forall>(t, env, w)\<in>set polled. (sys_step denv dc day_text)\<^sup>*\<^sup>* (init_system days m) w"
    and poll: "poll_request oid rq" "auth rq = AuthPass"
    and sleeps: "0 < pollMs" "\<forall>k < length polled. called + int k * pollMs \<le> fst (polled ! k)"
  shows "(\<forall>state. waitForOutcome oid (Some timeoutMs) called
        (map (\<lambda>(t, env, w). (t, answered (createApp env auth rq (sy_store w)))) polled) = Outcome state \<longrightarrow>
      (\<exists>t env w x. (t, env, w) \<in> set polled \<and>
         opt_field (Some state) ''outcome'' = Some (JStr (status_name (Outc x))) \<and>
         (\<forall>w'. (sys_step denv dc day_text)\<^sup>*\<^sup>* w w' \<longrightarrow> status_at (sy_store w') oid = Some (Outc x)))) \<and>
    (polled \<noteq> [] \<and> timeoutMs + pollMs \<le> int (length polled) * pollMs \<longrightarrow>
      waitForOutcome oid (Some timeoutMs) called
        (map (\<lambda>(t, env, w). (t, answered (createApp env auth rq (sy_store w)))) polled) \<noteq> Polling)"
proof (intro conjI allI impI)
  let ?obs = "map (\<lambda>(t, env, w). (t, answered (createApp env auth rq (sy_store w)))) polled"
  fix state
  assume "waitForOutcome oid (Some timeoutMs) called ?obs = Outcome state"
  then obtain t env w where p: "(t, env, w) \<in> set polled"
    and a: "answered (createApp env auth rq (sy_store w)) = Inr state"
    and o': "js_truthy (opt_field (Some state) ''outcome'')"
    by (auto simp: waitForOutcome_def dest!: wait_outcome)
  obtain row where row: "getStatus oid (sy_store w) = Some row" "state = status_json row"
    using poll_answered [of oid rq auth env, OF poll a] by blast
  then obtain x where x: "s_status row = Outc x"
    using o' by (cases "s_status row") (auto simp: status_json_outcome outcome_field_def terminal_iff_TERMINAL_STATUSES [symmetric])
  have "terminal (Outc x)" by simp
  then have f: "opt_field (Some state) ''outcome'' = Some (JStr (status_name (Outc x)))"
    using row x by (simp add: status_json_outcome outcome_field_def terminal_iff_TERMINAL_STATUSES)
  have ok: "sys_ok denv w" using reached p by (auto intro: reachable_ok [OF _ init_system_ok])
  have s: "status_at (sy_store w) oid = Some (Outc x)" using row x by (simp add: status_at_def)
  have "status_at (sy_store w') oid = Some (Outc x)" if "(sys_step denv dc day_text)\<^sup>*\<^sup>* w w'" for w'
    using store_changes_status [OF run_store_changes [OF that ok] sys_okD(1) [OF ok] s] lifecycle_star_terminal by auto
  with p f show "\<exists>t env w x. (t, env, w) \<in> set polled \<and>
      opt_field (Some state) ''outcome'' = Some (JStr (status_name (Outc x))) \<and>
      (\<forall>w'. (sys_step denv dc day_text)\<^sup>*\<^sup>* w w' \<longrightarrow> status_at (sy_store w') oid = Some (Outc x))" by blast
next
  let ?obs = "map (\<lambda>(t, env, w). (t, answered (createApp env auth rq (sy_store w)))) polled"
  assume enough: "polled \<noteq> [] \<and> timeoutMs + pollMs \<le> int (length polled) * pollMs"
  then have "1 \<le> length polled" by (simp add: Suc_le_eq)
  with enough have "called + (int (length polled) - 1) * pollMs \<le> fst (last polled)"
    using sleeps(2) [rule_format, of "length polled - 1"] by (simp add: last_conv_nth of_nat_diff)
  then have "called + timeoutMs \<le> fst (last polled)" using enough by (simp add: left_diff_distrib)
  then have "\<exists>x\<in>set ?obs. called + timeoutMs \<le> fst x"
    using enough last_in_set [of polled] by (auto simp: case_prod_beta)
  then show "waitForOutcome oid (Some timeoutMs) called ?obs \<noteq> Polling"
    by (simp add: waitForOutcome_def wait_ends)
qed

definition example_polls :: "(int \<times> http_env \<times> unit system) list" where
  "example_polls = [(1, plain_env, run_attempted), (502, plain_env, run_written)]"

definition example_wait :: wait_result where
  "example_wait = waitForOutcome an_id (Some 600) 1
     (map (\<lambda>(t, env, w). (t, answered (createApp env (\<lambda>_. AuthPass) (poll_of an_id) (sy_store w)))) example_polls)"

lemma example_wait_outcome: "case example_wait of Outcome state \<Rightarrow> True | _ \<Rightarrow> False"
  by code_simp

theorem awaited_outcome_is_final_witness:
  "\<exists>state x. example_wait = Outcome state \<and>
     opt_field (Some state) ''outcome'' = Some (JStr (status_name (Outc x))) \<and>
     (status_at (sy_store run_attempted) an_id = Some (Outc x) \<or> status_at (sy_store run_written) an_id = Some (Outc x))"
proof -
  let ?obs = "map (\<lambda>(t, env, w). (t, answered (createApp env (\<lambda>_. AuthPass) (poll_of an_id) (sy_store w)))) example_polls"
  have reached: "\<forall>(t, env, w)\<in>set example_polls.
      (sys_step run_env DEFAULTS (\<lambda>_. ''d''))\<^sup>*\<^sup>* (init_system [0] example_maintainer) w"
    by (simp add: example_polls_def run_to_attempted run_to_written)
  have p: "poll_request an_id (poll_of an_id)"
    by (simp add: poll_request_def poll_of_def delete_request_def)
  have s: "\<forall>k < length example_polls. 1 + int k * 501 \<le> fst (example_polls ! k)"
    by (auto simp: example_polls_def less_Suc_eq)
  obtain state where o': "example_wait = Outcome state"
    using example_wait_outcome by (simp split: wait_result.splits)
  then have "waitForOutcome an_id (Some 600) 1 ?obs = Outcome state" by (simp add: example_wait_def)
  then obtain t env w x where r: "(t, env, w) \<in> set example_polls"
    "opt_field (Some state) ''outcome'' = Some (JStr (status_name (Outc x)))"
    "\<forall>w'. (sys_step run_env DEFAULTS (\<lambda>_. ''d''))\<^sup>*\<^sup>* w w' \<longrightarrow> status_at (sy_store w') an_id = Some (Outc x)"
    using awaited_outcome_is_final [OF reached p refl _ s, of 600] by auto
  then have "status_at (sy_store w) an_id = Some (Outc x)" by blast
  with o' r show ?thesis by (auto simp: example_polls_def)
qed

section \<open>Searching through the service\<close>

lemma stream_prefix:
  "stream_objects show_json sks xs err = (cs, fin) \<Longrightarrow>
   \<exists>n. cs = map (\<lambda>x. show_json x @ [newline]) (take n xs)"
proof (induction show_json sks xs err arbitrary: cs fin rule: stream_objects.induct)
  case (2 show_json sks x xs err)
  obtain ds r where d: "stream_objects show_json (tl sks) xs err = (ds, r)" by fastforce
  show ?case
  proof (cases "ndjson_handler show_json (case sks of [] \<Rightarrow> calm | k # _ \<Rightarrow> k) x")
    case (Pair chunks go)
    then have c: "chunks = [] \<and> go = Some False \<or> chunks = [show_json x @ [newline]]"
      by (auto simp: ndjson_handler_def newline_def split: if_splits)
    show ?thesis
    proof (cases "go = Some True")
      case True
      obtain n where "ds = map (\<lambda>x. show_json x @ [newline]) (take n xs)"
        using "2.IH" [OF Pair [symmetric] _ _ d] True by auto
      then show ?thesis using "2.prems" Pair True c d by (intro exI [of _ "Suc n"]) auto
    next
      case False
      then have "cs = chunks" using "2.prems" Pair d by (cases go) (auto split: bool.splits)
      then show ?thesis using c by (auto intro: exI [of _ 0] exI [of _ 1])
    qed
  qed
qed (intro exI [of _ 0], simp)

lemma stream_calm:
  "stream_objects show_json [] xs err = (map (\<lambda>x. show_json x @ [newline]) xs, Some err)"
  by (induction xs) (simp_all add: ndjson_handler_def calm_def newline_def)

definition line_json :: "parser \<Rightarrow> (json \<Rightarrow> string) \<Rightarrow> json \<Rightarrow> bool" where
  "line_json parse show_json x =
     (parse (show_json x) = Inr x \<and> show_json x \<noteq> [] \<and> newline \<notin> set (show_json x))"

lemma search_route_stream:
  assumes "search_route env inst oc rq = ((Done r, ty), effs)" "rp_content r = Ndjson cs"
  shows "\<exists>flt. search_filter (rq_filter rq) = Inr flt \<and> r = ndjson_response cs \<and>
    cs = fst (stream_objects (ev_stringify env) (ev_sink env) (fst (ev_search env inst oc flt))
      (snd (ev_search env inst oc flt)))"
  using assms
  by (auto simp: search_route_def ndjson_response_def Let_def split: sum.splits prod.splits option.splits if_splits)

text \<open>C23: A search reads back what was streamed: however the transport cuts the body into chunks between
  characters, the client yields, without an error, exactly the objects whose lines the service wrote,
  in order; these are the first objects the connector produced, and all of them when nothing stopped
  the stream.\<close>

theorem search_reads_what_was_streamed:
  assumes sent: "search_route env inst oc rq = ((Done r, ty), effs)" "rp_content r = Ndjson cs"
    and cut: "concat (map decode chunks) = concat cs"
    and lines: "\<And>flt x. x \<in> set (fst (ev_search env inst oc flt)) \<Longrightarrow> line_json parse (ev_stringify env) x"
  shows "\<exists>flt n. search_filter (rq_filter rq) = Inr flt \<and>
    search_objects parse decode (Inr (wire_reply r)) chunks =
      Inr (take n (fst (ev_search env inst oc flt)), None) \<and>
    (ev_sink env = [] \<longrightarrow> take n (fst (ev_search env inst oc flt)) = fst (ev_search env inst oc flt))"
proof -
  obtain flt where flt: "search_filter (rq_filter rq) = Inr flt" "r = ndjson_response cs"
    and cs: "cs = fst (stream_objects (ev_stringify env) (ev_sink env) (fst (ev_search env inst oc flt))
      (snd (ev_search env inst oc flt)))"
    using search_route_stream [OF sent] by blast
  let ?xs = "fst (ev_search env inst oc flt)" and ?line = "\<lambda>x. ev_stringify env x @ [newline]"
  obtain n where n: "cs = map ?line (take n ?xs)" "ev_sink env = [] \<longrightarrow> take n ?xs = ?xs"
  proof (cases "ev_sink env = []")
    case True
    then show ?thesis using that [of "length ?xs"] cs by (simp add: stream_calm)
  next
    case False
    obtain n where "cs = map ?line (take n ?xs)"
      using stream_prefix [OF surjective_pairing, of "ev_stringify env" "ev_sink env" ?xs] cs by blast
    then show ?thesis using that False by blast
  qed
  have "\<forall>x\<in>set (take n ?xs). parse (ev_stringify env x) = Inr x \<and> ev_stringify env x \<noteq> [] \<and>
      newline \<notin> set (ev_stringify env x)"
    using lines [of _ flt] by (auto simp: line_json_def dest: in_set_takeD)
  then have "read_chunks parse (map decode chunks) [] = (take n ?xs, None)"
    using n(1) cut by (intro read_objects [of _ parse "ev_stringify env"]) simp_all
  then have "search_objects parse decode (Inr (wire_reply r)) chunks = Inr (take n ?xs, None)"
    by (simp add: search_objects_def wire_reply_def flt(2) ndjson_response_def res_ok_def)
  with flt(1) n(2) show ?thesis by blast
qed

definition two_env :: http_env where
  "two_env = plain_env\<lparr>ev_search := (\<lambda>_ _ _. ([JBool True, JBool False], None)),
     ev_stringify := (\<lambda>j. if j = JBool True then ''true'' else ''false'')\<rparr>"

definition bool_parser :: parser where
  "bool_parser t = (if t = ''true'' then Inr (JBool True) else if t = ''false'' then Inr (JBool False) else Inl t)"

theorem search_reads_what_was_streamed_witness:
  "search_objects bool_parser id (Inr (wire_reply (ndjson_response [''true'' @ [newline], ''false'' @ [newline]])))
     [''tr'', ''ue'' @ [newline] @ ''f'', ''alse'', [newline]] = Inr ([JBool True, JBool False], None)"
proof -
  let ?cs = "[''true'' @ [newline], ''false'' @ [newline]]"
  have route: "search_route two_env ''ad'' ''user'' search_request =
      ((Done (ndjson_response ?cs), None), [Acquired ''ad'', Searched ''ad'' ''user'' None, Released ''ad''])"
    by code_simp
  have content: "rp_content (ndjson_response ?cs) = Ndjson ?cs" by (simp add: ndjson_response_def)
  have cut: "concat (map id [''tr'', ''ue'' @ [newline] @ ''f'', ''alse'', [newline]]) = concat ?cs" by simp
  have lines: "x \<in> set (fst (ev_search two_env ''ad'' ''user'' flt)) \<Longrightarrow> line_json bool_parser (ev_stringify two_env) x" for flt x
    by (auto simp: two_env_def line_json_def bool_parser_def newline_def)
  obtain n where "search_objects bool_parser id (Inr (wire_reply (ndjson_response ?cs)))
      [''tr'', ''ue'' @ [newline] @ ''f'', ''alse'', [newline]] = Inr (take n [JBool True, JBool False], None)"
    "take n [JBool True, JBool False] = [JBool True, JBool False]"
    using search_reads_what_was_streamed [OF route content cut lines] by (auto simp: two_env_def plain_env_def)
  then show ?thesis by simp
qed

text \<open>A search that fails after its first object looks complete: the response is the one of a search
  that found only that object.\<close>

lemma failed_search_looks_complete:
  "hr_response (createApp (plain_env\<lparr>ev_search := (\<lambda>_ _ _. ([JNull], Some (plain_error ''lost'')))\<rparr>)
     (\<lambda>_. AuthPass) search_request (empty_store [0])) =
   hr_response (createApp plain_env (\<lambda>_. AuthPass) search_request (empty_store [0])) \<and>
   Logged (plain_error ''lost'') \<notin> set (hr_effects (createApp
     (plain_env\<lparr>ev_search := (\<lambda>_ _ _. ([JNull], Some (plain_error ''lost'')))\<rparr>)
     (\<lambda>_. AuthPass) search_request (empty_store [0])))"
  by code_simp

end
