(* ===== verification/Auth.thy ===== *)
theory Auth
  imports Http_Props
begin

text \<open>
  \<open>src/http/auth.ts\<close> and \<open>src/http/identityCheck.ts\<close>: the validation of the JWT settings, the parsing of
  the bearer header and the middleware. The URL parser and \<open>jwtVerify\<close> of the library \<open>jose\<close> are
  arguments; \<open>verifier_laws\<close> states what the latter documents.
\<close>

section \<open>Settings\<close>

record jwt_config =
  jc_jwksUri :: string
  jc_expectedIssuer :: string
  jc_expectedAudience :: string
  jc_allowedAlgorithms :: "string list"
  jc_clockSkewSeconds :: jsnum
  jc_maxTokenAgeSeconds :: jsnum
  jc_requiredScope :: "string option"

definition SUPPORTED_ALGORITHMS :: "string list" where
  "SUPPORTED_ALGORITHMS =
     [''RS256'', ''RS384'', ''RS512'', ''PS256'', ''PS384'', ''PS512'', ''ES256'', ''ES384'', ''ES512'', ''EdDSA'']"

datatype jwt_error =
    JwksMissing
  | JwksNotHttp string
  | JwksNotUrl string
  | IssuerMissing
  | IssuerTooLong nat
  | AudienceMissing
  | AudienceTooLong nat
  | NoAlgorithm
  | UnsupportedAlgorithms "string list"
  | SkewNotNumber string
  | SkewNegative jsnum
  | SkewTooLarge jsnum
  | AgeNotInteger string
  | AgeNotPositive jsnum
  | AgeTooLarge jsnum
  | ScopeTooLong nat
  | HostsDiffer string string

record parsed_url =
  url_protocol :: string
  url_hostname :: string

type_synonym url_parser = "string \<Rightarrow> parsed_url option"

text \<open>\<open>process.env.K?.trim()\<close>, and the same with a default for the empty text.\<close>

definition env_trim :: "process_env \<Rightarrow> string \<Rightarrow> string option" where
  "env_trim env k = map_option js_trim (env k)"

definition env_or :: "process_env \<Rightarrow> string \<Rightarrow> string \<Rightarrow> string" where
  "env_or env k d = (case env_trim env k of None \<Rightarrow> d | Some v \<Rightarrow> if v = [] then d else v)"

definition truthy_text :: "string option \<Rightarrow> string option" where
  "truthy_text v = (case v of Some t \<Rightarrow> if t = [] then None else Some t | None \<Rightarrow> None)"

definition jwks_errors :: "url_parser \<Rightarrow> string option \<Rightarrow> jwt_error list" where
  "jwks_errors url uri =
     (case uri of
        None \<Rightarrow> [JwksMissing]
      | Some u \<Rightarrow>
          (case url u of
             None \<Rightarrow> [JwksNotUrl u]
           | Some p \<Rightarrow> if starts_with (url_protocol p) ''http'' then [] else [JwksNotHttp u]))"

definition text_errors :: "jwt_error \<Rightarrow> (nat \<Rightarrow> jwt_error) \<Rightarrow> string option \<Rightarrow> jwt_error list" where
  "text_errors missing too_long v =
     (case v of None \<Rightarrow> [missing] | Some t \<Rightarrow> if 512 < length t then [too_long (length t)] else [])"

definition algorithms_of :: "string option \<Rightarrow> string list" where
  "algorithms_of raw =
     filter (\<lambda>a. a \<noteq> []) (map js_trim (split_on (CHR '','')
       (case raw of Some r \<Rightarrow> js_trim r | None \<Rightarrow> ''RS256,PS256,ES256'')))"

definition algorithm_errors :: "string list \<Rightarrow> jwt_error list" where
  "algorithm_errors algs =
     (if algs = [] then [NoAlgorithm]
      else let unsupported = filter (\<lambda>a. a \<notin> set SUPPORTED_ALGORITHMS) algs
           in if unsupported \<noteq> [] then [UnsupportedAlgorithms unsupported] else [])"

definition skew_errors :: "string \<Rightarrow> jsnum \<Rightarrow> jwt_error list" where
  "skew_errors raw n =
     (if n = NaN then [SkewNotNumber raw]
      else if jsnum_less n 0 then [SkewNegative n]
      else if jsnum_greater n 300 then [SkewTooLarge n] else [])"

definition MAX_TOKEN_AGE_CEILING :: rat where
  "MAX_TOKEN_AGE_CEILING = 7 * 24 * 60 * 60"

definition age_errors :: "string \<Rightarrow> jsnum \<Rightarrow> jwt_error list" where
  "age_errors raw n =
     (if \<not> is_integer n then [AgeNotInteger raw]
      else if \<not> jsnum_greater n 0 then [AgeNotPositive n]
      else if jsnum_greater n MAX_TOKEN_AGE_CEILING then [AgeTooLarge n] else [])"

definition scope_errors :: "string option \<Rightarrow> jwt_error list" where
  "scope_errors s = (case s of Some t \<Rightarrow> if 256 < length t then [ScopeTooLong (length t)] else [] | None \<Rightarrow> [])"

definition host_errors :: "url_parser \<Rightarrow> string option \<Rightarrow> string option \<Rightarrow> jwt_error list" where
  "host_errors url uri iss =
     (case (uri, iss) of
        (Some u, Some i) \<Rightarrow>
          (case (url i, url u) of
             (Some ui, Some uj) \<Rightarrow>
               if url_hostname ui \<noteq> url_hostname uj then [HostsDiffer (url_hostname ui) (url_hostname uj)] else []
           | _ \<Rightarrow> [])
      | _ \<Rightarrow> [])"

text \<open>Every problem is collected, in the order of the code.\<close>

definition validateJwtConfig :: "url_parser \<Rightarrow> process_env \<Rightarrow> jwt_error list + jwt_config" where
  "validateJwtConfig url env =
     (let uri = truthy_text (env_trim env ''JWT_JWKS_URI'');
          iss = truthy_text (env_trim env ''JWT_EXPECTED_ISS'');
          aud = truthy_text (env_trim env ''JWT_EXPECTED_AUD'');
          algs = algorithms_of (env ''JWT_ALLOWED_ALGS'');
          skewText = env_or env ''JWT_ACCEPTED_CLOCK_SKEW_SEC'' ''60''; skew = js_Number skewText;
          ageText = env_or env ''JWT_MAX_TOKEN_AGE_SEC'' ''86400''; age = js_Number ageText;
          scope = truthy_text (env_trim env ''JWT_REQUIRED_SCOPE'');
          errors = jwks_errors url uri @ text_errors IssuerMissing IssuerTooLong iss @
                   text_errors AudienceMissing AudienceTooLong aud @ algorithm_errors algs @
                   skew_errors skewText skew @ age_errors ageText age @ scope_errors scope @
                   host_errors url uri iss
      in if errors \<noteq> [] then Inl errors
         else Inr \<lparr> jc_jwksUri = the uri, jc_expectedIssuer = the iss, jc_expectedAudience = the aud,
                    jc_allowedAlgorithms = algs, jc_clockSkewSeconds = skew, jc_maxTokenAgeSeconds = age,
                    jc_requiredScope = scope \<rparr>)"

section \<open>Identity collapse\<close>

definition checkAudienceIdentityCollapse :: "string option \<Rightarrow> jwt_config \<Rightarrow> string option" where
  "checkAudienceIdentityCollapse clientId jwt =
     (case clientId of
        None \<Rightarrow> None
      | Some c \<Rightarrow>
          if c \<noteq> jc_expectedAudience jwt then None
          else Some (''JWT_EXPECTED_AUD and IGA_CLIENT_ID are both '' @ quote2 (jc_expectedAudience jwt) @
            '' -- this service's own outbound token would pass its own inbound bearer check. '' @
            ''If unintentional, use a distinct IGA_CLIENT_ID.''))"

section \<open>The middleware\<close>

definition parseAuthHeader :: "string option \<Rightarrow> string option" where
  "parseAuthHeader header =
     (case header of
        None \<Rightarrow> None
      | Some h \<Rightarrow>
          if \<not> starts_with h ''Bearer '' then None
          else let token = drop 7 h
               in if token = [] \<or> length token < 20 \<or> 2048 < length token then None
                  else if list_ex is_ws token then None
                  else Some token)"

datatype scope_requirement = OneScope string | AllScopes "string list"

definition scopeAllowed :: "json list \<Rightarrow> scope_requirement option \<Rightarrow> bool" where
  "scopeAllowed scopes required =
     (case required of
        None \<Rightarrow> True
      | Some (OneScope r) \<Rightarrow> r = [] \<or> JStr r \<in> set scopes
      | Some (AllScopes rs) \<Rightarrow> list_all (\<lambda>r. JStr r \<in> set scopes) rs)"

text \<open>What \<open>jwtVerify\<close> answers: the payload with the protected header, or the class of what it throws.\<close>

record verified_token =
  vt_payload :: json
  vt_kid :: jsval
  vt_alg :: string

datatype jose_answer = Verified verified_token | JWTExpired | JWTInvalid | SignatureFailed | OtherFailure

type_synonym verifier = "string \<Rightarrow> jwt_config \<Rightarrow> jose_answer"

record auth_context =
  au_sub :: json
  au_scopes :: "json list"
  au_token :: string
  au_payload :: json

datatype auth_result = Authenticated auth_context | Refused nat string

text \<open>\<open>String(v)\<close> of what a claim may be; the text of a number is the argument. An array is not
  converted.\<close>

fun js_text :: "(jsnum \<Rightarrow> string) \<Rightarrow> jsval \<Rightarrow> string" where
  "js_text num (Some (JStr t)) = t"
| "js_text num (Some (JBool b)) = (if b then ''true'' else ''false'')"
| "js_text num (Some (JNum n)) = num n"
| "js_text num (Some (JObj _)) = ''[object Object]''"
| "js_text num _ = []"

definition scopes_of :: "(jsnum \<Rightarrow> string) \<Rightarrow> jsval \<Rightarrow> json list" where
  "scopes_of num raw =
     (case raw of
        Some (JArr xs) \<Rightarrow> xs
      | _ \<Rightarrow> map JStr (filter (\<lambda>t. t \<noteq> []) (split_on (CHR '' '') (js_text num raw))))"

definition requireJwt ::
  "jwt_config \<Rightarrow> scope_requirement option \<Rightarrow> (jsnum \<Rightarrow> string) \<Rightarrow> verifier \<Rightarrow> string option \<Rightarrow> auth_result" where
  "requireJwt config requiredScopes num verify header =
     (case parseAuthHeader header of
        None \<Rightarrow> Refused 401 ''Missing bearer token''
      | Some token \<Rightarrow>
          (case verify token config of
             JWTExpired \<Rightarrow> Refused 401 ''Token expired''
           | JWTInvalid \<Rightarrow> Refused 401 ''Invalid token''
           | SignatureFailed \<Rightarrow> Refused 401 ''Bad signature''
           | OtherFailure \<Rightarrow> Refused 401 ''Unauthorized''
           | Verified v \<Rightarrow>
               if \<not> js_truthy (vt_kid v) then Refused 401 ''Missing kid''
               else if vt_alg v \<notin> set (jc_allowedAlgorithms config) then Refused 401 ''Unsupported alg''
               else let payload = Some (vt_payload v);
                        sub = opt_field payload ''sub''; exp = opt_field payload ''exp'';
                        scopes = scopes_of num (opt_field payload ''scope'')
                    in if \<not> js_truthy sub \<or> \<not> js_truthy exp then Refused 401 ''Missing sub/exp''
                       else if jc_requiredScope config \<noteq> None \<and>
                               \<not> scopeAllowed scopes (map_option OneScope (jc_requiredScope config))
                       then Refused 403 ''Insufficient scope''
                       else if \<not> scopeAllowed scopes requiredScopes
                       then Refused 403 ''Insufficient scope''
                       else Authenticated \<lparr> au_sub = the sub, au_scopes = scopes, au_token = token,
                                            au_payload = vt_payload v \<rparr>))"

definition as_middleware :: "(string option \<Rightarrow> auth_result) \<Rightarrow> request \<Rightarrow> auth_answer" where
  "as_middleware check rq =
     (case check (rq_authorization rq) of
        Authenticated _ \<Rightarrow> AuthPass
      | Refused n msg \<Rightarrow> AuthRespond (json_response n (JObj [(''error'', JStr msg)])))"

section \<open>Accepted settings are safe\<close>

definition jwt_config_ok :: "url_parser \<Rightarrow> jwt_config \<Rightarrow> bool" where
  "jwt_config_ok url c =
     ((\<exists>p. url (jc_jwksUri c) = Some p \<and> starts_with (url_protocol p) ''http'' \<and>
        (\<forall>q. url (jc_expectedIssuer c) = Some q \<longrightarrow> url_hostname q = url_hostname p)) \<and>
      jc_expectedIssuer c \<noteq> [] \<and> length (jc_expectedIssuer c) \<le> 512 \<and>
      jc_expectedAudience c \<noteq> [] \<and> length (jc_expectedAudience c) \<le> 512 \<and>
      jc_allowedAlgorithms c \<noteq> [] \<and> set (jc_allowedAlgorithms c) \<subseteq> set SUPPORTED_ALGORITHMS \<and>
      (\<exists>x. jc_clockSkewSeconds c = Fin x \<and> 0 \<le> x \<and> x \<le> 300) \<and>
      (\<exists>n::int. jc_maxTokenAgeSeconds c = Fin (of_int n) \<and> 1 \<le> n \<and> n \<le> 604800) \<and>
      (\<forall>s. jc_requiredScope c = Some s \<longrightarrow> s \<noteq> [] \<and> length s \<le> 256))"

lemma truthy_text_nonempty: "truthy_text v = Some t \<Longrightarrow> t \<noteq> []"
  by (auto simp: truthy_text_def split: option.splits if_splits)

lemma error_lists_empty:
  "jwks_errors url uri = [] \<longleftrightarrow> (\<exists>u p. uri = Some u \<and> url u = Some p \<and> starts_with (url_protocol p) ''http'')"
  "text_errors missing long v = [] \<longleftrightarrow> (\<exists>t. v = Some t \<and> length t \<le> 512)"
  "algorithm_errors algs = [] \<longleftrightarrow> algs \<noteq> [] \<and> set algs \<subseteq> set SUPPORTED_ALGORITHMS"
  "skew_errors raw n = [] \<longleftrightarrow> (\<exists>x. n = Fin x \<and> 0 \<le> x \<and> x \<le> 300)"
  "scope_errors s = [] \<longleftrightarrow> (\<forall>t. s = Some t \<longrightarrow> length t \<le> 256)"
  by (cases n; auto simp: jwks_errors_def text_errors_def algorithm_errors_def skew_errors_def scope_errors_def
      Let_def filter_empty_conv jsnum_less_def jsnum_greater_def split: option.split)+

lemma age_errors_empty:
  "age_errors raw n = [] \<longleftrightarrow> (\<exists>k::int. n = Fin (of_int k) \<and> 1 \<le> k \<and> k \<le> 604800)"
proof
  assume a: "age_errors raw n = []"
  then obtain x where x: "n = Fin x" "of_int \<lfloor>x\<rfloor> = x" "0 < x" "x \<le> 604800"
    by (cases n) (auto simp: age_errors_def is_integer_def jsnum_greater_def MAX_TOKEN_AGE_CEILING_def
        split: if_splits)
  then have "0 < \<lfloor>x\<rfloor>" "\<lfloor>x\<rfloor> \<le> 604800" by linarith+
  with x show "\<exists>k::int. n = Fin (of_int k) \<and> 1 \<le> k \<and> k \<le> 604800"
    by (intro exI [of _ "\<lfloor>x\<rfloor>"]) auto
next
  assume "\<exists>k::int. n = Fin (of_int k) \<and> 1 \<le> k \<and> k \<le> 604800"
  then show "age_errors raw n = []"
    by (auto simp: age_errors_def is_integer_def jsnum_greater_def MAX_TOKEN_AGE_CEILING_def)
qed

text \<open>C37: The service only starts with safe authentication settings: settings that pass the validation
  name an HTTP(S) key set on the issuer's own host whenever the issuer is a URL, an issuer and an
  audience, only signature algorithms of the fixed asymmetric list, a clock skew of at most five
  minutes and a token age between a second and seven days; and a failed validation reports at least
  one problem.\<close>

theorem accepted_jwt_settings:
  "(\<forall>c. validateJwtConfig url env = Inr c \<longrightarrow> jwt_config_ok url c) \<and>
   (\<forall>es. validateJwtConfig url env = Inl es \<longrightarrow> es \<noteq> [])"
proof (intro conjI allI impI)
  fix c
  assume c: "validateJwtConfig url env = Inr c"
  let ?uri = "truthy_text (env_trim env ''JWT_JWKS_URI'')"
  let ?iss = "truthy_text (env_trim env ''JWT_EXPECTED_ISS'')"
  let ?aud = "truthy_text (env_trim env ''JWT_EXPECTED_AUD'')"
  let ?scope = "truthy_text (env_trim env ''JWT_REQUIRED_SCOPE'')"
  from c have e: "jwks_errors url ?uri = []" "text_errors IssuerMissing IssuerTooLong ?iss = []"
    "text_errors AudienceMissing AudienceTooLong ?aud = []"
    "algorithm_errors (jc_allowedAlgorithms c) = []"
    "skew_errors (env_or env ''JWT_ACCEPTED_CLOCK_SKEW_SEC'' ''60'') (jc_clockSkewSeconds c) = []"
    "age_errors (env_or env ''JWT_MAX_TOKEN_AGE_SEC'' ''86400'') (jc_maxTokenAgeSeconds c) = []"
    "scope_errors ?scope = []" "host_errors url ?uri ?iss = []"
    and f: "jc_jwksUri c = the ?uri" "jc_expectedIssuer c = the ?iss" "jc_expectedAudience c = the ?aud"
      "jc_requiredScope c = ?scope"
    by (auto simp: validateJwtConfig_def Let_def split: if_splits)
  obtain u p where u: "?uri = Some u" "url u = Some p" "starts_with (url_protocol p) ''http''"
    using e(1) by (auto simp: error_lists_empty)
  obtain i a where ia: "?iss = Some i" "length i \<le> 512" "?aud = Some a" "length a \<le> 512"
    using e(2,3) by (auto simp: error_lists_empty)
  have "url i = Some q \<Longrightarrow> url_hostname q = url_hostname p" for q
    using e(8) u ia by (auto simp: host_errors_def split: if_splits)
  then show "jwt_config_ok url c"
    using e u ia f truthy_text_nonempty
    unfolding jwt_config_ok_def by (simp add: error_lists_empty age_errors_empty)
qed (auto simp: validateJwtConfig_def Let_def split: if_splits)

definition example_url :: url_parser where
  "example_url u =
     (if u = ''https://am.example/jwks'' \<or> u = ''https://am.example/iss''
      then Some \<lparr> url_protocol = ''https:'', url_hostname = ''am.example'' \<rparr> else None)"

definition example_process_env :: process_env where
  "example_process_env k =
     map_of [(''JWT_JWKS_URI'', ''https://am.example/jwks''), (''JWT_EXPECTED_ISS'', ''https://am.example/iss''),
             (''JWT_EXPECTED_AUD'', '' prov ''), (''JWT_ALLOWED_ALGS'', ''RS256, ES256'')] k"

definition example_jwt_config :: jwt_config where
  "example_jwt_config =
     \<lparr> jc_jwksUri = ''https://am.example/jwks'', jc_expectedIssuer = ''https://am.example/iss'',
       jc_expectedAudience = ''prov'', jc_allowedAlgorithms = [''RS256'', ''ES256''],
       jc_clockSkewSeconds = Fin 60, jc_maxTokenAgeSeconds = Fin 86400, jc_requiredScope = None \<rparr>"

lemma default_numbers: "js_Number ''60'' = Fin 60" "js_Number ''86400'' = Fin 86400"
proof -
  have digits: "char_of (48::nat) = CHR ''0''" "char_of (52::nat) = CHR ''4''" "char_of (54::nat) = CHR ''6''"
    "char_of (56::nat) = CHR ''8''" by code_simp+
  have "int_to_string 60 = ''60''" "int_to_string 86400 = ''86400''"
    by (simp_all add: int_to_string_def nat_digits.simps [of 60] nat_digits.simps [of 6] nat_digits.simps [of 86400]
        nat_digits.simps [of 8640] nat_digits.simps [of 864] nat_digits.simps [of 86] nat_digits.simps [of 8] digits)
  then show "js_Number ''60'' = Fin 60" "js_Number ''86400'' = Fin 86400"
    using Number_int [of 60] Number_int [of 86400] by simp_all
qed

lemma example_settings_accepted: "validateJwtConfig example_url example_process_env = Inr example_jwt_config"
proof -
  have e: "truthy_text (env_trim example_process_env ''JWT_JWKS_URI'') = Some ''https://am.example/jwks''"
    "truthy_text (env_trim example_process_env ''JWT_EXPECTED_ISS'') = Some ''https://am.example/iss''"
    "truthy_text (env_trim example_process_env ''JWT_EXPECTED_AUD'') = Some ''prov''"
    "truthy_text (env_trim example_process_env ''JWT_REQUIRED_SCOPE'') = None"
    "algorithms_of (example_process_env ''JWT_ALLOWED_ALGS'') = [''RS256'', ''ES256'']"
    "env_or example_process_env ''JWT_ACCEPTED_CLOCK_SKEW_SEC'' ''60'' = ''60''"
    "env_or example_process_env ''JWT_MAX_TOKEN_AGE_SEC'' ''86400'' = ''86400''"
    by code_simp+
  have "age_errors ''86400'' (Fin 86400) = []" "skew_errors ''60'' (Fin 60) = []"
    "jwks_errors example_url (Some ''https://am.example/jwks'') = []"
    "host_errors example_url (Some ''https://am.example/jwks'') (Some ''https://am.example/iss'') = []"
    "algorithm_errors [''RS256'', ''ES256''] = []" by code_simp+
  then show ?thesis unfolding validateJwtConfig_def Let_def e default_numbers
    by (simp add: text_errors_def scope_errors_def example_jwt_config_def)
qed

theorem accepted_jwt_settings_witness:
  "validateJwtConfig example_url example_process_env = Inr example_jwt_config \<and>
   jwt_config_ok example_url example_jwt_config"
  using accepted_jwt_settings [of example_url example_process_env] example_settings_accepted by blast

section \<open>Only verified tokens pass\<close>

text \<open>What the library promises of an answer \<open>Verified\<close>: the signature was made with an accepted
  algorithm, issuer and audience are the configured ones, and the token has not expired.\<close>

definition verifier_laws :: "verifier \<Rightarrow> (json \<Rightarrow> bool) \<Rightarrow> bool" where
  "verifier_laws verify genuine =
     (\<forall>token c v. verify token c = Verified v \<longrightarrow>
        vt_alg v \<in> set (jc_allowedAlgorithms c) \<and> genuine (vt_payload v) \<and>
        opt_field (Some (vt_payload v)) ''iss'' = Some (JStr (jc_expectedIssuer c)))"

lemma parseAuthHeader_Some:
  assumes "parseAuthHeader header = Some token"
  shows "header = Some (''Bearer '' @ token) \<and> 20 \<le> length token \<and> length token \<le> 2048 \<and>
    list_all (\<lambda>c. \<not> is_ws c) token"
proof -
  obtain h where h: "header = Some h" "starts_with h ''Bearer ''" "token = drop 7 h"
    "20 \<le> length token" "length token \<le> 2048" "\<not> list_ex is_ws token"
    using assms by (auto simp: parseAuthHeader_def Let_def split: option.splits if_splits)
  then obtain t where t: "h = ''Bearer '' @ t" by (auto simp: starts_with_def prefix_def)
  then have "token = t" using h(3) by simp
  with h t show ?thesis by (simp add: list_all_iff list_ex_iff)
qed

lemma requireJwt_Authenticated:
  assumes "requireJwt c required num verify header = Authenticated ctx"
  obtains token v where "header = Some (''Bearer '' @ token)" "20 \<le> length token" "length token \<le> 2048"
    "list_all (\<lambda>ch. \<not> is_ws ch) token" "verify token c = Verified v" "au_token ctx = token"
    "au_payload ctx = vt_payload v" "vt_alg v \<in> set (jc_allowedAlgorithms c)" "js_truthy (vt_kid v)"
    "opt_field (Some (vt_payload v)) ''sub'' = Some (au_sub ctx)" "js_truthy (Some (au_sub ctx))"
    "js_truthy (opt_field (Some (vt_payload v)) ''exp'')"
    "au_scopes ctx = scopes_of num (opt_field (Some (vt_payload v)) ''scope'')"
    "scopeAllowed (au_scopes ctx) (map_option OneScope (jc_requiredScope c))"
    "scopeAllowed (au_scopes ctx) required"
proof -
  obtain token v where t: "parseAuthHeader header = Some token" "verify token c = Verified v"
    using assms by (auto simp: requireJwt_def split: option.splits jose_answer.splits)
  from assms have c: "js_truthy (vt_kid v)" "vt_alg v \<in> set (jc_allowedAlgorithms c)"
    "js_truthy (opt_field (Some (vt_payload v)) ''sub'')" "js_truthy (opt_field (Some (vt_payload v)) ''exp'')"
    "jc_requiredScope c = None \<or> scopeAllowed (scopes_of num (opt_field (Some (vt_payload v)) ''scope''))
       (map_option OneScope (jc_requiredScope c))"
    "scopeAllowed (scopes_of num (opt_field (Some (vt_payload v)) ''scope'')) required"
    "ctx = \<lparr> au_sub = the (opt_field (Some (vt_payload v)) ''sub''),
       au_scopes = scopes_of num (opt_field (Some (vt_payload v)) ''scope''), au_token = token,
       au_payload = vt_payload v \<rparr>"
    by (simp_all add: requireJwt_def Let_def t split: if_splits)
  have "scopeAllowed xs None" for xs by (simp add: scopeAllowed_def)
  with c(5) have "scopeAllowed (scopes_of num (opt_field (Some (vt_payload v)) ''scope''))
      (map_option OneScope (jc_requiredScope c))" by auto
  moreover obtain x where "opt_field (Some (vt_payload v)) ''sub'' = Some x"
    using c(3) by (cases "opt_field (Some (vt_payload v)) ''sub''") simp_all
  ultimately show ?thesis
    using parseAuthHeader_Some [OF t(1)] c(1-4,6,7) t(2) by (intro that [of token v]) simp_all
qed

lemma requireJwt_Refused:
  "requireJwt c required num verify header = Refused n msg \<Longrightarrow> n = 401 \<or> n = 403"
  by (auto simp: requireJwt_def Let_def split: option.splits jose_answer.splits if_splits)

text \<open>A request is made by a verified caller when it carries a well-formed bearer token that the verifier
  accepts with an allowed algorithm, genuine claims, the configured issuer, a key id, a subject, an
  expiry, and the configured scope among those its claims grant.\<close>

definition verified_caller ::
  "jwt_config \<Rightarrow> (jsnum \<Rightarrow> string) \<Rightarrow> verifier \<Rightarrow> (json \<Rightarrow> bool) \<Rightarrow> string option \<Rightarrow> bool" where
  "verified_caller c num verify genuine header =
     (\<exists>token v. header = Some (''Bearer '' @ token) \<and>
        20 \<le> length token \<and> length token \<le> 2048 \<and> list_all (\<lambda>ch. \<not> is_ws ch) token \<and>
        verify token c = Verified v \<and> genuine (vt_payload v) \<and>
        opt_field (Some (vt_payload v)) ''iss'' = Some (JStr (jc_expectedIssuer c)) \<and>
        vt_alg v \<in> set (jc_allowedAlgorithms c) \<and> js_truthy (vt_kid v) \<and>
        js_truthy (opt_field (Some (vt_payload v)) ''sub'') \<and>
        js_truthy (opt_field (Some (vt_payload v)) ''exp'') \<and>
        scopeAllowed (scopes_of num (opt_field (Some (vt_payload v)) ''scope''))
          (map_option OneScope (jc_requiredScope c)))"

lemma authenticated_caller:
  assumes "requireJwt c required num verify header = Authenticated ctx" "verifier_laws verify genuine"
  shows "verified_caller c num verify genuine header"
  using assms(1)
proof (rule requireJwt_Authenticated)
  fix token v
  assume t: "header = Some (''Bearer '' @ token)" "20 \<le> length token" "length token \<le> 2048"
    "list_all (\<lambda>ch. \<not> is_ws ch) token" "verify token c = Verified v"
    "vt_alg v \<in> set (jc_allowedAlgorithms c)" "js_truthy (vt_kid v)"
    "opt_field (Some (vt_payload v)) ''sub'' = Some (au_sub ctx)" "js_truthy (Some (au_sub ctx))"
    "js_truthy (opt_field (Some (vt_payload v)) ''exp'')"
    "au_scopes ctx = scopes_of num (opt_field (Some (vt_payload v)) ''scope'')"
    "scopeAllowed (au_scopes ctx) (map_option OneScope (jc_requiredScope c))"
  have "genuine (vt_payload v)" "opt_field (Some (vt_payload v)) ''iss'' = Some (JStr (jc_expectedIssuer c))"
    using assms(2) t(5) unfolding verifier_laws_def by blast+
  then show ?thesis unfolding verified_caller_def
    using t by (intro exI [of _ token] exI [of _ v] conjI) simp_all
qed

text \<open>C9: Only verified tokens act: a request that changes the table, or has an effect beyond a health ping
  and a log line, carried a bearer token the verifier accepted, whose claims pass the service's own
  checks. A request without one is answered 401 or 403, with two exceptions, which reach no route and
  change nothing: the health probes, which carry no token, and a body that does not parse, which the
  error handler answers before the middleware runs.\<close>

theorem only_verified_tokens_act:
  assumes laws: "verifier_laws verify genuine"
    and auth: "auth = as_middleware (requireJwt c required num verify)"
  shows "(hr_store (createApp env auth rq s) \<noteq> s \<or> \<not> inert (hr_effects (createApp env auth rq s)) \<longrightarrow>
      verified_caller c num verify genuine (rq_authorization rq)) \<and>
    (auth rq \<noteq> AuthPass \<longrightarrow>
      hr_store (createApp env auth rq s) = s \<and> inert (hr_effects (createApp env auth rq s)) \<and>
      (case rq_body rq of
         Inl e \<Rightarrow> hr_response (createApp env auth rq s) = Some (error_response None e)
       | Inr body \<Rightarrow>
           if rq_method rq = GET \<and> rq_path rq = [''healthz''] then hr_response (createApp env auth rq s) = Some healthz
           else if rq_method rq = GET \<and> rq_path rq = [''readyz''] then hr_response (createApp env auth rq s) = Some (readyz env)
           else map_option rp_status (hr_response (createApp env auth rq s)) \<in> {Some 401, Some 403}))"
proof (cases "requireJwt c required num verify (rq_authorization rq)")
  case (Authenticated ctx)
  then have "auth rq = AuthPass" by (simp add: auth as_middleware_def)
  moreover have "verified_caller c num verify genuine (rq_authorization rq)"
    by (rule authenticated_caller [OF Authenticated laws])
  ultimately show ?thesis by simp
next
  case (Refused n msg)
  then have r: "auth rq = AuthRespond (json_response n (JObj [(''error'', JStr msg)]))"
    by (simp add: auth as_middleware_def)
  have n: "n = 401 \<or> n = 403" by (rule requireJwt_Refused [OF Refused])
  have i: "hr_store (createApp env auth rq s) = s \<and> inert (hr_effects (createApp env auth rq s))"
    using refused_requests_inert [of auth rq, OF r] by blast
  have "case rq_body rq of
         Inl e \<Rightarrow> hr_response (createApp env auth rq s) = Some (error_response None e)
       | Inr body \<Rightarrow>
           if rq_method rq = GET \<and> rq_path rq = [''healthz''] then hr_response (createApp env auth rq s) = Some healthz
           else if rq_method rq = GET \<and> rq_path rq = [''readyz''] then hr_response (createApp env auth rq s) = Some (readyz env)
           else map_option rp_status (hr_response (createApp env auth rq s)) \<in> {Some 401, Some 403}"
    using n r by (auto simp: createApp_def conclude_request_def json_response_def split: sum.split)
  with i show ?thesis by blast
qed

definition example_token :: string where
  "example_token = replicate 24 (CHR ''a'')"

definition example_payload :: json where
  "example_payload =
     JObj [(''iss'', JStr ''https://am.example/iss''), (''sub'', JStr ''iga''), (''exp'', JNum (Fin 9))]"

definition example_verifier :: verifier where
  "example_verifier t c =
     (if t = example_token \<and> c = example_jwt_config
      then Verified \<lparr> vt_payload = example_payload, vt_kid = Some (JStr ''k''), vt_alg = ''RS256'' \<rparr>
      else SignatureFailed)"

definition bearer_request :: request where
  "bearer_request = delete_request\<lparr>rq_authorization := Some (''Bearer '' @ example_token)\<rparr>"

definition example_auth :: "request \<Rightarrow> auth_answer" where
  "example_auth = as_middleware (requireJwt example_jwt_config None (\<lambda>_. []) example_verifier)"

theorem only_verified_tokens_act_witness:
  "rows (hr_store (createApp plain_env example_auth bearer_request (empty_store [0]))) \<noteq> [] \<and>
   verified_caller example_jwt_config (\<lambda>_. []) example_verifier (\<lambda>j. j = example_payload) (rq_authorization bearer_request) \<and>
   map_option rp_status (hr_response (createApp plain_env example_auth delete_request (empty_store [0]))) = Some 401"
proof -
  have "''RS256'' \<in> set (jc_allowedAlgorithms example_jwt_config)"
    "jc_expectedIssuer example_jwt_config = ''https://am.example/iss''"
    by (simp_all add: example_jwt_config_def)
  then have laws: "verifier_laws example_verifier (\<lambda>j. j = example_payload)"
    by (auto simp: verifier_laws_def example_verifier_def example_payload_def opt_field_def obj_get_def
        split: if_splits)
  note acts = only_verified_tokens_act [OF laws example_auth_def]
  have row: "rows (hr_store (createApp plain_env example_auth bearer_request (empty_store [0]))) \<noteq> []"
    by code_simp
  then have "hr_store (createApp plain_env example_auth bearer_request (empty_store [0])) \<noteq> empty_store [0]"
    by (auto simp: empty_store_def)
  then have v: "verified_caller example_jwt_config (\<lambda>_. []) example_verifier (\<lambda>j. j = example_payload) (rq_authorization bearer_request)"
    using acts by blast
  have "map_option rp_status (hr_response (createApp plain_env example_auth delete_request (empty_store [0]))) = Some 401"
    by code_simp
  with row v show ?thesis by blast
qed

end
