(* ===== verification/Wiring.thy ===== *)
theory Wiring
  imports Token_Provider
begin

text \<open>
  \<open>src/provisioning/wiring.ts\<close> and \<open>src/http/loadHttpConfig.ts\<close>: the settings read from the
  environment, and the start and stop of the service as a machine over its suspension points. Every
  call of \<open>start\<close> has a number; the machine records which resource each start opened and closed.
  The pool, the connector registry and its manager belong to libraries: what they answer is part of
  the run.
\<close>

section \<open>Settings\<close>

datatype store_choice = FileStore | IgaStore

record wiring_config =
  wc_databaseUrl :: string
  wc_connectorBundleDir :: string
  wc_appConfigStore :: store_choice
  wc_appConfigDir :: "string option"
  wc_iga :: "iga_token_options option"
  wc_drainBudgetMs :: int
  wc_shutdownGraceMs :: int
  wc_statementTimeoutMs :: int
  wc_partitionRetentionDays :: int
  wc_partitionMaintenanceIntervalMs :: int
  wc_dispatcherPoolMax :: int
  wc_claimIntervalMs :: int
  wc_reaperThresholdMs :: int

datatype wiring_error =
    EnvMissing string
  | NotPositiveInt string string
  | UnknownStore string
  | AppConfigDirRequired
  | IgaRequired
  | IgaNotBuilt
  | AlreadyRunning
  | NotRunning string
  | TokenFailed token_error
  | Thrown string

definition requireEnv :: "process_env \<Rightarrow> string \<Rightarrow> wiring_error + string" where
  "requireEnv env k =
     (case env k of None \<Rightarrow> Inl (EnvMissing k) | Some v \<Rightarrow> if v = [] then Inl (EnvMissing k) else Inr v)"

definition optionalPositiveInt :: "process_env \<Rightarrow> string \<Rightarrow> int \<Rightarrow> wiring_error + int" where
  "optionalPositiveInt env k fallback =
     (case env k of
        None \<Rightarrow> Inr fallback
      | Some raw \<Rightarrow>
          (case parseInt10 raw of
             Fin n \<Rightarrow> if n \<le> 0 then Inl (NotPositiveInt k raw) else Inr \<lfloor>n\<rfloor>
           | _ \<Rightarrow> Inl (NotPositiveInt k raw)))"

text \<open>\<open>CONFIG_DEFAULTS\<close>, what an unset variable stands for.\<close>

record config_defaults =
  cd_appConfigStore :: store_choice
  cd_drainBudgetMs :: int
  cd_shutdownGraceMs :: int
  cd_statementTimeoutMs :: int
  cd_poolMax :: int
  cd_partitionRetentionDays :: int
  cd_partitionMaintenanceIntervalMs :: int
  cd_claimIntervalMs :: int
  cd_reaperThresholdMs :: int

definition CONFIG_DEFAULTS :: config_defaults where
  "CONFIG_DEFAULTS =
     \<lparr> cd_appConfigStore = FileStore, cd_drainBudgetMs = 8000, cd_shutdownGraceMs = 2000,
       cd_statementTimeoutMs = 5000, cd_poolMax = 5, cd_partitionRetentionDays = 1,
       cd_partitionMaintenanceIntervalMs = 3600000, cd_claimIntervalMs = 25,
       cd_reaperThresholdMs = 10 * 60000 \<rparr>"

definition store_choice_of :: "string option \<Rightarrow> wiring_error + store_choice" where
  "store_choice_of raw =
     (case raw of
        None \<Rightarrow> Inr (cd_appConfigStore CONFIG_DEFAULTS)
      | Some s \<Rightarrow> if s = ''file'' then Inr FileStore else if s = ''iga'' then Inr IgaStore else Inl (UnknownStore s))"

definition iga_config :: "process_env \<Rightarrow> wiring_error + iga_token_options" where
  "iga_config env =
     sbind (requireEnv env ''IGA_TOKEN_URL'') (\<lambda>url.
     sbind (requireEnv env ''IGA_CLIENT_ID'') (\<lambda>cid.
     sbind (requireEnv env ''IGA_CLIENT_SECRET'') (\<lambda>secret.
       Inr \<lparr> to_tokenUrl = url, to_clientId = cid, to_clientSecret = secret, to_scope = env ''IGA_SCOPE'',
             to_audience = env ''IGA_AUDIENCE'', to_resource = env ''IGA_RESOURCE'' \<rparr>)))"

definition store_settings ::
  "process_env \<Rightarrow> store_choice \<Rightarrow> wiring_error + string option \<times> iga_token_options option" where
  "store_settings env choice =
     (case choice of
        FileStore \<Rightarrow> sbind (requireEnv env ''APP_CONFIG_DIR'') (\<lambda>dir. Inr (Some dir, None))
      | IgaStore \<Rightarrow> sbind (iga_config env) (\<lambda>iga. Inr (None, Some iga)))"

definition loadWiringConfig :: "process_env \<Rightarrow> wiring_error + wiring_config" where
  "loadWiringConfig env =
     sbind (requireEnv env ''DATABASE_URL'') (\<lambda>url.
     sbind (requireEnv env ''CONNECTOR_BUNDLE_DIR'') (\<lambda>bundles.
     sbind (store_choice_of (env ''APP_CONFIG_STORE'')) (\<lambda>choice.
     sbind (optionalPositiveInt env ''DISPATCHER_DRAIN_BUDGET_MS'' (cd_drainBudgetMs CONFIG_DEFAULTS)) (\<lambda>drain.
     sbind (optionalPositiveInt env ''DISPATCHER_SHUTDOWN_GRACE_MS'' (cd_shutdownGraceMs CONFIG_DEFAULTS)) (\<lambda>grace.
     sbind (optionalPositiveInt env ''DISPATCHER_POOL_STATEMENT_TIMEOUT_MS'' (cd_statementTimeoutMs CONFIG_DEFAULTS)) (\<lambda>statement.
     sbind (optionalPositiveInt env ''PARTITION_RETENTION_DAYS'' (cd_partitionRetentionDays CONFIG_DEFAULTS)) (\<lambda>retention.
     sbind (optionalPositiveInt env ''PARTITION_MAINTENANCE_INTERVAL_MS'' (cd_partitionMaintenanceIntervalMs CONFIG_DEFAULTS)) (\<lambda>interval.
     sbind (optionalPositiveInt env ''DISPATCHER_POOL_MAX'' (cd_poolMax CONFIG_DEFAULTS)) (\<lambda>pool.
     sbind (optionalPositiveInt env ''DISPATCHER_CLAIM_INTERVAL_MS'' (cd_claimIntervalMs CONFIG_DEFAULTS)) (\<lambda>claim.
     sbind (optionalPositiveInt env ''DISPATCHER_REAPER_THRESHOLD_MS'' (cd_reaperThresholdMs CONFIG_DEFAULTS)) (\<lambda>reaper.
     sbind (store_settings env choice) (\<lambda>source.
       Inr \<lparr> wc_databaseUrl = url, wc_connectorBundleDir = bundles, wc_appConfigStore = choice,
             wc_appConfigDir = fst source, wc_iga = snd source, wc_drainBudgetMs = drain, wc_shutdownGraceMs = grace,
             wc_statementTimeoutMs = statement, wc_partitionRetentionDays = retention,
             wc_partitionMaintenanceIntervalMs = interval, wc_dispatcherPoolMax = pool,
             wc_claimIntervalMs = claim, wc_reaperThresholdMs = reaper \<rparr>))))))))))))"

definition loadHttpConfig :: "process_env \<Rightarrow> string + int" where
  "loadHttpConfig env =
     (case env ''PORT'' of
        None \<Rightarrow> Inr 3000
      | Some raw \<Rightarrow>
          (case parseInt10 raw of
             Fin n \<Rightarrow> if n \<le> 0 \<or> n > 65535 then Inl raw else Inr \<lfloor>n\<rfloor>
           | _ \<Rightarrow> Inl raw))"

text \<open>What the choice of store asks for: a directory, or one token before the refusal.\<close>

datatype config_source = FileSource string | TokenFirst iga_token_options

definition buildConfigStore :: "wiring_config \<Rightarrow> wiring_error + config_source" where
  "buildConfigStore c =
     (case wc_appConfigStore c of
        FileStore \<Rightarrow> (case wc_appConfigDir c of None \<Rightarrow> Inl AppConfigDirRequired | Some d \<Rightarrow> Inr (FileSource d))
      | IgaStore \<Rightarrow> (case wc_iga c of None \<Rightarrow> Inl IgaRequired | Some opts \<Rightarrow> Inr (TokenFirst opts)))"

definition after_token :: "token_reply \<Rightarrow> wiring_error" where
  "after_token rep = (case token_of_reply rep of Inl e \<Rightarrow> TokenFailed e | Inr _ \<Rightarrow> IgaNotBuilt)"

text \<open>The line \<open>consoleMetricsSink\<close> writes per measurement, given the texts of the number and the
  labels.\<close>

definition console_line ::
  "((string \<times> string) list \<Rightarrow> string) \<Rightarrow> string \<Rightarrow> string \<Rightarrow> string \<Rightarrow> (string \<times> string) list option \<Rightarrow> string" where
  "console_line stringify kind name value labels =
     ''[metrics] '' @ kind @ '' '' @ name @ ''='' @ value @
     (case labels of Some (l # ls) \<Rightarrow> '' '' @ stringify (l # ls) | _ \<Rightarrow> [])"

section \<open>Starts and stops\<close>

datatype resource = PoolR | ManagerR | DispatcherR | MaintainerR

datatype act = Opened resource | Closed resource | DisposedAll

datatype boot_step =
    NewPool | NewManager | StartManager | NewRegistrar | NewDispatcher | StartDispatcher | NewMaintainer
  | StartMaintainer

text \<open>Which synchronous step throws, and what.\<close>

type_synonym boot_faults = "boot_step \<Rightarrow> string option"

fun run_steps :: "boot_faults \<Rightarrow> (boot_step \<times> act list) list \<Rightarrow> act list \<times> string option" where
  "run_steps faults [] = ([], None)"
| "run_steps faults ((step, acts) # steps) =
     (case faults step of
        Some msg \<Rightarrow> ([], Some msg)
      | None \<Rightarrow> (case run_steps faults steps of (rest, r) \<Rightarrow> (acts @ rest, r)))"

text \<open>From the manager to the maintainer; the manager and the maintainer are assigned when constructed,
  the claim loop runs from \<open>dispatcher.start()\<close> on.\<close>

definition boot_tail :: "boot_faults \<Rightarrow> act list \<times> string option" where
  "boot_tail faults =
     run_steps faults
       [(NewManager, [Opened ManagerR]), (StartManager, []), (NewRegistrar, []), (NewDispatcher, []),
        (StartDispatcher, [Opened DispatcherR]), (NewMaintainer, [Opened MaintainerR]), (StartMaintainer, [])]"

text \<open>The \<open>catch\<close> block of \<open>start\<close>, given what the start has opened and whether it built the
  registry.\<close>

definition teardown :: "act list \<Rightarrow> bool \<Rightarrow> act list" where
  "teardown acts registry =
     (if Opened MaintainerR \<in> set acts then [Closed MaintainerR] else []) @
     (if Opened ManagerR \<in> set acts then [Closed ManagerR] else []) @
     (if registry then [DisposedAll] else []) @
     (if Opened PoolR \<in> set acts then [Closed PoolR] else [])"

text \<open>Where a start is: waiting for a reply, running, in one of the waits of \<open>stop\<close>, or over.\<close>

datatype life =
    AtPing wiring_config
  | AtToken wiring_config
  | AtLoad wiring_config
  | Up wiring_config
  | AtDrain wiring_config int
  | AtMaintainer wiring_config
  | AtGrace wiring_config int
  | AtShutdown wiring_config
  | AtPoolEnd wiring_config
  | Failed
  | Stopped

datatype wiring_log =
    MaintainerStopFailed string
  | StillInFlight nat
  | ManagerShutdownFailed string
  | PoolEndFailed string

record wiring =
  w_running :: "nat option"
  w_lives :: "nat \<Rightarrow> life option"
  w_acts :: "(nat \<times> act) list"
  w_log :: "wiring_log list"

definition unwired :: wiring where
  "unwired = \<lparr> w_running = None, w_lives = (\<lambda>_. None), w_acts = [], w_log = [] \<rparr>"

datatype answer = Waits | Resolves | Rejects wiring_error

datatype wiring_event =
    StartCall nat wiring_config boot_faults
  | PingReply nat "string option"
  | TokenReply nat token_reply
  | LoadReply nat "string option" boot_faults
  | StopCall int
  | Drained nat int bool
  | MaintainerStopped nat "string option" int nat
  | GracePoll nat int nat
  | ShutdownReply nat "string option"
  | PoolEnded nat "string option"

definition isRunning :: "wiring \<Rightarrow> bool" where
  "isRunning w = (w_running w \<noteq> None)"

text \<open>\<open>getStore\<close>, \<open>getManager\<close> and \<open>ensureApplication\<close> serve the running start only.\<close>

definition guarded :: "string \<Rightarrow> wiring \<Rightarrow> wiring_error + nat" where
  "guarded name w = (case w_running w of None \<Rightarrow> Inl (NotRunning name) | Some n \<Rightarrow> Inr n)"

definition move :: "nat \<Rightarrow> life \<Rightarrow> act list \<Rightarrow> wiring \<Rightarrow> wiring" where
  "move n l acts w = w\<lparr>w_lives := (w_lives w)(n \<mapsto> l), w_acts := w_acts w @ map (Pair n) acts\<rparr>"

definition log_to :: "wiring_log list \<Rightarrow> wiring \<Rightarrow> wiring" where
  "log_to es w = w\<lparr>w_log := w_log w @ es\<rparr>"

definition start_wiring :: "nat \<Rightarrow> wiring_config \<Rightarrow> boot_faults \<Rightarrow> wiring \<Rightarrow> answer \<times> wiring" where
  "start_wiring n c faults w =
     (if w_running w \<noteq> None then (Rejects AlreadyRunning, move n Failed [] w)
      else case faults NewPool of
             Some msg \<Rightarrow> (Rejects (Thrown msg), move n Failed (teardown [] False) w)
           | None \<Rightarrow> (Waits, move n (AtPing c) [Opened PoolR] w))"

definition on_ping :: "nat \<Rightarrow> wiring_config \<Rightarrow> string option \<Rightarrow> wiring \<Rightarrow> answer \<times> wiring" where
  "on_ping n c failed w =
     (case failed of
        Some msg \<Rightarrow> (Rejects (Thrown msg), move n Failed (teardown [Opened PoolR] False) w)
      | None \<Rightarrow>
          (case buildConfigStore c of
             Inl e \<Rightarrow> (Rejects e, move n Failed (teardown [Opened PoolR] False) w)
           | Inr (TokenFirst _) \<Rightarrow> (Waits, move n (AtToken c) [] w)
           | Inr (FileSource _) \<Rightarrow> (Waits, move n (AtLoad c) [] w)))"

definition on_token :: "nat \<Rightarrow> token_reply \<Rightarrow> wiring \<Rightarrow> answer \<times> wiring" where
  "on_token n rep w = (Rejects (after_token rep), move n Failed (teardown [Opened PoolR] False) w)"

definition on_load ::
  "nat \<Rightarrow> wiring_config \<Rightarrow> string option \<Rightarrow> boot_faults \<Rightarrow> wiring \<Rightarrow> answer \<times> wiring" where
  "on_load n c failed faults w =
     (case failed of
        Some msg \<Rightarrow> (Rejects (Thrown msg), move n Failed (teardown [Opened PoolR] True) w)
      | None \<Rightarrow>
          (case boot_tail faults of
             (acts, Some msg) \<Rightarrow>
               (Rejects (Thrown msg), move n Failed (acts @ teardown (Opened PoolR # acts) True) w)
           | (acts, None) \<Rightarrow> (Resolves, (move n (Up c) acts w)\<lparr>w_running := Some n\<rparr>)))"

definition stop_wiring :: "int \<Rightarrow> wiring \<Rightarrow> answer \<times> wiring" where
  "stop_wiring now w =
     (case w_running w of
        None \<Rightarrow> (Resolves, w)
      | Some n \<Rightarrow>
          (case w_lives w n of
             Some (Up c) \<Rightarrow>
               (Waits, (move n (AtDrain c (now + wc_drainBudgetMs c)) [Closed DispatcherR] w)\<lparr>w_running := None\<rparr>)
           | _ \<Rightarrow> (Resolves, w)))"

definition failed_log :: "(string \<Rightarrow> wiring_log) \<Rightarrow> string option \<Rightarrow> wiring_log list" where
  "failed_log k failed = (case failed of None \<Rightarrow> [] | Some msg \<Rightarrow> [k msg])"

text \<open>The head of the grace loop and what follows it.\<close>

definition grace_check ::
  "nat \<Rightarrow> wiring_config \<Rightarrow> int \<Rightarrow> int \<Rightarrow> nat \<Rightarrow> wiring \<Rightarrow> answer \<times> wiring" where
  "grace_check n c graceDeadline now inFlight w =
     (if 0 < inFlight \<and> now < graceDeadline then (Waits, move n (AtGrace c graceDeadline) [] w)
      else (Waits, log_to (if 0 < inFlight then [StillInFlight inFlight] else [])
              (move n (AtShutdown c) [Closed ManagerR] w)))"

definition wiring_step :: "wiring_event \<Rightarrow> wiring \<Rightarrow> (answer \<times> wiring) option" where
  "wiring_step e w =
     (case e of
        StartCall n c faults \<Rightarrow> if w_lives w n = None then Some (start_wiring n c faults w) else None
      | PingReply n failed \<Rightarrow>
          (case w_lives w n of Some (AtPing c) \<Rightarrow> Some (on_ping n c failed w) | _ \<Rightarrow> None)
      | TokenReply n rep \<Rightarrow>
          (case w_lives w n of Some (AtToken c) \<Rightarrow> Some (on_token n rep w) | _ \<Rightarrow> None)
      | LoadReply n failed faults \<Rightarrow>
          (case w_lives w n of Some (AtLoad c) \<Rightarrow> Some (on_load n c failed faults w) | _ \<Rightarrow> None)
      | StopCall now \<Rightarrow> Some (stop_wiring now w)
      | Drained n now settled \<Rightarrow>
          (case w_lives w n of
             Some (AtDrain c deadline) \<Rightarrow>
               if settled \<or> deadline \<le> now then Some (Waits, move n (AtMaintainer c) [Closed MaintainerR] w) else None
           | _ \<Rightarrow> None)
      | MaintainerStopped n failed now inFlight \<Rightarrow>
          (case w_lives w n of
             Some (AtMaintainer c) \<Rightarrow>
               Some (grace_check n c (now + wc_shutdownGraceMs c) now inFlight
                 (log_to (failed_log MaintainerStopFailed failed) w))
           | _ \<Rightarrow> None)
      | GracePoll n now inFlight \<Rightarrow>
          (case w_lives w n of Some (AtGrace c deadline) \<Rightarrow> Some (grace_check n c deadline now inFlight w) | _ \<Rightarrow> None)
      | ShutdownReply n failed \<Rightarrow>
          (case w_lives w n of
             Some (AtShutdown c) \<Rightarrow>
               Some (Waits, log_to (failed_log ManagerShutdownFailed failed) (move n (AtPoolEnd c) [Closed PoolR] w))
           | _ \<Rightarrow> None)
      | PoolEnded n failed \<Rightarrow>
          (case w_lives w n of
             Some (AtPoolEnd c) \<Rightarrow> Some (Resolves, log_to (failed_log PoolEndFailed failed) (move n Stopped [] w))
           | _ \<Rightarrow> None))"

fun run_wiring :: "wiring_event list \<Rightarrow> wiring \<Rightarrow> wiring option" where
  "run_wiring [] w = Some w"
| "run_wiring (e # es) w = (case wiring_step e w of None \<Rightarrow> None | Some (_, w') \<Rightarrow> run_wiring es w')"

section \<open>Accepted settings\<close>

definition wiring_config_ok :: "wiring_config \<Rightarrow> bool" where
  "wiring_config_ok c =
     (wc_databaseUrl c \<noteq> [] \<and> wc_connectorBundleDir c \<noteq> [] \<and>
      0 < wc_drainBudgetMs c \<and> 0 < wc_shutdownGraceMs c \<and> 0 < wc_statementTimeoutMs c \<and>
      0 < wc_partitionRetentionDays c \<and> 0 < wc_partitionMaintenanceIntervalMs c \<and>
      0 < wc_dispatcherPoolMax c \<and> 0 < wc_claimIntervalMs c \<and> 0 < wc_reaperThresholdMs c \<and>
      (case wc_appConfigStore c of
         FileStore \<Rightarrow> (\<exists>d. wc_appConfigDir c = Some d \<and> d \<noteq> [] \<and> buildConfigStore c = Inr (FileSource d))
       | IgaStore \<Rightarrow> (\<exists>opts. wc_iga c = Some opts \<and> to_tokenUrl opts \<noteq> [] \<and> to_clientId opts \<noteq> [] \<and>
                       to_clientSecret opts \<noteq> [] \<and> buildConfigStore c = Inr (TokenFirst opts))))"

lemma requireEnv_Inr: "requireEnv env k = Inr v \<longleftrightarrow> env k = Some v \<and> v \<noteq> []"
  by (auto simp: requireEnv_def split: option.splits)

lemma optionalPositiveInt_Inr: "optionalPositiveInt env k d = Inr n \<Longrightarrow> 0 < d \<Longrightarrow> 0 < n"
  using parseInt10_positive
  by (auto simp: optionalPositiveInt_def split: option.splits jsnum.splits if_splits)

lemma store_settings_Inr:
  "store_settings env choice = Inr source \<Longrightarrow>
   (case choice of
      FileStore \<Rightarrow> \<exists>d. fst source = Some d \<and> d \<noteq> []
    | IgaStore \<Rightarrow> \<exists>opts. snd source = Some opts \<and> to_tokenUrl opts \<noteq> [] \<and> to_clientId opts \<noteq> [] \<and>
                     to_clientSecret opts \<noteq> [])"
  by (cases choice) (auto simp: store_settings_def iga_config_def requireEnv_Inr elim!: sbind_InrE)

lemma loaded_config_ok: "loadWiringConfig env = Inr c \<Longrightarrow> wiring_config_ok c"
  unfolding loadWiringConfig_def
proof (elim sbind_InrE, goal_cases)
  case (1 url bundles choice drain grace statement retention interval pool claim reaper source)
  have "0 < drain" "0 < grace" "0 < statement" "0 < retention" "0 < interval" "0 < pool" "0 < claim" "0 < reaper"
    by (rule optionalPositiveInt_Inr [OF 1(4)] optionalPositiveInt_Inr [OF 1(5)] optionalPositiveInt_Inr [OF 1(6)]
        optionalPositiveInt_Inr [OF 1(7)] optionalPositiveInt_Inr [OF 1(8)] optionalPositiveInt_Inr [OF 1(9)]
        optionalPositiveInt_Inr [OF 1(10)] optionalPositiveInt_Inr [OF 1(11)]; simp add: CONFIG_DEFAULTS_def)+
  then show ?case
    using 1(1,2,13) store_settings_Inr [OF 1(12)]
    by (auto simp: wiring_config_ok_def buildConfigStore_def requireEnv_Inr split: store_choice.splits)
qed

lemma loaded_port_range: "loadHttpConfig env = Inr p \<Longrightarrow> 1 \<le> p \<and> p \<le> 65535"
  using parseInt10_positive by (fastforce simp: loadHttpConfig_def floor_le_iff split: option.splits jsnum.splits if_splits)

definition minimal_env :: process_env where
  "minimal_env =
     map_of [(''DATABASE_URL'', ''postgres://db''), (''CONNECTOR_BUNDLE_DIR'', ''/bundles''), (''APP_CONFIG_DIR'', ''/apps''),
             (''DISPATCHER_DRAIN_BUDGET_MS'', ''8s'')]"

definition minimal_config :: wiring_config where
  "minimal_config =
     \<lparr> wc_databaseUrl = ''postgres://db'', wc_connectorBundleDir = ''/bundles'', wc_appConfigStore = FileStore,
       wc_appConfigDir = Some ''/apps'', wc_iga = None, wc_drainBudgetMs = 8, wc_shutdownGraceMs = 2000,
       wc_statementTimeoutMs = 5000, wc_partitionRetentionDays = 1, wc_partitionMaintenanceIntervalMs = 3600000,
       wc_dispatcherPoolMax = 5, wc_claimIntervalMs = 25, wc_reaperThresholdMs = 600000 \<rparr>"

text \<open>A unit suffix is dropped: eight seconds are read as eight milliseconds.\<close>

lemma parse_8s: "parseInt10 ''8s'' = Fin 8"
  using to_double_small [of 8]
  by (simp add: parseInt10_def is_ws_def is_digit_def char_code_def digits_value.simps)

lemma minimal_settings: "loadWiringConfig minimal_env = Inr minimal_config"
  by (simp add: loadWiringConfig_def CONFIG_DEFAULTS_def minimal_env_def requireEnv_def store_choice_of_def optionalPositiveInt_def
      parse_8s store_settings_def minimal_config_def)

section \<open>Everything opened is closed\<close>

definition acts_of :: "nat \<Rightarrow> wiring \<Rightarrow> act list" where
  "acts_of n w = map snd (filter (\<lambda>p. fst p = n) (w_acts w))"

definition boot_acts :: "act list" where
  "boot_acts = map Opened [PoolR, ManagerR, DispatcherR, MaintainerR]"

fun script :: "life \<Rightarrow> act list" where
  "script (AtPing _) = [Opened PoolR]"
| "script (AtToken _) = [Opened PoolR]"
| "script (AtLoad _) = [Opened PoolR]"
| "script (Up _) = boot_acts"
| "script (AtDrain _ _) = boot_acts @ [Closed DispatcherR]"
| "script (AtMaintainer _) = boot_acts @ map Closed [DispatcherR, MaintainerR]"
| "script (AtGrace _ _) = boot_acts @ map Closed [DispatcherR, MaintainerR]"
| "script (AtShutdown _) = boot_acts @ map Closed [DispatcherR, MaintainerR, ManagerR]"
| "script (AtPoolEnd _) = boot_acts @ map Closed [DispatcherR, MaintainerR, ManagerR, PoolR]"
| "script Stopped = boot_acts @ map Closed [DispatcherR, MaintainerR, ManagerR, PoolR]"
| "script Failed = []"

text \<open>What a rejected start leaves: all is closed in reverse order, but for a claim loop, and there is
  none when \<open>boots\<close> says that the maintainer's construction and start did not throw.\<close>

definition undone :: "bool \<Rightarrow> act list \<Rightarrow> bool" where
  "undone boots acts =
     (\<exists>os. filter (\<lambda>a. a \<noteq> DisposedAll) acts = map Opened os @ map Closed (rev (removeAll DispatcherR os)) \<and>
           (boots \<longrightarrow> DispatcherR \<notin> set os))"

fun maintainer_boots :: "wiring_event \<Rightarrow> bool" where
  "maintainer_boots (LoadReply _ _ faults) = (faults NewMaintainer = None \<and> faults StartMaintainer = None)"
| "maintainer_boots _ = True"

definition life_acts :: "bool \<Rightarrow> life \<Rightarrow> act list \<Rightarrow> bool" where
  "life_acts boots l acts = (if l = Failed then undone boots acts else acts = script l)"

definition life_ok :: "bool \<Rightarrow> wiring \<Rightarrow> nat \<Rightarrow> bool" where
  "life_ok boots w n =
     (case w_lives w n of None \<Rightarrow> acts_of n w = [] | Some l \<Rightarrow> life_acts boots l (acts_of n w))"

definition wiring_ok :: "bool \<Rightarrow> wiring \<Rightarrow> bool" where
  "wiring_ok boots w = ((\<forall>n. life_ok boots w n) \<and> (\<forall>n. w_running w = Some n \<longrightarrow> (\<exists>c. w_lives w n = Some (Up c))))"

lemma acts_of_move [simp]: "acts_of m (move n l acts w) = acts_of m w @ (if m = n then acts else [])"
  by (auto simp: acts_of_def move_def filter_map comp_def)

lemma move_simps [simp]:
  "w_lives (move n l acts w) = (w_lives w)(n \<mapsto> l)" "w_running (move n l acts w) = w_running w"
  by (simp_all add: move_def)

lemma log_to_simps [simp]:
  "w_lives (log_to es w) = w_lives w" "w_running (log_to es w) = w_running w" "acts_of n (log_to es w) = acts_of n w"
  by (simp_all add: log_to_def acts_of_def)

lemma acts_of_running [simp]: "acts_of n (w\<lparr>w_running := r\<rparr>) = acts_of n w"
  by (simp add: acts_of_def)

text \<open>A step moves one start; the others keep their life and their record.\<close>

lemma move_ok:
  assumes "wiring_ok b w" "w_running w \<noteq> Some n" "life_acts b l (acts_of n w @ acts)"
  shows "wiring_ok b (log_to es (move n l acts w))"
proof -
  have "life_ok b (log_to es (move n l acts w)) m" for m
  proof (cases "m = n")
    case False
    then have "life_ok b (log_to es (move n l acts w)) m = life_ok b w m"
      by (simp add: life_ok_def cong: option.case_cong)
    then show ?thesis using assms(1) by (simp add: wiring_ok_def)
  qed (use assms(3) in \<open>simp add: life_ok_def\<close>)
  then show ?thesis using assms(1,2) by (simp add: wiring_ok_def)
qed

lemma boot_tail_cases:
  obtains (up) "boot_tail faults = (map Opened [ManagerR, DispatcherR, MaintainerR], None)"
  | (early) msg where "boot_tail faults = ([], Some msg) \<or> boot_tail faults = ([Opened ManagerR], Some msg)"
  | (late) msg where "faults NewMaintainer \<noteq> None \<or> faults StartMaintainer \<noteq> None"
      "boot_tail faults = (map Opened [ManagerR, DispatcherR], Some msg) \<or>
       boot_tail faults = (map Opened [ManagerR, DispatcherR, MaintainerR], Some msg)"
  by (cases "faults NewManager"; cases "faults StartManager"; cases "faults NewRegistrar"; cases "faults NewDispatcher";
      cases "faults StartDispatcher"; cases "faults NewMaintainer"; cases "faults StartMaintainer")
    (auto simp: boot_tail_def)

lemma undone_teardown:
  "undone b []" "undone b [Opened PoolR, Closed PoolR]"
  "undone b ([Opened PoolR] @ [DisposedAll, Closed PoolR])"
  "undone b ([Opened PoolR] @ [Opened ManagerR] @ [Closed ManagerR, DisposedAll, Closed PoolR])"
  unfolding undone_def by (rule exI [of _ "[]"] exI [of _ "[PoolR]"] exI [of _ "[PoolR, ManagerR]"]; simp)+

text \<open>Only a failure after the claim loop was started leaves it.\<close>

lemma undone_late:
  "undone False ([Opened PoolR] @ map Opened [ManagerR, DispatcherR] @ [Closed ManagerR, DisposedAll, Closed PoolR])"
  "undone False ([Opened PoolR] @ map Opened [ManagerR, DispatcherR, MaintainerR] @
     [Closed MaintainerR, Closed ManagerR, DisposedAll, Closed PoolR])"
  unfolding undone_def
  by (rule exI [of _ "[PoolR, ManagerR, DispatcherR]"] exI [of _ "[PoolR, ManagerR, DispatcherR, MaintainerR]"]; simp)+

lemma life_acts_simps [simp]:
  "life_acts b Failed acts = undone b acts" "l \<noteq> Failed \<Longrightarrow> life_acts b l acts = (acts = script l)"
  by (simp_all add: life_acts_def)

lemma wiring_okD:
  assumes "wiring_ok b w"
  shows "w_lives w n = Some l \<Longrightarrow> life_acts b l (acts_of n w)" "w_lives w n = None \<Longrightarrow> acts_of n w = []"
    "w_running w = Some n \<Longrightarrow> \<exists>c. w_lives w n = Some (Up c)"
  using assms unfolding wiring_ok_def life_ok_def by (force split: option.splits)+

lemma move_to:
  assumes "wiring_ok b w" "w_lives w n = Some l" "\<And>c. l \<noteq> Up c" "life_acts b l' (acts_of n w @ acts)"
  shows "wiring_ok b (move n l' acts w)" "wiring_ok b (log_to es (move n l' acts w))"
proof -
  have "w_running w \<noteq> Some n" using wiring_okD(3) [OF assms(1), of n] assms(2,3) by auto
  then show "wiring_ok b (log_to es (move n l' acts w))" for es by (rule move_ok [OF assms(1) _ assms(4)])
  from this [of "[]"] show "wiring_ok b (move n l' acts w)" by (simp add: log_to_def)
qed

lemma on_ping_ok:
  "wiring_ok b w \<Longrightarrow> w_lives w n = Some (AtPing c) \<Longrightarrow> wiring_ok b (snd (on_ping n c failed w))"
  using wiring_okD(1) [of b w n "AtPing c"] undone_teardown
  by (auto simp: on_ping_def teardown_def split: option.split sum.split config_source.split intro!: move_to(1))

lemma on_token_ok:
  "wiring_ok b w \<Longrightarrow> w_lives w n = Some (AtToken c) \<Longrightarrow> wiring_ok b (snd (on_token n rep w))"
  using wiring_okD(1) [of b w n "AtToken c"] undone_teardown
  by (auto simp: on_token_def teardown_def intro!: move_to(1))

lemma running_up:
  assumes "wiring_ok b w" "\<forall>m. w_running w = Some m \<longrightarrow> m \<noteq> n" "w_lives w n = Some (Up c)"
  shows "wiring_ok b (w\<lparr>w_running := Some n\<rparr>)"
  using assms by (auto simp: wiring_ok_def life_ok_def cong: option.case_cong)

lemma on_load_ok:
  assumes ok: "wiring_ok b w" and l: "w_lives w n = Some (AtLoad c)"
    and boots: "b \<Longrightarrow> faults NewMaintainer = None \<and> faults StartMaintainer = None"
  shows "wiring_ok b (snd (on_load n c failed faults w))"
proof -
  have a: "acts_of n w = [Opened PoolR]" using wiring_okD(1) [OF ok l] by simp
  note to = move_to(1) [OF ok l]
  have wiring_ok_up: "wiring_ok b ((move n (Up c) (map Opened [ManagerR, DispatcherR, MaintainerR]) w)\<lparr>w_running := Some n\<rparr>)"
  proof (rule running_up)
    show "wiring_ok b (move n (Up c) (map Opened [ManagerR, DispatcherR, MaintainerR]) w)"
      by (rule to) (simp_all add: a boot_acts_def)
    show "\<forall>m. w_running (move n (Up c) (map Opened [ManagerR, DispatcherR, MaintainerR]) w) = Some m \<longrightarrow> m \<noteq> n"
      using wiring_okD(3) [OF ok, of n] l by auto
  qed simp
  show ?thesis
  proof (cases failed)
    case None
    show ?thesis
    proof (cases rule: boot_tail_cases [of faults])
      case up
      with wiring_ok_up None show ?thesis by (simp add: on_load_def)
    next
      case (early msg)
      with None show ?thesis
        using undone_teardown(3,4) by (auto simp: on_load_def teardown_def a intro!: to)
    next
      case (late msg)
      then have "\<not> b" using boots by auto
      then have "wiring_ok b (move n Failed (map Opened [ManagerR, DispatcherR] @ [Closed ManagerR, DisposedAll, Closed PoolR]) w)"
        "wiring_ok b (move n Failed (map Opened [ManagerR, DispatcherR, MaintainerR] @
          [Closed MaintainerR, Closed ManagerR, DisposedAll, Closed PoolR]) w)"
        using undone_late by (intro to; simp add: a)+
      with late(2) None show ?thesis by (auto simp: on_load_def teardown_def)
    qed
  next
    case (Some msg)
    then show ?thesis using undone_teardown(3) by (auto simp: on_load_def teardown_def a intro!: to)
  qed
qed

lemma grace_check_ok:
  assumes "wiring_ok b w" "w_lives w n = Some l" "script l = boot_acts @ map Closed [DispatcherR, MaintainerR]"
    "l \<noteq> Failed" "\<And>c. l \<noteq> Up c"
  shows "wiring_ok b (snd (grace_check n c d now inFlight w))"
  using wiring_okD(1) [OF assms(1,2)] assms(3,4)
  by (auto simp: grace_check_def intro!: move_to [OF assms(1,2,5)])

lemma stop_wiring_ok:
  assumes "wiring_ok b w"
  shows "wiring_ok b (snd (stop_wiring now w))"
proof (cases "w_running w")
  case (Some n)
  then obtain c where c: "w_lives w n = Some (Up c)" using wiring_okD(3) [OF assms] by blast
  let ?w = "w\<lparr>w_running := None\<rparr>" and ?l = "AtDrain c (now + wc_drainBudgetMs c)"
  have "wiring_ok b ?w" using assms by (auto simp: wiring_ok_def life_ok_def cong: option.case_cong)
  then have "wiring_ok b (log_to [] (move n ?l [Closed DispatcherR] ?w))"
    using wiring_okD(1) [OF assms c] by (intro move_ok) simp_all
  moreover have "log_to [] (move n ?l [Closed DispatcherR] ?w) = (move n ?l [Closed DispatcherR] w)\<lparr>w_running := None\<rparr>"
    by (simp add: log_to_def move_def)
  ultimately show ?thesis using Some c by (simp add: stop_wiring_def)
qed (use assms in \<open>simp add: stop_wiring_def\<close>)

lemma start_wiring_ok:
  assumes ok: "wiring_ok b w" and l: "w_lives w n = None"
  shows "wiring_ok b (snd (start_wiring n c faults w))"
proof -
  have "w_running w \<noteq> Some n" using wiring_okD(3) [OF ok, of n] l by auto
  then have "life_acts b l acts \<Longrightarrow> wiring_ok b (log_to [] (move n l acts w))" for l acts
    using wiring_okD(2) [OF ok l] by (intro move_ok [OF ok]) simp_all
  then have to: "life_acts b l acts \<Longrightarrow> wiring_ok b (move n l acts w)" for l acts by (simp add: log_to_def)
  then show ?thesis using undone_teardown(1) by (auto simp: start_wiring_def teardown_def split: option.split)
qed

lemma log_ok: "wiring_ok b w \<Longrightarrow> wiring_ok b (log_to es w)"
  by (simp add: wiring_ok_def life_ok_def cong: option.case_cong)

lemma wiring_step_ok:
  assumes ok: "wiring_ok b w" and step: "wiring_step e w = Some (a, w')" and boots: "b \<Longrightarrow> maintainer_boots e"
  shows "wiring_ok b w'"
proof (cases e)
  case (StartCall n c faults)
  with step start_wiring_ok [OF ok, of n c faults] show ?thesis by (auto simp: wiring_step_def split: if_splits)
next
  case (PingReply n failed)
  with step on_ping_ok [OF ok, of n _ failed] show ?thesis
    by (auto simp: wiring_step_def split: option.splits life.splits)
next
  case (TokenReply n rep)
  with step on_token_ok [OF ok, of n _ rep] show ?thesis
    by (auto simp: wiring_step_def split: option.splits life.splits)
next
  case (LoadReply n failed faults)
  with step boots on_load_ok [OF ok, of n _ faults failed] show ?thesis
    by (auto simp: wiring_step_def split: option.splits life.splits)
next
  case (StopCall now)
  with step stop_wiring_ok [OF ok, of now] show ?thesis by (auto simp: wiring_step_def)
next
  case (Drained n now settled)
  then obtain c d where l: "w_lives w n = Some (AtDrain c d)" and w': "w' = move n (AtMaintainer c) [Closed MaintainerR] w"
    using step by (auto simp: wiring_step_def split: option.splits life.splits if_splits)
  show ?thesis unfolding w' using wiring_okD(1) [OF ok l] by (intro move_to(1) [OF ok l]) simp_all
next
  case (MaintainerStopped n failed now inFlight)
  then obtain c where l: "w_lives w n = Some (AtMaintainer c)"
    and w': "w' = snd (grace_check n c (now + wc_shutdownGraceMs c) now inFlight
      (log_to (failed_log MaintainerStopFailed failed) w))"
    using step by (auto simp: wiring_step_def split: option.splits life.splits)
  show ?thesis unfolding w' by (rule grace_check_ok [OF log_ok [OF ok], of _ _ "AtMaintainer c"]) (simp_all add: l)
next
  case (GracePoll n now inFlight)
  then obtain c d where l: "w_lives w n = Some (AtGrace c d)" and w': "w' = snd (grace_check n c d now inFlight w)"
    using step by (auto simp: wiring_step_def split: option.splits life.splits)
  show ?thesis unfolding w' by (rule grace_check_ok [OF ok l]) simp_all
next
  case (ShutdownReply n failed)
  then obtain c where l: "w_lives w n = Some (AtShutdown c)"
    and w': "w' = log_to (failed_log ManagerShutdownFailed failed) (move n (AtPoolEnd c) [Closed PoolR] w)"
    using step by (auto simp: wiring_step_def split: option.splits life.splits)
  show ?thesis unfolding w' using wiring_okD(1) [OF ok l] by (intro move_to(2) [OF ok l]) simp_all
next
  case (PoolEnded n failed)
  then obtain c where l: "w_lives w n = Some (AtPoolEnd c)"
    and w': "w' = log_to (failed_log PoolEndFailed failed) (move n Stopped [] w)"
    using step by (auto simp: wiring_step_def split: option.splits life.splits)
  show ?thesis unfolding w' using wiring_okD(1) [OF ok l] by (intro move_to(2) [OF ok l]) simp_all
qed

lemma run_wiring_ok:
  "run_wiring es w = Some w' \<Longrightarrow> wiring_ok b w \<Longrightarrow> (b \<Longrightarrow> list_all maintainer_boots es) \<Longrightarrow> wiring_ok b w'"
proof (induction es w rule: run_wiring.induct)
  case (2 e es w)
  from 2(2) obtain a v where "wiring_step e w = Some (a, v)" "run_wiring es v = Some w'"
    by (auto split: option.splits)
  with 2(1) [OF \<open>wiring_step e w = Some (a, v)\<close> refl] 2(3,4) wiring_step_ok show ?case by simp
qed simp

lemma unwired_ok: "wiring_ok b unwired"
  by (simp add: unwired_def wiring_ok_def life_ok_def acts_of_def)

text \<open>C24: What a start opens is closed again: in every run of starts and stops, overlapping ones
  included, the running start holds the pool, the connector manager, the claim loop and the
  maintainer; a start that was stopped has closed the claim loop first, then the maintainer, then the
  manager and last the pool; and a start that was rejected has closed everything it had opened, in
  reverse order, except a claim loop, which no rejected start closes and which only a maintainer that
  throws can leave: when no maintainer does, a rejected start leaves nothing.\<close>

theorem wiring_closes_what_it_opens:
  assumes run: "run_wiring es unwired = Some w"
  shows "(w_running w = Some n \<longrightarrow>
      acts_of n w = map Opened [PoolR, ManagerR, DispatcherR, MaintainerR]) \<and>
    (w_lives w n = Some Failed \<longrightarrow>
      (\<exists>os. filter (\<lambda>a. a \<noteq> DisposedAll) (acts_of n w) =
              map Opened os @ map Closed (rev (removeAll DispatcherR os)) \<and>
            (list_all maintainer_boots es \<longrightarrow> DispatcherR \<notin> set os))) \<and>
    (w_lives w n = Some Stopped \<longrightarrow>
      acts_of n w = map Opened [PoolR, ManagerR, DispatcherR, MaintainerR] @
        map Closed [DispatcherR, MaintainerR, ManagerR, PoolR])"
proof -
  have ok: "wiring_ok (list_all maintainer_boots es) w" by (rule run_wiring_ok [OF run unwired_ok])
  show ?thesis
  proof (intro conjI impI)
    assume "w_running w = Some n"
    then obtain c where "w_lives w n = Some (Up c)" using wiring_okD(3) [OF ok] by blast
    from wiring_okD(1) [OF ok this] show "acts_of n w = map Opened [PoolR, ManagerR, DispatcherR, MaintainerR]"
      by (simp add: boot_acts_def)
  next
    assume "w_lives w n = Some Failed"
    from wiring_okD(1) [OF ok this]
    show "\<exists>os. filter (\<lambda>a. a \<noteq> DisposedAll) (acts_of n w) =
        map Opened os @ map Closed (rev (removeAll DispatcherR os)) \<and>
      (list_all maintainer_boots es \<longrightarrow> DispatcherR \<notin> set os)"
      by (simp add: undone_def)
  next
    assume "w_lives w n = Some Stopped"
    from wiring_okD(1) [OF ok this]
    show "acts_of n w = map Opened [PoolR, ManagerR, DispatcherR, MaintainerR] @
        map Closed [DispatcherR, MaintainerR, ManagerR, PoolR]"
      by (simp add: boot_acts_def)
  qed
qed

definition healthy :: boot_faults where
  "healthy _ = None"

text \<open>A start that fails in the manager, then one that runs and is stopped with an attempt left.\<close>

definition example_runs :: "wiring_event list" where
  "example_runs =
     [StartCall 0 minimal_config healthy, PingReply 0 None, LoadReply 0 None (healthy(StartManager := Some ''boom'')),
      StartCall 1 minimal_config healthy, PingReply 1 None, LoadReply 1 None healthy, StopCall 100, StopCall 101,
      Drained 1 110 False, MaintainerStopped 1 None 120 1, GracePoll 1 1171 1, GracePoll 1 2222 1,
      ShutdownReply 1 None, PoolEnded 1 None]"

definition example_end :: wiring where
  "example_end = the (run_wiring example_runs unwired)"

lemma example_end_reached: "run_wiring example_runs unwired = Some example_end"
proof -
  have "run_wiring example_runs unwired \<noteq> None" by code_simp
  then show ?thesis by (auto simp: example_end_def)
qed

theorem wiring_closes_what_it_opens_witness:
  "w_lives example_end 0 = Some Failed \<and> w_lives example_end 1 = Some Stopped \<and>
   (\<exists>os. filter (\<lambda>a. a \<noteq> DisposedAll) (acts_of 0 example_end) =
      map Opened os @ map Closed (rev (removeAll DispatcherR os)) \<and> DispatcherR \<notin> set os) \<and>
   acts_of 1 example_end = map Opened [PoolR, ManagerR, DispatcherR, MaintainerR] @
        map Closed [DispatcherR, MaintainerR, ManagerR, PoolR]"
proof -
  have b: "list_all maintainer_boots example_runs" by (simp add: example_runs_def healthy_def)
  have l: "w_lives example_end 0 = Some Failed" "w_lives example_end 1 = Some Stopped" by code_simp+
  note closes = wiring_closes_what_it_opens [OF example_end_reached]
  show ?thesis using l b closes [of 0] closes [of 1] by blast
qed

section \<open>Stopping ends\<close>

definition polls :: "nat \<Rightarrow> (int \<times> nat) list \<Rightarrow> wiring_event list" where
  "polls n obs = map (\<lambda>x. GracePoll n (fst x) (snd x)) obs"

definition may_shut_down :: "int \<Rightarrow> int \<times> nat \<Rightarrow> bool" where
  "may_shut_down d x = (snd x = 0 \<or> d \<le> fst x)"

lemma grace_check_life:
  "w_lives (snd (grace_check n c d now inFlight w)) n =
     Some (if may_shut_down d (now, inFlight) then AtShutdown c else AtGrace c d)"
  by (auto simp: grace_check_def may_shut_down_def)

lemma poll_step:
  "w_lives w n = Some (AtGrace c d) \<Longrightarrow>
   \<exists>w'. run_wiring (polls n [x]) w = Some w' \<and>
     w_lives w' n = Some (if may_shut_down d x then AtShutdown c else AtGrace c d)"
  using grace_check_life [of n c d "fst x" "snd x" w]
  by (cases "grace_check n c d (fst x) (snd x) w") (simp add: polls_def wiring_step_def)

lemma run_wiring_append:
  "run_wiring es w = Some w' \<Longrightarrow> run_wiring (es @ fs) w = run_wiring fs w'"
  by (induction es w rule: run_wiring.induct) (auto split: option.splits)

lemma polls_end:
  assumes "w_lives w n = Some (AtGrace c d)" "\<exists>x\<in>set obs. may_shut_down d x"
  shows "\<exists>before x after w'. obs = before @ x # after \<and> may_shut_down d x \<and>
    (\<forall>y\<in>set before. \<not> may_shut_down d y) \<and>
    run_wiring (polls n (before @ [x])) w = Some w' \<and> w_lives w' n = Some (AtShutdown c)"
  using assms
proof (induction obs arbitrary: w)
  case (Cons x obs)
  obtain v where v: "run_wiring (polls n [x]) w = Some v"
    "w_lives v n = Some (if may_shut_down d x then AtShutdown c else AtGrace c d)"
    using poll_step [OF Cons.prems(1)] by blast
  show ?case
  proof (cases "may_shut_down d x")
    case True
    with v show ?thesis by (intro exI [of _ "[]"] exI [of _ x] exI [of _ obs] exI [of _ v]) simp
  next
    case False
    with v(2) Cons.prems(2) obtain before y rest w' where
      r: "obs = before @ y # rest" "may_shut_down d y" "\<forall>z\<in>set before. \<not> may_shut_down d z"
        "run_wiring (polls n (before @ [y])) v = Some w'" "w_lives w' n = Some (AtShutdown c)"
      using Cons.IH [of v] by auto
    have "run_wiring (polls n ((x # before) @ [y])) w = Some w'"
      using run_wiring_append [OF v(1), of "polls n (before @ [y])"] r(4) by (simp add: polls_def)
    with r False show ?thesis
      by (intro exI [of _ "x # before"] exI [of _ y] exI [of _ rest] exI [of _ w']) simp
  qed
qed simp

lemma maintainer_stopped_step:
  assumes "w_lives w n = Some (AtMaintainer c)"
  shows "\<exists>v. wiring_step (MaintainerStopped n None t0 inFlight) w = Some (Waits, v) \<and>
    w_lives v n = Some (if may_shut_down (t0 + wc_shutdownGraceMs c) (t0, inFlight) then AtShutdown c
                        else AtGrace c (t0 + wc_shutdownGraceMs c))"
proof -
  let ?g = "grace_check n c (t0 + wc_shutdownGraceMs c) t0 inFlight (log_to (failed_log MaintainerStopFailed None) w)"
  have "fst ?g = Waits" by (simp add: grace_check_def)
  then show ?thesis using assms grace_check_life [of n c _ t0 inFlight]
    by (intro exI [of _ "snd ?g"]) (simp add: wiring_step_def prod_eq_iff)
qed

text \<open>C25: The stop does not hang on attempts that do not end, and does not pull their connectors away
  early: once the maintainer has stopped, the grace loop, polling every fifty milliseconds or less
  often, shuts the connector manager down at the first poll that sees no attempt in flight or the end
  of the grace window, and after as many polls as the window holds fifty milliseconds there has been
  such a poll.\<close>

theorem stop_grace_ends:
  assumes waiting: "w_lives w n = Some (AtMaintainer c)"
    and sleeps: "\<forall>k < length obs. t0 + int (k + 1) * 50 \<le> fst (obs ! k)"
    and enough: "wc_shutdownGraceMs c \<le> int (length obs) * 50" "obs \<noteq> []"
  shows "\<exists>before x after w'. (t0, inFlight) # obs = before @ x # after \<and>
    (snd x = 0 \<or> t0 + wc_shutdownGraceMs c \<le> fst x) \<and>
    (\<forall>y\<in>set before. 0 < snd y \<and> fst y < t0 + wc_shutdownGraceMs c) \<and>
    run_wiring (MaintainerStopped n None t0 inFlight # polls n (tl (before @ [x]))) w = Some w' \<and>
    w_lives w' n = Some (AtShutdown c)"
proof -
  let ?d = "t0 + wc_shutdownGraceMs c"
  obtain v where v: "wiring_step (MaintainerStopped n None t0 inFlight) w = Some (Waits, v)"
    "w_lives v n = Some (if may_shut_down ?d (t0, inFlight) then AtShutdown c else AtGrace c ?d)"
    using maintainer_stopped_step [OF waiting, of t0 inFlight] by blast
  show ?thesis
  proof (cases "may_shut_down ?d (t0, inFlight)")
    case True
    with v show ?thesis
      by (intro exI [of _ "[]"] exI [of _ "(t0, inFlight)"] exI [of _ obs] exI [of _ v])
        (simp add: polls_def may_shut_down_def)
  next
    case False
    have "?d \<le> fst (last obs)"
      using sleeps [rule_format, of "length obs - 1"] enough by (simp add: last_conv_nth)
    then have "\<exists>x\<in>set obs. may_shut_down ?d x"
      using enough(2) by (intro bexI [of _ "last obs"]) (simp_all add: may_shut_down_def)
    from polls_end [OF _ this, of v n c] v(2) False obtain before x rest w' where
      r: "obs = before @ x # rest" "may_shut_down ?d x" "\<forall>y\<in>set before. \<not> may_shut_down ?d y"
        "run_wiring (polls n (before @ [x])) v = Some w'" "w_lives w' n = Some (AtShutdown c)" by auto
    with v(1) False show ?thesis
      by (intro exI [of _ "(t0, inFlight) # before"] exI [of _ x] exI [of _ rest] exI [of _ w'])
        (auto simp: may_shut_down_def)
  qed
qed

definition example_draining :: wiring where
  "example_draining = the (run_wiring (take 9 example_runs) unwired)"

definition short_grace :: wiring where
  "short_grace = move 1 (AtMaintainer (minimal_config\<lparr>wc_shutdownGraceMs := 100\<rparr>)) [] example_draining"

theorem stop_grace_ends_witness:
  "w_lives short_grace 1 = Some (AtMaintainer (minimal_config\<lparr>wc_shutdownGraceMs := 100\<rparr>)) \<and>
   (\<exists>before x after w'. (7, 2) # [(58, 1), (109, 1)] = before @ x # after \<and> (snd x = 0 \<or> 107 \<le> fst x) \<and>
     run_wiring (MaintainerStopped 1 None 7 2 # polls 1 (tl (before @ [x]))) short_grace = Some w')"
proof -
  let ?obs = "[(58::int, 1::nat), (109, 1)]"
  have w: "w_lives short_grace 1 = Some (AtMaintainer (minimal_config\<lparr>wc_shutdownGraceMs := 100\<rparr>))"
    by (simp add: short_grace_def)
  have s: "\<forall>k < length ?obs. 7 + int (k + 1) * 50 \<le> fst (?obs ! k)"
    by (auto simp: less_Suc_eq)
  show ?thesis using w stop_grace_ends [OF w s, of 2] by (fastforce simp: minimal_config_def)
qed

section \<open>What the guards miss\<close>

text \<open>When the maintainer throws, the claim loop that was started is left running on the ended pool.\<close>

lemma claim_loop_left_running:
  "acts_of 0 (the (run_wiring [StartCall 0 minimal_config healthy, PingReply 0 None,
      LoadReply 0 None (healthy(NewMaintainer := Some ''boom''))] unwired)) =
   [Opened PoolR, Opened ManagerR, Opened DispatcherR, Closed ManagerR, DisposedAll, Closed PoolR]"
  by code_simp

text \<open>Two overlapping starts both pass the guard; the first one's parts are then out of reach of every
  stop.\<close>

definition overlapping :: "wiring_event list" where
  "overlapping =
     [StartCall 0 minimal_config healthy, StartCall 1 minimal_config healthy, PingReply 0 None, PingReply 1 None,
      LoadReply 0 None healthy, LoadReply 1 None healthy, StopCall 5, Drained 1 6 True,
      MaintainerStopped 1 None 7 0, ShutdownReply 1 None, PoolEnded 1 None]"

lemma overlapping_start_lost:
  "w_running (the (run_wiring overlapping unwired)) = None \<and>
   acts_of 0 (the (run_wiring overlapping unwired)) = boot_acts"
  by code_simp

text \<open>A stop while nothing runs, and so a second stop, does nothing.\<close>

lemma stop_again: "w_running w = None \<Longrightarrow> stop_wiring now w = (Resolves, w)"
  by (simp add: stop_wiring_def)

lemma guarded_running: "guarded name w = Inr n \<longleftrightarrow> w_running w = Some n"
  by (auto simp: guarded_def split: option.splits)

end
