(* ===== verification/Entry_Point.thy ===== *)
theory Entry_Point
  imports Auth Wiring
begin

text \<open>
  \<open>src/index.ts\<close>: the process around the wiring. The settings are read, the wiring is started, the
  server listens, and a signal closes the server, then stops the wiring, then ends the process.
\<close>

datatype index_log =
    CollapseWarning string
  | Listening int
  | Started
  | SignalReceived string
  | StoppedCleanly
  | StopFailed string
  | StartFailed wiring_error
  | BadPort string

datatype process_phase =
    Starting wiring_config
  | Serving int
  | ClosingServer
  | StoppingWiring
  | Exited nat

record process =
  pr_phase :: process_phase
  pr_shuttingDown :: bool
  pr_log :: "index_log list"

definition to_phase :: "process_phase \<Rightarrow> index_log list \<Rightarrow> process \<Rightarrow> process" where
  "to_phase ph es p = p\<lparr>pr_phase := ph, pr_log := pr_log p @ es\<rparr>"

definition main_begin :: "process_env \<Rightarrow> jwt_config \<Rightarrow> process" where
  "main_begin env jwt =
     (case loadWiringConfig env of
        Inl e \<Rightarrow> \<lparr> pr_phase = Exited 1, pr_shuttingDown = False, pr_log = [StartFailed e] \<rparr>
      | Inr c \<Rightarrow>
          \<lparr> pr_phase = Starting c, pr_shuttingDown = False,
            pr_log = (case checkAudienceIdentityCollapse (map_option to_clientId (wc_iga c)) jwt of
                        None \<Rightarrow> [] | Some w \<Rightarrow> [CollapseWarning w]) \<rparr>)"

text \<open>After \<open>start\<close> has settled: the handlers of the signals are installed last.\<close>

definition main_started :: "process_env \<Rightarrow> wiring_error option \<Rightarrow> process \<Rightarrow> process" where
  "main_started env failed p =
     (case failed of
        Some e \<Rightarrow> to_phase (Exited 1) [StartFailed e] p
      | None \<Rightarrow>
          (case loadHttpConfig env of
             Inl raw \<Rightarrow> to_phase (Exited 1) [BadPort raw] p
           | Inr port \<Rightarrow> to_phase (Serving port) [Started, Listening port] p))"

definition onSignal :: "string \<Rightarrow> process \<Rightarrow> process" where
  "onSignal signal p =
     (if pr_shuttingDown p then p
      else (to_phase ClosingServer [SignalReceived signal] p)\<lparr>pr_shuttingDown := True\<rparr>)"

datatype process_event = WiringStarted "wiring_error option" | Signal string | ServerClosed | WiringStopped "string option"

definition process_step :: "process_env \<Rightarrow> process_event \<Rightarrow> process \<Rightarrow> process option" where
  "process_step env e p =
     (case (e, pr_phase p) of
        (WiringStarted failed, Starting _) \<Rightarrow> Some (main_started env failed p)
      | (Signal s, Serving _) \<Rightarrow> Some (onSignal s p)
      | (Signal s, ClosingServer) \<Rightarrow> Some (onSignal s p)
      | (Signal s, StoppingWiring) \<Rightarrow> Some (onSignal s p)
      | (ServerClosed, ClosingServer) \<Rightarrow> Some (to_phase StoppingWiring [] p)
      | (WiringStopped failed, StoppingWiring) \<Rightarrow>
          Some (case failed of
                  None \<Rightarrow> to_phase (Exited 0) [StoppedCleanly] p
                | Some msg \<Rightarrow> to_phase (Exited 1) [StopFailed msg] p)
      | _ \<Rightarrow> None)"

fun run_process :: "process_env \<Rightarrow> process_event list \<Rightarrow> process \<Rightarrow> process option" where
  "run_process env [] p = Some p"
| "run_process env (e # es) p = (case process_step env e p of None \<Rightarrow> None | Some q \<Rightarrow> run_process env es q)"

text \<open>A process that shuts down keeps doing so: it is past serving, and another signal changes
  nothing.\<close>

definition process_ok :: "process \<Rightarrow> bool" where
  "process_ok p =
     (case pr_phase p of
        Starting c \<Rightarrow> \<not> pr_shuttingDown p \<and> wiring_config_ok c
      | Serving port \<Rightarrow> \<not> pr_shuttingDown p \<and> 1 \<le> port \<and> port \<le> 65535
      | Exited n \<Rightarrow> n = 1 \<or> n = 0 \<and> last (pr_log p) = StoppedCleanly
      | _ \<Rightarrow> pr_shuttingDown p)"

lemma main_begin_ok: "process_ok (main_begin env jwt)"
  using loaded_config_ok [of env] by (auto simp: main_begin_def process_ok_def split: sum.split)

lemma main_started_ok:
  "process_ok p \<Longrightarrow> pr_phase p = Starting c \<Longrightarrow> process_ok (main_started env failed p)"
  using loaded_port_range [of env]
  by (auto simp: main_started_def process_ok_def to_phase_def split: option.split sum.split)

lemma process_step_ok:
  assumes ok: "process_ok p" and step: "process_step env e p = Some q"
  shows "process_ok q"
proof (cases "\<exists>failed c. e = WiringStarted failed \<and> pr_phase p = Starting c")
  case True
  then show ?thesis using step main_started_ok [OF ok] by (auto simp: process_step_def)
next
  case False
  then show ?thesis using ok step
    by (cases e; cases "pr_phase p")
      (auto simp: process_step_def onSignal_def to_phase_def process_ok_def split: option.splits)
qed

lemma run_process_ok: "run_process env es p = Some q \<Longrightarrow> process_ok p \<Longrightarrow> process_ok q"
  by (induction env es p rule: run_process.induct) (auto intro: process_step_ok split: option.splits)

text \<open>The wiring is stopped only once the server has closed, and a second signal does nothing.\<close>

lemma signals_ignored_while_closing:
  "process_ok p \<Longrightarrow> pr_phase p \<noteq> Exited n \<Longrightarrow> \<forall>port. pr_phase p \<noteq> Serving port \<Longrightarrow> process_step env (Signal s) p = Some q \<Longrightarrow> q = p"
  by (auto simp: process_step_def process_ok_def onSignal_def split: process_phase.splits)

lemma stopping_after_close:
  "process_step env e p = Some q \<Longrightarrow> pr_phase q = StoppingWiring \<Longrightarrow> pr_phase p \<noteq> StoppingWiring \<Longrightarrow>
   e = ServerClosed \<and> pr_phase p = ClosingServer"
  by (auto simp: process_step_def onSignal_def to_phase_def main_started_def split: process_event.splits
      process_phase.splits option.splits sum.splits if_splits)

text \<open>While the server does not finish closing, nothing is stopped: there is no bound on that wait.\<close>

lemma close_unbounded:
  "pr_phase p = ClosingServer \<Longrightarrow> run_process env (replicate n (Signal s)) p = Some q \<Longrightarrow> process_ok p \<Longrightarrow> pr_phase q = ClosingServer"
  by (induction n arbitrary: p) (auto simp: process_step_def onSignal_def process_ok_def)

end
