(* ===== verification/App_Config.thy ===== *)
theory App_Config
  imports Scheduling "HOL-Library.AList"
begin

text \<open>
  \<open>src/config/application.ts\<close> and \<open>src/config/FileApplicationConfigStore.ts\<close>: the document of one
  application instance, its validation, the split of its runtime block, and the store that reads
  documents from a directory. The file system, \<open>JSON.parse\<close> and SHA-256 are the arguments of the
  store. The locale \<open>config_store\<close> states what a store promises its clients.
\<close>

section \<open>The document\<close>

type_synonym fields = "(string \<times> json) list"

record app_config =
  ac_applicationId :: string
  ac_connectorType :: string
  ac_connectorVersion :: string
  ac_connectorConfig :: fields
  ac_runtime :: "fields option"

record versioned_config =
  vc_config :: app_config
  vc_version :: string

section \<open>The two halves of the runtime block\<close>

definition APP_SCHEDULING_KEYS :: "string list" where
  "APP_SCHEDULING_KEYS = [''interactiveSliceFraction'', ''rateLimits'']"

record split_runtime =
  sp_execution :: fields
  sp_scheduling :: fields

text \<open>\<open>o[k] = v\<close> on a plain object, by its own keys: \<open>__proto__\<close> names the prototype, so assigning it
  leaves no key.\<close>

definition put_field :: "string \<Rightarrow> json \<Rightarrow> fields \<Rightarrow> fields" where
  "put_field k v fs = (if k = ''__proto__'' then fs else AList.update k v fs)"

fun split_entries :: "fields \<Rightarrow> split_runtime \<Rightarrow> split_runtime" where
  "split_entries [] sp = sp"
| "split_entries ((k, v) # es) sp =
     split_entries es
       (if k \<in> set APP_SCHEDULING_KEYS
        then sp\<lparr>sp_scheduling := put_field k v (sp_scheduling sp)\<rparr>
        else sp\<lparr>sp_execution := put_field k v (sp_execution sp)\<rparr>)"

definition splitRuntimeBlock :: "fields option \<Rightarrow> split_runtime" where
  "splitRuntimeBlock rt =
     split_entries (case rt of None \<Rightarrow> [] | Some fs \<Rightarrow> fs) \<lparr> sp_execution = [], sp_scheduling = [] \<rparr>"

section \<open>Validation\<close>

datatype app_error =
    NotJsonObject string string
  | FieldMissing string string
  | ConnectorConfigNotObject string
  | RuntimeNotObject string

fun typeof_name :: "jsval \<Rightarrow> string" where
  "typeof_name None = ''undefined''"
| "typeof_name (Some JNull) = ''null''"
| "typeof_name (Some (JBool _)) = ''boolean''"
| "typeof_name (Some (JNum _)) = ''number''"
| "typeof_name (Some (JStr _)) = ''string''"
| "typeof_name (Some _) = ''object''"

definition require_string :: "string \<Rightarrow> fields \<Rightarrow> string \<Rightarrow> app_error + string" where
  "require_string source fs key =
     (case obj_get fs key of
        Some (JStr s) \<Rightarrow> if s = [] then Inl (FieldMissing source key) else Inr s
      | _ \<Rightarrow> Inl (FieldMissing source key))"

definition validateApplicationConfig :: "jsval \<Rightarrow> string \<Rightarrow> app_error + app_config" where
  "validateApplicationConfig raw source =
     (if \<not> isPlainObject raw then Inl (NotJsonObject source (typeof_name raw))
      else let fs = obj_fields raw
           in sbind (require_string source fs ''applicationId'') (\<lambda>i.
              sbind (require_string source fs ''connectorType'') (\<lambda>t.
              sbind (require_string source fs ''connectorVersion'') (\<lambda>v.
              let cc = obj_get fs ''connectorConfig''; rt = obj_get fs ''runtime''
              in if cc \<noteq> None \<and> \<not> isPlainObject cc then Inl (ConnectorConfigNotObject source)
                 else if rt \<noteq> None \<and> \<not> isPlainObject rt then Inl (RuntimeNotObject source)
                 else Inr \<lparr> ac_applicationId = i, ac_connectorType = t, ac_connectorVersion = v,
                            ac_connectorConfig = obj_fields cc,
                            ac_runtime = map_option (\<lambda>x. obj_fields (Some x)) rt \<rparr>))))"

section \<open>Paths\<close>

text \<open>\<open>path.join\<close> of POSIX paths: the parts joined by a slash and normalised, segment by segment.
  \<open>kept\<close> holds the segments kept so far, the last first.\<close>

fun keep_segments :: "bool \<Rightarrow> string list \<Rightarrow> string list \<Rightarrow> string list" where
  "keep_segments absolute kept [] = rev kept"
| "keep_segments absolute kept (s # ss) =
     (if s = [] \<or> s = ''.'' then keep_segments absolute kept ss
      else if s = ''..''
      then case kept of
             [] \<Rightarrow> keep_segments absolute (if absolute then [] else [''..'']) ss
           | b # bs \<Rightarrow> keep_segments absolute (if b = ''..'' then ''..'' # b # bs else bs) ss
      else keep_segments absolute (s # kept) ss)"

definition is_absolute :: "string \<Rightarrow> bool" where
  "is_absolute p = starts_with p ''/''"

definition path_segments :: "string \<Rightarrow> string list" where
  "path_segments p = keep_segments (is_absolute p) [] (split_on (CHR ''/'') p)"

definition path_normalize :: "string \<Rightarrow> string" where
  "path_normalize p =
     (let core = join_with ''/'' (path_segments p);
          tail = (if ends_with p ''/'' then ''/'' else [])
      in if p = [] then ''.''
         else if is_absolute p then (if core = [] then ''/'' else ''/'' @ core @ tail)
         else if core = [] then ''.'' @ tail
         else core @ tail)"

definition path_join :: "string \<Rightarrow> string \<Rightarrow> string" where
  "path_join dir name =
     path_normalize (join_with ''/'' (filter (\<lambda>p. p \<noteq> []) [dir, name]))"

section \<open>The file store\<close>

datatype read_answer = ReadText string | NoEntry | ReadFailed string

record file_env =
  readFile :: "string \<Rightarrow> read_answer"
  json_parse :: "string \<Rightarrow> string + json"
  sha256_hex :: "string \<Rightarrow> string"

datatype store_error =
    NotIdentifier string
  | FileError string
  | NotJson string string
  | InvalidDocument app_error
  | IdMismatch string string string

definition safe_char :: "char \<Rightarrow> bool" where
  "safe_char c = (is_alpha c \<or> is_digit c \<or> c \<in> set ''._-'')"

definition SAFE_ID :: "string \<Rightarrow> bool" where
  "SAFE_ID s = (s \<noteq> [] \<and> (is_alpha (hd s) \<or> is_digit (hd s)) \<and> list_all safe_char (tl s))"

definition file_of :: "string \<Rightarrow> string \<Rightarrow> string" where
  "file_of directory i = path_join directory (i @ ''.json'')"

definition file_store_get ::
  "file_env \<Rightarrow> string \<Rightarrow> string \<Rightarrow> store_error + versioned_config option" where
  "file_store_get env directory i =
     (if \<not> SAFE_ID i \<or> str_includes i ''..'' then Inl (NotIdentifier i)
      else let f = file_of directory i
           in case readFile env f of
                NoEntry \<Rightarrow> Inr None
              | ReadFailed msg \<Rightarrow> Inl (FileError msg)
              | ReadText txt \<Rightarrow>
                  (case json_parse env txt of
                     Inl msg \<Rightarrow> Inl (NotJson f msg)
                   | Inr parsed \<Rightarrow>
                       (case validateApplicationConfig (Some parsed) f of
                          Inl e \<Rightarrow> Inl (InvalidDocument e)
                        | Inr config \<Rightarrow>
                            if ac_applicationId config \<noteq> i
                            then Inl (IdMismatch f (ac_applicationId config) i)
                            else Inr (Some \<lparr> vc_config = config, vc_version = sha256_hex env txt \<rparr>))))"

section \<open>The split sends every key to its owner\<close>

lemma keys_put_field:
  "fst ` set (put_field k v fs) = fst ` set fs \<union> (if k = ''__proto__'' then {} else {k})"
  by (simp add: put_field_def dom_update)

lemma get_put_field:
  "obj_get (put_field k v fs) k' =
     (if k = k' \<and> k \<noteq> ''__proto__'' then Some v else obj_get fs k')"
  by (auto simp: put_field_def obj_get_def update_conv')

lemma split_entries_keys:
  "fst ` set (sp_scheduling sp) \<subseteq> set APP_SCHEDULING_KEYS \<Longrightarrow>
   fst ` set (sp_scheduling (split_entries es sp)) \<subseteq> set APP_SCHEDULING_KEYS"
  by (induction es sp rule: split_entries.induct) (auto simp: keys_put_field split: if_splits)

lemma split_entries_get:
  assumes "distinct (map fst es)"
  shows "obj_get (sp_scheduling (split_entries es sp)) k =
      (if k \<in> fst ` set es \<and> k \<in> set APP_SCHEDULING_KEYS \<and> k \<noteq> ''__proto__'' then obj_get es k
       else obj_get (sp_scheduling sp) k) \<and>
    obj_get (sp_execution (split_entries es sp)) k =
      (if k \<in> fst ` set es \<and> k \<notin> set APP_SCHEDULING_KEYS \<and> k \<noteq> ''__proto__'' then obj_get es k
       else obj_get (sp_execution sp) k)"
  using assms
proof (induction es sp rule: split_entries.induct)
  case (2 j v es sp)
  then have "j \<notin> fst ` set es" and IH: "distinct (map fst es)" by auto
  moreover have "obj_get ((j, v) # es) k = (if k = j then Some v else obj_get es k)"
    by (simp add: obj_get_def)
  ultimately show ?case using "2.IH" [OF IH] by (auto simp: get_put_field)
qed simp

lemma obj_get_absent: "k \<notin> fst ` set es \<Longrightarrow> obj_get es k = None"
  by (auto simp: obj_get_def map_of_eq_None_iff)

lemma split_get:
  assumes "distinct (map fst fs)"
  shows "obj_get (sp_scheduling (splitRuntimeBlock (Some fs))) k =
      (if k \<in> set APP_SCHEDULING_KEYS then obj_get fs k else None) \<and>
    (k \<noteq> ''__proto__'' \<longrightarrow>
     obj_get (sp_execution (splitRuntimeBlock (Some fs))) k =
      (if k \<in> set APP_SCHEDULING_KEYS then None else obj_get fs k))"
proof -
  have "''__proto__'' \<notin> set APP_SCHEDULING_KEYS" by (simp add: APP_SCHEDULING_KEYS_def)
  then show ?thesis
    using split_entries_get [OF assms, of "\<lparr> sp_execution = [], sp_scheduling = [] \<rparr>" k]
    by (auto simp: splitRuntimeBlock_def obj_get_absent)
qed

lemma same_scheduling_keys: "APP_SCHEDULING_KEYS = SCHEDULING_KEYS"
  by (simp add: APP_SCHEDULING_KEYS_def SCHEDULING_KEYS_def)

lemma half_errors_known:
  "parseSliceFraction raw \<noteq> Inl (UnknownSetting k)" "parseRateLimits raw \<noteq> Inl (UnknownSetting k)"
proof -
  have "requirePositiveInteger v p \<noteq> Inl (UnknownSetting k)" for v p
    by (auto simp: requirePositiveInteger_def split: option.split json.split jsnum.split)
  then have limit: "parseRateLimit kd entry \<noteq> Inl (UnknownSetting k)" for kd entry
    by (auto simp: parseRateLimit_def Let_def sbind_def split: option.split sum.split)
  have "parseRateLimitEntries es \<noteq> Inl (UnknownSetting k)" for es
    by (induction es rule: parseRateLimitEntries.induct)
      (auto simp: sbind_def limit split: option.split sum.split)
  then show "parseRateLimits raw \<noteq> Inl (UnknownSetting k)" by (simp add: parseRateLimits_def)
  show "parseSliceFraction raw \<noteq> Inl (UnknownSetting k)"
    by (auto simp: parseSliceFraction_def split: option.split json.split jsnum.split)
qed

lemma scheduling_half_known:
  "resolveSchedulingConfig (Some (JObj (sp_scheduling (splitRuntimeBlock rt)))) m \<noteq> Inl (UnknownSetting k)"
proof -
  let ?fs = "sp_scheduling (splitRuntimeBlock rt)"
  have "fst ` set ?fs \<subseteq> set SCHEDULING_KEYS"
    using split_entries_keys by (simp add: splitRuntimeBlock_def same_scheduling_keys)
  then have "List.find (\<lambda>k. k \<notin> set SCHEDULING_KEYS) (map fst ?fs) = None"
    by (auto simp: find_None)
  then show ?thesis
    using half_errors_known by (auto simp: resolveSchedulingConfig_def Let_def sbind_def split: sum.split)
qed

text \<open>The split of a runtime block sends every key to its owner and changes no value: the claim
  loop's keys are in the scheduling half only, every other key in the execution half only (a key
  \<open>__proto__\<close> is in neither), and the validator of the scheduling half never meets a key it does not
  know.\<close>

theorem runtime_split_by_owner:
  assumes "distinct (map fst fs)"
  shows "obj_get (sp_scheduling (splitRuntimeBlock (Some fs))) k =
      (if k \<in> set SCHEDULING_KEYS then obj_get fs k else None) \<and>
    obj_get (sp_execution (splitRuntimeBlock (Some fs))) k =
      (if k \<in> set SCHEDULING_KEYS \<or> k = ''__proto__'' then None else obj_get fs k) \<and>
    resolveSchedulingConfig (Some (JObj (sp_scheduling (splitRuntimeBlock (Some fs))))) m
      \<noteq> Inl (UnknownSetting k')"
proof -
  have "''__proto__'' \<notin> set SCHEDULING_KEYS" by (simp add: SCHEDULING_KEYS_def)
  then have "obj_get (sp_scheduling (splitRuntimeBlock (Some fs))) k =
      (if k \<in> set SCHEDULING_KEYS then obj_get fs k else None) \<and>
    obj_get (sp_execution (splitRuntimeBlock (Some fs))) k =
      (if k \<in> set SCHEDULING_KEYS \<or> k = ''__proto__'' then None else obj_get fs k)"
    using split_entries_get [OF assms, of "\<lparr> sp_execution = [], sp_scheduling = [] \<rparr>" k]
    by (auto simp: splitRuntimeBlock_def obj_get_absent same_scheduling_keys)
  then show ?thesis using scheduling_half_known [of "Some fs" m k'] by blast
qed

definition example_runtime :: fields where
  "example_runtime =
     [(''mutationConcurrency'', JNum (Fin 4)), (''interactiveSliceFraction'', JNum (Fin (1 / 2)))]"

theorem runtime_split_by_owner_witness:
  "splitRuntimeBlock (Some example_runtime) =
     \<lparr> sp_execution = [(''mutationConcurrency'', JNum (Fin 4))],
       sp_scheduling = [(''interactiveSliceFraction'', JNum (Fin (1 / 2)))] \<rparr> \<and>
   obj_get (sp_execution (splitRuntimeBlock (Some example_runtime))) ''mutationConcurrency'' =
     Some (JNum (Fin 4))"
proof -
  have d: "distinct (map fst example_runtime)" by (simp add: example_runtime_def)
  show ?thesis using runtime_split_by_owner [OF d, of "''mutationConcurrency''"]
    by (simp add: splitRuntimeBlock_def example_runtime_def APP_SCHEDULING_KEYS_def put_field_def obj_get_def
        SCHEDULING_KEYS_def)
qed

section \<open>Validation accepts exactly the documents with an identity\<close>

definition document_of :: "app_config \<Rightarrow> json \<Rightarrow> bool" where
  "document_of c j =
     (let fs = obj_fields (Some j)
      in isPlainObject (Some j) \<and>
         obj_get fs ''applicationId'' = Some (JStr (ac_applicationId c)) \<and> ac_applicationId c \<noteq> [] \<and>
         obj_get fs ''connectorType'' = Some (JStr (ac_connectorType c)) \<and> ac_connectorType c \<noteq> [] \<and>
         obj_get fs ''connectorVersion'' = Some (JStr (ac_connectorVersion c)) \<and> ac_connectorVersion c \<noteq> [] \<and>
         (obj_get fs ''connectorConfig'' = Some (JObj (ac_connectorConfig c)) \<or>
          obj_get fs ''connectorConfig'' = None \<and> ac_connectorConfig c = []) \<and>
         obj_get fs ''runtime'' = map_option JObj (ac_runtime c))"

lemma require_string_Inr:
  "require_string src fs k = Inr s \<longleftrightarrow> obj_get fs k = Some (JStr s) \<and> s \<noteq> []"
  by (auto simp: require_string_def split: option.splits json.splits if_splits)

lemma isPlainObject_iff: "isPlainObject v \<longleftrightarrow> (\<exists>fs. v = Some (JObj fs))"
  by (cases v rule: isPlainObject.cases) auto

lemma validate_Inr: "validateApplicationConfig (Some j) src = Inr c \<longleftrightarrow> document_of c j"
proof -
  have "validateApplicationConfig (Some j) src = Inr c \<longleftrightarrow>
      isPlainObject (Some j) \<and>
      (let fs = obj_fields (Some j); cc = obj_get fs ''connectorConfig''; rt = obj_get fs ''runtime''
       in require_string src fs ''applicationId'' = Inr (ac_applicationId c) \<and>
          require_string src fs ''connectorType'' = Inr (ac_connectorType c) \<and>
          require_string src fs ''connectorVersion'' = Inr (ac_connectorVersion c) \<and>
          (cc = None \<or> isPlainObject cc) \<and> (rt = None \<or> isPlainObject rt) \<and>
          ac_connectorConfig c = obj_fields cc \<and> ac_runtime c = map_option (\<lambda>x. obj_fields (Some x)) rt)"
    by (cases c) (auto simp: validateApplicationConfig_def Let_def sbind_Inr_iff)
  also have "\<dots> \<longleftrightarrow> document_of c j"
    by (auto simp: document_of_def Let_def require_string_Inr isPlainObject_iff option.map_comp comp_def
        option.map_ident)
  finally show ?thesis .
qed

section \<open>The file store\<close>

text \<open>The directory as \<open>path.join\<close> writes it in front of a file name.\<close>

definition dir_prefix :: "string \<Rightarrow> string" where
  "dir_prefix dir =
     (if is_absolute dir then ''/'' else []) @ concat (map (\<lambda>s. s @ ''/'') (path_segments dir))"

definition plain_segment :: "string \<Rightarrow> bool" where
  "plain_segment s = (s \<noteq> [] \<and> s \<noteq> ''.'' \<and> s \<noteq> ''..'' \<and> CHR ''/'' \<notin> set s)"

lemma keep_segments_snoc:
  "plain_segment n \<Longrightarrow> keep_segments a kept (ss @ [n]) = keep_segments a kept ss @ [n]"
  by (induction a kept ss rule: keep_segments.induct) (auto simp: plain_segment_def split: list.split)

lemma split_on_snoc: "d \<notin> set w \<Longrightarrow> split_on d (s @ d # w) = split_on d s @ [w]"
proof (induction s)
  case (Cons c s)
  then show ?case using split_on_nonempty [of d s] by (auto split: list.split)
qed (simp add: split_on_no_sep)

lemma join_snoc: "join_with ''/'' (ss @ [n]) = concat (map (\<lambda>s. s @ ''/'') ss) @ n"
proof (induction ss)
  case (Cons s ss)
  then show ?case by (cases ss) simp_all
qed simp

lemma path_join_plain:
  assumes n: "plain_segment n"
  shows "path_join dir n = dir_prefix dir @ n"
proof -
  have no_slash: "\<not> is_absolute n" "\<not> ends_with (p @ n) ''/''" "n \<noteq> []" for p
    using n by (auto simp: plain_segment_def is_absolute_def starts_with_def ends_with_def suffix_def prefix_def
        append_eq_append_conv2 Cons_eq_append_conv append_eq_Cons_conv)
  have single: "path_segments n = [n]"
    using n by (auto simp: path_segments_def plain_segment_def split_on_no_sep)
  show ?thesis
  proof (cases "dir = []")
    case True
    then show ?thesis using no_slash(1,3) no_slash(2) [of "[]"] single
      by (simp add: path_join_def path_normalize_def dir_prefix_def path_segments_def is_absolute_def starts_with_def)
  next
    case False
    let ?p = "dir @ ''/'' @ n"
    have j: "join_with ''/'' (filter (\<lambda>p. p \<noteq> []) [dir, n]) = ?p" using False no_slash by simp
    have abs: "is_absolute ?p = is_absolute dir" using False
      by (cases dir) (simp_all add: is_absolute_def starts_with_def)
    have "split_on (CHR ''/'') ?p = split_on (CHR ''/'') dir @ [n]"
      using n split_on_snoc [of "CHR ''/''" n dir] by (simp add: plain_segment_def)
    then have segs: "path_segments ?p = path_segments dir @ [n]"
      using n unfolding path_segments_def abs by (simp add: keep_segments_snoc)
    have e: "\<not> ends_with ?p ''/''" using no_slash(2) [of "dir @ ''/''"] by simp
    show ?thesis unfolding path_join_def j path_normalize_def Let_def segs join_snoc abs
      using e no_slash(3) False by (simp add: dir_prefix_def)
  qed
qed

lemma safe_id_plain:
  assumes "SAFE_ID i"
  shows "plain_segment (i @ ''.json'')" "CHR ''/'' \<notin> set i"
proof -
  have "list_all safe_char i" using assms by (cases i) (auto simp: SAFE_ID_def safe_char_def)
  moreover have "\<not> safe_char (CHR ''/'')"
    by (simp add: safe_char_def is_alpha_def is_digit_def char_code_def)
  ultimately show "CHR ''/'' \<notin> set i" by (auto simp: list_all_iff)
  moreover have "length (i @ ''.json'') \<ge> 5" by simp
  ultimately show "plain_segment (i @ ''.json'')" by (auto simp: plain_segment_def)
qed

lemma file_store_get_Some:
  assumes "file_store_get env dir i = Inr (Some vc)"
  shows "\<exists>txt j. SAFE_ID i \<and> \<not> str_includes i ''..'' \<and>
    readFile env (file_of dir i) = ReadText txt \<and> json_parse env txt = Inr j \<and>
    document_of (vc_config vc) j \<and> ac_applicationId (vc_config vc) = i \<and> vc_version vc = sha256_hex env txt"
  using assms
  by (auto simp: file_store_get_def Let_def validate_Inr split: if_splits read_answer.splits sum.splits)

text \<open>C36: The file store is confined: for every id it accepts, the one path it reads is the configured
  directory (normalised) followed by the id and \<open>.json\<close>, with no slash in the id, so that its answer
  depends on the content of that file only, and an id it refuses is refused without reading anything.
  A document is served only under the id it carries itself.\<close>

theorem file_store_confined:
  assumes same: "json_parse env' = json_parse env" "sha256_hex env' = sha256_hex env"
    and there: "readFile env' (dir_prefix dir @ i @ ''.json'') = readFile env (dir_prefix dir @ i @ ''.json'')"
  shows "file_store_get env' dir i = file_store_get env dir i \<and>
    (SAFE_ID i \<longrightarrow> file_of dir i = dir_prefix dir @ i @ ''.json'' \<and> CHR ''/'' \<notin> set i) \<and>
    (\<forall>vc. file_store_get env dir i = Inr (Some vc) \<longrightarrow> SAFE_ID i \<and> ac_applicationId (vc_config vc) = i)"
proof -
  have f: "file_of dir i = dir_prefix dir @ i @ ''.json''" if "SAFE_ID i"
    using path_join_plain [OF safe_id_plain(1) [OF that]] by (simp add: file_of_def)
  have "file_store_get env' dir i = file_store_get env dir i"
    using f unfolding file_store_get_def Let_def
    by (cases "SAFE_ID i") (simp_all only: there same not_False_eq_True not_True_eq_False simp_thms if_True)
  moreover have "SAFE_ID i \<longrightarrow> file_of dir i = dir_prefix dir @ i @ ''.json'' \<and> CHR ''/'' \<notin> set i"
    using f safe_id_plain by blast
  moreover have "\<forall>vc. file_store_get env dir i = Inr (Some vc) \<longrightarrow> SAFE_ID i \<and> ac_applicationId (vc_config vc) = i"
    using file_store_get_Some by blast
  ultimately show ?thesis by blast
qed

text \<open>A directory with one document, and the same with another file beside it.\<close>

definition example_document :: json where
  "example_document =
     JObj [(''applicationId'', JStr ''ad''), (''connectorType'', JStr ''ldap''),
           (''connectorVersion'', JStr ''1''), (''runtime'', JObj example_runtime)]"

definition example_files :: file_env where
  "example_files =
     \<lparr> readFile = (\<lambda>f. if f = ''conf/ad.json'' then ReadText ''doc'' else NoEntry),
       json_parse = (\<lambda>txt. if txt = ''doc'' then Inr example_document else Inl ''bad''),
       sha256_hex = (\<lambda>txt. txt) \<rparr>"

definition more_files :: file_env where
  "more_files = example_files\<lparr>readFile := (\<lambda>f. if f = ''conf/ad.json'' then ReadText ''doc'' else ReadText ''x'')\<rparr>"

theorem file_store_confined_witness:
  "file_of ''./conf/'' ''ad'' = ''conf/ad.json'' \<and>
   file_store_get more_files ''./conf/'' ''ad'' = file_store_get example_files ''./conf/'' ''ad'' \<and>
   map_option (ac_applicationId \<circ> vc_config) (projr (file_store_get example_files ''./conf/'' ''ad'')) = Some ''ad''"
proof -
  have d: "dir_prefix ''./conf/'' @ ''ad'' @ ''.json'' = ''conf/ad.json''" by code_simp
  have safe: "SAFE_ID ''ad''" by code_simp
  have e: "json_parse more_files = json_parse example_files" "sha256_hex more_files = sha256_hex example_files"
    "readFile more_files (dir_prefix ''./conf/'' @ ''ad'' @ ''.json'') =
     readFile example_files (dir_prefix ''./conf/'' @ ''ad'' @ ''.json'')"
    unfolding d by (simp_all add: more_files_def example_files_def)
  have served: "map_option (ac_applicationId \<circ> vc_config)
      (projr (file_store_get example_files ''./conf/'' ''ad'')) = Some ''ad''"
    by code_simp
  show ?thesis using file_store_confined [OF e] safe d served by simp
qed

section \<open>What a store promises\<close>

definition good_reply :: "string \<Rightarrow> 'e + versioned_config option \<Rightarrow> bool" where
  "good_reply i reply =
     (\<forall>vc. reply = Inr (Some vc) \<longrightarrow>
        ac_applicationId (vc_config vc) = i \<and> i \<noteq> [] \<and>
        ac_connectorType (vc_config vc) \<noteq> [] \<and> ac_connectorVersion (vc_config vc) \<noteq> [])"

locale config_store =
  fixes get :: "string \<Rightarrow> 'e + versioned_config option"
  assumes good: "good_reply i (get i)"
begin

lemma served_under_own_id: "get i = Inr (Some vc) \<Longrightarrow> ac_applicationId (vc_config vc) = i"
  using good [of i] by (simp add: good_reply_def)

lemma different_applications:
  "get i = Inr (Some vc) \<Longrightarrow> get j = Inr (Some vd) \<Longrightarrow> i \<noteq> j \<Longrightarrow> vc_config vc \<noteq> vc_config vd"
  by (metis served_under_own_id)

end

interpretation file_store: config_store "file_store_get env dir"
proof
  fix i
  show "good_reply i (file_store_get env dir i)"
    using file_store_get_Some unfolding good_reply_def document_of_def Let_def by blast
qed

end
