(* ===== verification/Registrar.thy ===== *)
theory Registrar
  imports App_Config Dispatcher
begin

text \<open>
  \<open>src/config/registerApplication.ts\<close>: the registrar that turns a configuration document into a
  registered connector instance and keeps the scheduling half. \<open>resolve\<close> suspends at each \<open>await\<close>;
  the phase of the resolution in flight for an id says where. The framework's registry is an
  argument, a record of the three operations the code calls; the clock, the lease count and the
  configuration store's reply are what a step observes.
\<close>

section \<open>The framework's registry\<close>

record definition_info =
  df_connectorType :: string
  df_connectorVersion :: string
  df_connectorConfig :: fields
  df_runtime :: core_runtime

text \<open>A registration is refused with a message, a disposal may throw one.\<close>

record 'r core_registry =
  getDefinition :: "'r \<Rightarrow> string \<Rightarrow> definition_info option"
  registerInstance :: "string \<Rightarrow> string \<Rightarrow> string \<Rightarrow> fields \<Rightarrow> fields \<Rightarrow> 'r \<Rightarrow> string + 'r"
  disposeInstance :: "string \<Rightarrow> 'r \<Rightarrow> string option \<times> 'r"

text \<open>What its documentation says: a registration is recorded as given, under its id only, and
  disposal touches its id only.\<close>

definition registry_laws :: "'r core_registry \<Rightarrow> bool" where
  "registry_laws ops =
     ((\<forall>i t v cc ex r r'. registerInstance ops i t v cc ex r = Inr r' \<longrightarrow>
         (\<exists>rt. getDefinition ops r' i =
            Some \<lparr> df_connectorType = t, df_connectorVersion = v, df_connectorConfig = cc, df_runtime = rt \<rparr>) \<and>
         (\<forall>j. j \<noteq> i \<longrightarrow> getDefinition ops r' j = getDefinition ops r j)) \<and>
      (\<forall>i r j. j \<noteq> i \<longrightarrow> getDefinition ops (snd (disposeInstance ops i r)) j = getDefinition ops r j))"

section \<open>State\<close>

datatype register_cause =
    CoreRefused string
  | NotRecorded
  | SchedulingRefused scheduling_error

datatype registration_error =
    ConfigUnreadable string string
  | NoConfiguration string
  | LeasesOutstanding string int int
  | RegistrationFailed string register_cause
  | DisposeThrew string string

record registered_app =
  ra_applicationId :: string
  ra_version :: string
  ra_scheduling :: scheduling_config
  ra_schedulingInput :: fields

datatype resolve_phase =
    Fetching
  | Draining versioned_config int
  | Disposing versioned_config
  | Registering versioned_config

record 'r registrar =
  rg_registered :: "string \<rightharpoonup> registered_app"
  rg_inFlight :: "string \<rightharpoonup> resolve_phase"
  rg_registry :: 'r

definition new_registrar :: "'r \<Rightarrow> 'r registrar" where
  "new_registrar r = \<lparr> rg_registered = Map.empty, rg_inFlight = Map.empty, rg_registry = r \<rparr>"

record registrar_opts =
  ro_manager :: bool
  ro_drainTimeoutMs :: int
  ro_drainPollMs :: int

definition registrar_options :: "bool \<Rightarrow> int option \<Rightarrow> int option \<Rightarrow> registrar_opts" where
  "registrar_options manager timeout poll =
     \<lparr> ro_manager = manager,
       ro_drainTimeoutMs = (case timeout of None \<Rightarrow> 30000 | Some n \<Rightarrow> n),
       ro_drainPollMs = (case poll of None \<Rightarrow> 50 | Some n \<Rightarrow> n) \<rparr>"

section \<open>Operations\<close>

definition registrar_schedulingOf :: "'r registrar \<Rightarrow> string \<Rightarrow> jsval" where
  "registrar_schedulingOf st i = map_option (\<lambda>a. JObj (ra_schedulingInput a)) (rg_registered st i)"

definition register_app ::
  "'r core_registry \<Rightarrow> app_config \<Rightarrow> string \<Rightarrow> 'r \<Rightarrow> (registration_error + registered_app) \<times> 'r" where
  "register_app ops config version r =
     (let sp = splitRuntimeBlock (ac_runtime config); i = ac_applicationId config
      in case registerInstance ops i (ac_connectorType config) (ac_connectorVersion config)
                (ac_connectorConfig config) (sp_execution sp) r of
           Inl msg \<Rightarrow> (Inl (RegistrationFailed i (CoreRefused msg)), r)
         | Inr r' \<Rightarrow>
             (case getDefinition ops r' i of
                None \<Rightarrow> (Inl (RegistrationFailed i NotRecorded), r')
              | Some d \<Rightarrow>
                  (case resolveSchedulingConfig (Some (JObj (sp_scheduling sp)))
                          (mutationConcurrency (df_runtime d)) of
                     Inl e \<Rightarrow> (Inl (RegistrationFailed i (SchedulingRefused e)), r')
                   | Inr sc \<Rightarrow>
                       (Inr \<lparr> ra_applicationId = i, ra_version = version, ra_scheduling = sc,
                              ra_schedulingInput = sp_scheduling sp \<rparr>, r'))))"

text \<open>A step of a resolution leaves it in flight or settles it.\<close>

datatype progress = Going resolve_phase | Settled "registration_error + registered_app"

definition advance :: "string \<Rightarrow> progress \<Rightarrow> 'r registrar \<Rightarrow> 'r registrar" where
  "advance i p st =
     st\<lparr>rg_inFlight := (rg_inFlight st)(i := (case p of Going ph \<Rightarrow> Some ph | Settled _ \<Rightarrow> None))\<rparr>"

text \<open>The end of \<open>resolve\<close>: register, and remember what was registered.\<close>

definition finish_resolve ::
  "'r core_registry \<Rightarrow> string \<Rightarrow> versioned_config \<Rightarrow> 'r registrar \<Rightarrow> progress \<times> 'r registrar" where
  "finish_resolve ops i entry st =
     (case register_app ops (vc_config entry) (vc_version entry) (rg_registry st) of
        (Inl e, r') \<Rightarrow> (Settled (Inl e), st\<lparr>rg_registry := r'\<rparr>)
      | (Inr app, r') \<Rightarrow>
          (Settled (Inr app), st\<lparr>rg_registry := r', rg_registered := (rg_registered st)(i \<mapsto> app)\<rparr>))"

text \<open>One pass of the drain loop's condition and guard.\<close>

definition drain_check :: "registrar_opts \<Rightarrow> string \<Rightarrow> versioned_config \<Rightarrow> int \<Rightarrow> int \<Rightarrow> int \<Rightarrow> progress" where
  "drain_check opts i entry deadline now refs =
     (if 0 < refs
      then if deadline \<le> now then Settled (Inl (LeasesOutstanding i refs (ro_drainTimeoutMs opts)))
           else Going (Draining entry deadline)
      else Going (Disposing entry))"

definition drain_start :: "registrar_opts \<Rightarrow> string \<Rightarrow> versioned_config \<Rightarrow> int \<Rightarrow> int \<Rightarrow> progress" where
  "drain_start opts i entry now refs =
     (if \<not> ro_manager opts then Going (Disposing entry)
      else drain_check opts i entry (now + ro_drainTimeoutMs opts) now refs)"

definition on_reply ::
  "'r core_registry \<Rightarrow> registrar_opts \<Rightarrow> string \<Rightarrow> string + versioned_config option \<Rightarrow> int \<Rightarrow> int
     \<Rightarrow> 'r registrar \<Rightarrow> progress \<times> 'r registrar" where
  "on_reply ops opts i reply now refs st =
     (case reply of
        Inl e \<Rightarrow> (Settled (Inl (ConfigUnreadable i e)), st)
      | Inr None \<Rightarrow> (Settled (Inl (NoConfiguration i)), st)
      | Inr (Some entry) \<Rightarrow>
          (case (case rg_registered st i of
                   None \<Rightarrow> None
                 | Some current \<Rightarrow> if ra_version current = vc_version entry then Some current else None) of
             Some current \<Rightarrow> (Settled (Inr current), st)
           | None \<Rightarrow>
               if getDefinition ops (rg_registry st) i \<noteq> None
               then (drain_start opts i entry now refs, st)
               else finish_resolve ops i entry st))"

definition on_dispose ::
  "'r core_registry \<Rightarrow> string \<Rightarrow> versioned_config \<Rightarrow> 'r registrar \<Rightarrow> progress \<times> 'r registrar" where
  "on_dispose ops i entry st =
     (case disposeInstance ops i (rg_registry st) of
        (Some msg, r') \<Rightarrow> (Settled (Inl (DisposeThrew i msg)), st\<lparr>rg_registry := r'\<rparr>)
      | (None, r') \<Rightarrow> (Going (Registering entry), st\<lparr>rg_registry := r'\<rparr>))"

section \<open>Steps\<close>

text \<open>What happens at the registrar: a call of \<open>ensure\<close>, and the four continuations of a resolution. A
  continuation that reads a lease count carries the manager's counters at that moment.\<close>

datatype reg_event =
    Ensure string
  | Reply string "string + versioned_config option" int "string \<Rightarrow> int"
  | Poll string int "string \<Rightarrow> int"
  | Dispose string
  | Register string

fun event_id :: "reg_event \<Rightarrow> string" where
  "event_id (Ensure i) = i"
| "event_id (Reply i _ _ _) = i"
| "event_id (Poll i _ _) = i"
| "event_id (Dispose i) = i"
| "event_id (Register i) = i"

text \<open>The continuation of the resolution in flight, where the event is the one it waits for.\<close>

fun continue_with ::
  "'r core_registry \<Rightarrow> registrar_opts \<Rightarrow> reg_event \<Rightarrow> resolve_phase \<Rightarrow> 'r registrar
     \<Rightarrow> (progress \<times> 'r registrar) option" where
  "continue_with ops opts (Reply i reply now leases) Fetching st =
     Some (on_reply ops opts i reply now (leases i) st)"
| "continue_with ops opts (Poll i now leases) (Draining entry deadline) st =
     Some (drain_check opts i entry deadline now (leases i), st)"
| "continue_with ops opts (Dispose i) (Disposing entry) st = Some (on_dispose ops i entry st)"
| "continue_with ops opts (Register i) (Registering entry) st = Some (finish_resolve ops i entry st)"
| "continue_with ops opts _ _ st = None"

text \<open>\<open>ensure\<close>: a caller joins the resolution in flight or starts one.\<close>

definition ensure_call :: "string \<Rightarrow> 'r registrar \<Rightarrow> progress \<times> 'r registrar" where
  "ensure_call i st =
     (case rg_inFlight st i of
        Some ph \<Rightarrow> (Going ph, st)
      | None \<Rightarrow> (Going Fetching, st\<lparr>rg_inFlight := (rg_inFlight st)(i \<mapsto> Fetching)\<rparr>))"

definition registrar_step ::
  "'r core_registry \<Rightarrow> registrar_opts \<Rightarrow> reg_event \<Rightarrow> 'r registrar \<Rightarrow> (progress \<times> 'r registrar) option" where
  "registrar_step ops opts ev st =
     (case ev of
        Ensure i \<Rightarrow> Some (ensure_call i st)
      | _ \<Rightarrow>
          (case rg_inFlight st (event_id ev) of
             None \<Rightarrow> None
           | Some ph \<Rightarrow>
               (case continue_with ops opts ev ph st of
                  None \<Rightarrow> None
                | Some (p, st') \<Rightarrow> Some (p, advance (event_id ev) p st'))))"

fun run_registrar ::
  "'r core_registry \<Rightarrow> registrar_opts \<Rightarrow> reg_event list \<Rightarrow> 'r registrar
     \<Rightarrow> (progress list \<times> 'r registrar) option" where
  "run_registrar ops opts [] st = Some ([], st)"
| "run_registrar ops opts (ev # evs) st =
     (case registrar_step ops opts ev st of
        None \<Rightarrow> None
      | Some (p, st') \<Rightarrow>
          (case run_registrar ops opts evs st' of
             None \<Rightarrow> None
           | Some (ps, st'') \<Rightarrow> Some (p # ps, st'')))"

text \<open>A reply is one a configuration store can give.\<close>

definition good_event :: "reg_event \<Rightarrow> bool" where
  "good_event ev = (case ev of Reply i reply _ _ \<Rightarrow> good_reply i reply | _ \<Rightarrow> True)"

inductive reg_reachable :: "'r core_registry \<Rightarrow> registrar_opts \<Rightarrow> 'r \<Rightarrow> 'r registrar \<Rightarrow> bool"
  for ops opts r0 where
  initial: "reg_reachable ops opts r0 (new_registrar r0)"
| step: "reg_reachable ops opts r0 st'" if "reg_reachable ops opts r0 st" "good_event ev"
    "registrar_step ops opts ev st = Some (p, st')"

lemma run_reachable:
  "run_registrar ops opts evs st = Some (ps, st') \<Longrightarrow> list_all good_event evs \<Longrightarrow>
   reg_reachable ops opts r0 st \<Longrightarrow> reg_reachable ops opts r0 st'"
  by (induction evs arbitrary: st ps) (auto split: option.splits prod.splits intro: reg_reachable.step)

text \<open>The replies of any store that keeps the contract are such events.\<close>

context config_store
begin

lemma reply_good: "good_event (Reply i (map_sum f id (get i)) now refs)"
  using good [of i] by (cases "get i") (auto simp: good_event_def good_reply_def)

end

lemma file_store_replies_good:
  "good_event (Reply i (map_sum f id (file_store_get env dir i)) now refs)"
  by (rule file_store.reply_good)

section \<open>What is registered can be scheduled\<close>

definition app_ok :: "string \<Rightarrow> registered_app \<Rightarrow> bool" where
  "app_ok i a =
     (ra_applicationId a = i \<and>
      (\<exists>m. resolveSchedulingConfig (Some (JObj (ra_schedulingInput a))) m = Inr (ra_scheduling a)))"

fun phase_entry :: "resolve_phase \<Rightarrow> versioned_config option" where
  "phase_entry Fetching = None"
| "phase_entry (Draining e d) = Some e"
| "phase_entry (Disposing e) = Some e"
| "phase_entry (Registering e) = Some e"

definition phase_ok :: "string \<Rightarrow> resolve_phase \<Rightarrow> bool" where
  "phase_ok i ph = (\<forall>e. phase_entry ph = Some e \<longrightarrow> ac_applicationId (vc_config e) = i)"

definition registrar_ok :: "'r registrar \<Rightarrow> bool" where
  "registrar_ok st =
     ((\<forall>i a. rg_registered st i = Some a \<longrightarrow> app_ok i a) \<and>
      (\<forall>i ph. rg_inFlight st i = Some ph \<longrightarrow> phase_ok i ph))"

lemma register_app_Inr:
  assumes "register_app ops config v r = (Inr a, r')"
  shows "app_ok (ac_applicationId config) a \<and> ra_version a = v \<and>
    ra_schedulingInput a = sp_scheduling (splitRuntimeBlock (ac_runtime config)) \<and>
    registerInstance ops (ac_applicationId config) (ac_connectorType config) (ac_connectorVersion config)
      (ac_connectorConfig config) (sp_execution (splitRuntimeBlock (ac_runtime config))) r = Inr r'"
  using assms
  by (auto simp: register_app_def Let_def app_ok_def split: sum.splits option.splits)

text \<open>What a registration that went through read and wrote: each half of the runtime block has its place.\<close>

lemma register_app_records:
  assumes "registry_laws ops" "register_app ops config v r = (Inr a, r')"
  shows "\<exists>rt. getDefinition ops r' (ac_applicationId config) = Some
      \<lparr> df_connectorType = ac_connectorType config, df_connectorVersion = ac_connectorVersion config,
        df_connectorConfig = ac_connectorConfig config, df_runtime = rt \<rparr> \<and>
    resolveSchedulingConfig (Some (JObj (sp_scheduling (splitRuntimeBlock (ac_runtime config)))))
      (mutationConcurrency rt) = Inr (ra_scheduling a)"
proof -
  obtain d where d: "getDefinition ops r' (ac_applicationId config) = Some d"
    "resolveSchedulingConfig (Some (JObj (sp_scheduling (splitRuntimeBlock (ac_runtime config)))))
      (mutationConcurrency (df_runtime d)) = Inr (ra_scheduling a)"
    using assms(2) by (auto simp: register_app_def Let_def split: sum.splits option.splits)
  moreover obtain rt where "getDefinition ops r' (ac_applicationId config) = Some
      \<lparr> df_connectorType = ac_connectorType config, df_connectorVersion = ac_connectorVersion config,
        df_connectorConfig = ac_connectorConfig config, df_runtime = rt \<rparr>"
    using register_app_Inr [OF assms(2)] assms(1) unfolding registry_laws_def by blast
  ultimately show ?thesis by auto
qed

lemma register_app_others:
  assumes "registry_laws ops" "register_app ops config v r = (x, r')" "j \<noteq> ac_applicationId config"
  shows "getDefinition ops r' j = getDefinition ops r j"
  using assms unfolding registry_laws_def
  by (auto simp: register_app_def Let_def split: sum.splits option.splits)

lemma finish_resolve_ok:
  assumes "registrar_ok st" "ac_applicationId (vc_config e) = i" "finish_resolve ops i e st = (p, st')"
  shows "registrar_ok st' \<and> (\<forall>ph. p \<noteq> Going ph)"
  using assms register_app_Inr [of ops "vc_config e" "vc_version e" "rg_registry st"]
  by (auto simp: finish_resolve_def registrar_ok_def split: prod.splits sum.splits if_splits)

definition progress_ok :: "string \<Rightarrow> progress \<Rightarrow> bool" where
  "progress_ok i p = (\<forall>ph. p = Going ph \<longrightarrow> phase_ok i ph)"

lemma drain_ok:
  "ac_applicationId (vc_config e) = i \<Longrightarrow> progress_ok i (drain_check opts i e d now refs)"
  "ac_applicationId (vc_config e) = i \<Longrightarrow> progress_ok i (drain_start opts i e now refs)"
  by (auto simp: drain_start_def drain_check_def progress_ok_def phase_ok_def)

lemma on_reply_ok:
  assumes "registrar_ok st" "good_reply i reply" "on_reply ops opts i reply now refs st = (p, st')"
  shows "registrar_ok st' \<and> progress_ok i p"
proof (cases reply)
  case (Inr r)
  then show ?thesis
  proof (cases r)
    case (Some e)
    then have i: "ac_applicationId (vc_config e) = i" using assms(2) Inr by (simp add: good_reply_def)
    show ?thesis
      using assms(1,3) Inr Some drain_ok(2) [OF i] finish_resolve_ok [OF assms(1) i, of ops]
      by (auto simp: on_reply_def progress_ok_def split: option.splits if_splits)
  qed (use assms Inr in \<open>auto simp: on_reply_def progress_ok_def\<close>)
qed (use assms in \<open>auto simp: on_reply_def progress_ok_def\<close>)

lemma continue_ok:
  assumes "registrar_ok st" "rg_inFlight st (event_id ev) = Some ph" "good_event ev"
    "continue_with ops opts ev ph st = Some (p, st')"
  shows "registrar_ok st' \<and> progress_ok (event_id ev) p"
proof -
  have ph: "phase_ok (event_id ev) ph" using assms(1,2) by (simp add: registrar_ok_def)
  consider
      (reply) i reply now refs where "ev = Reply i reply now refs" "ph = Fetching"
    | (poll) i now refs e d where "ev = Poll i now refs" "ph = Draining e d"
    | (dispose) i e where "ev = Dispose i" "ph = Disposing e"
    | (register) i e where "ev = Register i" "ph = Registering e"
    using assms(4) by (cases ev; cases ph) auto
  then show ?thesis
  proof cases
    case reply
    then have "good_reply i reply" "on_reply ops opts i reply now (refs i) st = (p, st')"
      using assms(3,4) by (simp_all add: good_event_def)
    then show ?thesis using on_reply_ok [OF assms(1)] reply by simp
  next
    case poll
    then show ?thesis using assms(1,4) ph drain_ok(1) by (auto simp: phase_ok_def)
  next
    case dispose
    then show ?thesis using assms(1,4) ph
      by (auto simp: on_dispose_def phase_ok_def progress_ok_def registrar_ok_def split: prod.splits option.splits)
  next
    case register
    then have "ac_applicationId (vc_config e) = i" "finish_resolve ops i e st = (p, st')"
      using ph assms(4) by (simp_all add: phase_ok_def)
    then show ?thesis using finish_resolve_ok [OF assms(1)] by (auto simp: progress_ok_def)
  qed
qed

lemma advance_ok: "registrar_ok st \<Longrightarrow> progress_ok i p \<Longrightarrow> registrar_ok (advance i p st)"
  by (auto simp: registrar_ok_def advance_def progress_ok_def split: progress.splits)

lemma ensure_ok: "registrar_ok st \<Longrightarrow> registrar_ok (snd (ensure_call i st))"
  by (auto simp: ensure_call_def registrar_ok_def phase_ok_def split: option.splits)

lemma registrar_step_ok:
  assumes "registrar_ok st" "good_event ev" "registrar_step ops opts ev st = Some (p, st')"
  shows "registrar_ok st'"
proof (cases "\<exists>i. ev = Ensure i")
  case True
  then obtain i where "ensure_call i st = (p, st')" using assms(3) by (auto simp: registrar_step_def)
  then show ?thesis using ensure_ok [OF assms(1), of i] by (metis snd_conv)
next
  case False
  then obtain ph st1 where "rg_inFlight st (event_id ev) = Some ph"
    "continue_with ops opts ev ph st = Some (p, st1)" "st' = advance (event_id ev) p st1"
    using assms(3) by (cases ev) (auto simp: registrar_step_def split: option.splits prod.splits)
  then show ?thesis using continue_ok [OF assms(1) _ assms(2)] advance_ok by blast
qed

lemma reachable_registrar_ok: "reg_reachable ops opts r0 st \<Longrightarrow> registrar_ok st"
proof (induction rule: reg_reachable.induct)
  case initial
  show ?case by (simp add: registrar_ok_def new_registrar_def)
next
  case (step st ev p st')
  then show ?case by (blast intro: registrar_step_ok)
qed

section \<open>The claim loop and the registrar\<close>

lemma resolve_any_budget:
  assumes "resolveSchedulingConfig input m = Inr c"
  shows "\<exists>c'. resolveSchedulingConfig input m' = Inr c'"
proof -
  from assms obtain f ls where "input = None \<or> isPlainObject input"
    "\<forall>k\<in>set (map fst (obj_fields input)). k \<in> set SCHEDULING_KEYS"
    "parseSliceFraction (obj_get (obj_fields input) ''interactiveSliceFraction'') = Inr f"
    "parseRateLimits (obj_get (obj_fields input) ''rateLimits'') = Inr ls"
    by (rule resolveSchedulingConfigE)
  moreover from this(2) have "List.find (\<lambda>k. k \<notin> set SCHEDULING_KEYS) (map fst (obj_fields input)) = None"
    by (simp add: find_None)
  ultimately show ?thesis by (auto simp: resolveSchedulingConfig_def Let_def)
qed

lemma scheduling_resolves:
  assumes "registrar_ok st"
  shows "\<exists>c. resolveSchedulingConfig (registrar_schedulingOf st i) m = Inr c"
proof (cases "rg_registered st i")
  case None
  then show ?thesis by (simp add: registrar_schedulingOf_def resolve_default)
next
  case (Some a)
  then obtain m' where "resolveSchedulingConfig (Some (JObj (ra_schedulingInput a))) m' = Inr (ra_scheduling a)"
    using assms unfolding registrar_ok_def app_ok_def by blast
  then show ?thesis using Some resolve_any_budget by (simp add: registrar_schedulingOf_def)
qed

text \<open>C26: The registrar never breaks a claim cycle: in every state the registrar reaches, whatever the
  documents were and whichever registrations failed on the way, the dispatcher's configuration lookup
  with the registrar's scheduling as its source succeeds for every instance, so a cycle never fails on
  an invalid scheduling block.\<close>

theorem registrar_feeds_dispatcher:
  assumes "reg_reachable ops opts r0 st" "schedulingOf env = registrar_schedulingOf st"
  shows "fst (configOf env i cache) \<noteq> Inl e"
proof -
  have "\<exists>c. resolveSchedulingConfig (schedulingOf env i) m = Inr c" for m
    using scheduling_resolves [OF reachable_registrar_ok [OF assms(1)]] assms(2) by simp
  then show ?thesis by (auto simp: configOf_def Let_def split: option.split sum.split) (metis sum.distinct(1))
qed

section \<open>A concrete registry\<close>

definition example_registry :: "(string \<times> definition_info) list core_registry" where
  "example_registry =
     \<lparr> getDefinition = map_of,
       registerInstance = (\<lambda>i t v cc ex r.
         if map_of r i \<noteq> None then Inl (''instance '' @ i @ '' is already registered'')
         else Inr ((i, \<lparr> df_connectorType = t, df_connectorVersion = v, df_connectorConfig = cc,
                        df_runtime = \<lparr> attemptDeadlineMs = (\<lambda>_. 30000), mutationConcurrency = 1 \<rparr> \<rparr>) # r)),
       disposeInstance = (\<lambda>i r. (None, filter (\<lambda>p. fst p \<noteq> i) r)) \<rparr>"

lemma map_of_filter_other: "j \<noteq> i \<Longrightarrow> map_of (filter (\<lambda>p. fst p \<noteq> i) r) j = map_of r j"
  by (induction r) auto

lemma example_registry_laws: "registry_laws example_registry"
  by (auto simp: registry_laws_def example_registry_def map_of_filter_other split: if_splits)

definition doc_v1 :: versioned_config where
  "doc_v1 =
     \<lparr> vc_config =
         \<lparr> ac_applicationId = ''ad'', ac_connectorType = ''ldap'', ac_connectorVersion = ''1'',
           ac_connectorConfig = [(''url'', JStr ''old'')], ac_runtime = None \<rparr>,
       vc_version = ''v1'' \<rparr>"

definition doc_v2 :: versioned_config where
  "doc_v2 =
     \<lparr> vc_config =
         \<lparr> ac_applicationId = ''ad'', ac_connectorType = ''ldap'', ac_connectorVersion = ''1'',
           ac_connectorConfig = [(''url'', JStr ''new'')],
           ac_runtime = Some [(''interactiveSliceFraction'', JNum (Fin 7))] \<rparr>,
       vc_version = ''v2'' \<rparr>"

definition wired_options :: registrar_opts where
  "wired_options = registrar_options True (Some 30000) None"

definition first_registration :: "reg_event list" where
  "first_registration = [Ensure ''ad'', Reply ''ad'' (Inr (Some doc_v1)) 0 (\<lambda>_. 0)]"

lemma good_docs: "good_reply ''ad'' (Inr (Some doc_v1) :: string + versioned_config option)"
  "good_reply ''ad'' (Inr (Some doc_v2) :: string + versioned_config option)"
  by (simp_all add: good_reply_def doc_v1_def doc_v2_def)

definition after_first :: "(string \<times> definition_info) list registrar" where
  "after_first = snd (the (run_registrar example_registry wired_options first_registration (new_registrar [])))"

lemma after_first_reached: "reg_reachable example_registry wired_options [] after_first"
proof -
  have "run_registrar example_registry wired_options first_registration (new_registrar []) \<noteq> None"
    by code_simp
  then obtain ps where "run_registrar example_registry wired_options first_registration (new_registrar []) =
      Some (ps, after_first)" by (auto simp: after_first_def)
  then show ?thesis
    by (rule run_reachable) (simp_all add: first_registration_def good_event_def good_docs reg_reachable.initial)
qed

definition registrar_env :: "unit disp_env" where
  "registrar_env =
     \<lparr> registeredIds = [''ad''],
       runtimeOf = (\<lambda>i. map_option df_runtime (getDefinition example_registry (rg_registry after_first) i)),
       capabilitiesOf = (\<lambda>_. \<lparr> equalitySearchOnName = True, idempotentDelta = True \<rparr>),
       schedulingOf = registrar_schedulingOf after_first,
       newLimiter = (\<lambda>_ _. ()), tryConsume = (\<lambda>_ _. (True, ())), failureText = (\<lambda>_. ''failed'') \<rparr>"

theorem registrar_feeds_dispatcher_witness:
  "runtimeOf registrar_env ''ad'' \<noteq> None \<and>
   fst (configOf registrar_env ''ad'' Map.empty) \<noteq> Inl (UnknownSetting ''x'')"
proof -
  have "schedulingOf registrar_env = registrar_schedulingOf after_first" by (simp add: registrar_env_def)
  note feeds = registrar_feeds_dispatcher [OF after_first_reached this]
  have "runtimeOf registrar_env ''ad'' \<noteq> None" unfolding registrar_env_def by code_simp
  then show ?thesis using feeds by blast
qed

section \<open>What a registration leaves\<close>

definition records_document ::
  "'r core_registry \<Rightarrow> versioned_config \<Rightarrow> registered_app \<Rightarrow> 'r registrar \<Rightarrow> 'r registrar \<Rightarrow> bool" where
  "records_document ops e a st st' =
     (let config = vc_config e; i = ac_applicationId config; sp = splitRuntimeBlock (ac_runtime config)
      in registerInstance ops i (ac_connectorType config) (ac_connectorVersion config) (ac_connectorConfig config)
           (sp_execution sp) (rg_registry st) = Inr (rg_registry st') \<and>
         (\<exists>rt. getDefinition ops (rg_registry st') i = Some
              \<lparr> df_connectorType = ac_connectorType config, df_connectorVersion = ac_connectorVersion config,
                df_connectorConfig = ac_connectorConfig config, df_runtime = rt \<rparr> \<and>
            resolveSchedulingConfig (Some (JObj (sp_scheduling sp))) (mutationConcurrency rt) = Inr (ra_scheduling a)) \<and>
         a = \<lparr> ra_applicationId = i, ra_version = vc_version e, ra_scheduling = ra_scheduling a,
               ra_schedulingInput = sp_scheduling sp \<rparr> \<and>
         rg_registered st' = (rg_registered st)(i \<mapsto> a))"

lemma finish_records:
  assumes "registry_laws ops" "ac_applicationId (vc_config e) = i" "finish_resolve ops i e st = (Settled (Inr a), st1)"
  shows "records_document ops e a st st1 \<and>
    (\<forall>j. j \<noteq> i \<longrightarrow> getDefinition ops (rg_registry st1) j = getDefinition ops (rg_registry st) j)"
proof -
  obtain r' where reg: "register_app ops (vc_config e) (vc_version e) (rg_registry st) = (Inr a, r')"
    and st1: "st1 = st\<lparr>rg_registry := r', rg_registered := (rg_registered st)(i \<mapsto> a)\<rparr>"
    using assms(3) by (auto simp: finish_resolve_def split: prod.splits sum.splits)
  note a = register_app_Inr [OF reg]
  from register_app_records [OF assms(1) reg] obtain rt where
    "getDefinition ops r' (ac_applicationId (vc_config e)) = Some
      \<lparr> df_connectorType = ac_connectorType (vc_config e), df_connectorVersion = ac_connectorVersion (vc_config e),
        df_connectorConfig = ac_connectorConfig (vc_config e), df_runtime = rt \<rparr>"
    "resolveSchedulingConfig (Some (JObj (sp_scheduling (splitRuntimeBlock (ac_runtime (vc_config e))))))
      (mutationConcurrency rt) = Inr (ra_scheduling a)" by blast
  with a assms(2) register_app_others [OF assms(1) reg] show ?thesis
    by (simp add: records_document_def Let_def st1 app_ok_def)
qed

text \<open>C28: A registration that settles records exactly the document that was read, the first one of an
  application as well as a replacement: it was answered from the registrar's own record of the same
  version, with nothing changed, or the registry was given the document's type, version, connector
  configuration and execution settings under the application's id and holds them, the scheduling
  settings are those of the document, resolved for the budget the registry answers, and the registrar
  remembers them with the version. Every other instance is as before, and the next lookup of the same
  version answers the same registration without touching the registry.\<close>

theorem registration_records_document:
  assumes laws: "registry_laws ops" and st: "reg_reachable ops opts r0 st" and good: "good_event ev"
    and doc: "ev = Register i \<and> rg_inFlight st i = Some (Registering e) \<or> ev = Reply i (Inr (Some e)) now leases"
    and step: "registrar_step ops opts ev st = Some (Settled (Inr a), st')"
  shows "(records_document ops e a st st' \<or>
      ev \<noteq> Register i \<and> rg_registered st i = Some a \<and>
      rg_registry st' = rg_registry st \<and> rg_registered st' = rg_registered st) \<and>
    (\<forall>j. j \<noteq> i \<longrightarrow> getDefinition ops (rg_registry st') j = getDefinition ops (rg_registry st) j) \<and>
    rg_registered st' i = Some a \<and> ra_applicationId a = i \<and> ra_version a = vc_version e \<and>
    rg_inFlight st' i = None \<and>
    (\<forall>e'. vc_version e' = vc_version e \<longrightarrow>
       on_reply ops opts i (Inr (Some e')) now' refs st' = (Settled (Inr a), st'))"
proof -
  note ok = reachable_registrar_ok [OF st]
  have i: "ac_applicationId (vc_config e) = i"
    using doc ok good by (auto simp: registrar_ok_def phase_ok_def good_event_def good_reply_def)
  obtain st1 where st': "st' = advance i (Settled (Inr a)) st1"
    and or: "finish_resolve ops i e st = (Settled (Inr a), st1) \<or>
      ev \<noteq> Register i \<and> rg_registered st i = Some a \<and> ra_version a = vc_version e \<and> st1 = st"
    using doc
  proof
    assume "ev = Register i \<and> rg_inFlight st i = Some (Registering e)"
    then show ?thesis using step that by (auto simp: registrar_step_def split: prod.splits)
  next
    assume ev: "ev = Reply i (Inr (Some e)) now leases"
    then obtain ph st1 where 1: "rg_inFlight st i = Some ph"
      "continue_with ops opts ev ph st = Some (Settled (Inr a), st1)" "st' = advance i (Settled (Inr a)) st1"
      using step by (auto simp: registrar_step_def split: option.splits prod.splits)
    then have "on_reply ops opts i (Inr (Some e)) now (leases i) st = (Settled (Inr a), st1)"
      using ev by (cases ph) simp_all
    then show ?thesis using 1(3) that ev
      by (auto simp: on_reply_def drain_start_def drain_check_def split: option.splits if_splits)
  qed
  have same: "rg_registry st' = rg_registry st1" "rg_registered st' = rg_registered st1" "rg_inFlight st' i = None"
    by (simp_all add: st' advance_def)
  from or show ?thesis
  proof
    assume "finish_resolve ops i e st = (Settled (Inr a), st1)"
    from finish_records [OF laws i this]
    have r: "records_document ops e a st st1"
      "\<forall>j. j \<noteq> i \<longrightarrow> getDefinition ops (rg_registry st1) j = getDefinition ops (rg_registry st) j" by simp_all
    from r(1) have a: "rg_registered st1 i = Some a" "ra_applicationId a = i" "ra_version a = vc_version e"
      using i by (auto simp: records_document_def Let_def) (metis registered_app.select_convs)+
    have "records_document ops e a st st'" using r(1) by (simp add: records_document_def same)
    with r(2) a show ?thesis by (simp add: same on_reply_def)
  next
    assume c: "ev \<noteq> Register i \<and> rg_registered st i = Some a \<and> ra_version a = vc_version e \<and> st1 = st"
    then have "ra_applicationId a = i" using ok by (auto simp: registrar_ok_def app_ok_def)
    with c show ?thesis by (simp add: same on_reply_def)
  qed
qed

definition doc_v3 :: versioned_config where
  "doc_v3 = doc_v2\<lparr>vc_config := (vc_config doc_v2)\<lparr>ac_runtime := None\<rparr>, vc_version := ''v3''\<rparr>"

definition second_registration :: "reg_event list" where
  "second_registration = [Ensure ''ad'', Reply ''ad'' (Inr (Some doc_v3)) 5 (\<lambda>_. 0), Dispose ''ad'']"

definition before_second :: "(string \<times> definition_info) list registrar" where
  "before_second = snd (the (run_registrar example_registry wired_options second_registration after_first))"

lemma before_second_reached: "reg_reachable example_registry wired_options [] before_second"
proof -
  have "run_registrar example_registry wired_options second_registration after_first \<noteq> None"
    by code_simp
  then obtain ps where "run_registrar example_registry wired_options second_registration after_first =
      Some (ps, before_second)" by (auto simp: before_second_def)
  then show ?thesis
    by (rule run_reachable)
      (simp_all add: second_registration_def good_event_def good_reply_def doc_v3_def doc_v2_def after_first_reached)
qed

definition fetching_first :: "(string \<times> definition_info) list registrar" where
  "fetching_first = snd (ensure_call ''ad'' (new_registrar []))"

lemma fetching_first_reached: "reg_reachable example_registry wired_options [] fetching_first"
proof (rule reg_reachable.step [OF reg_reachable.initial])
  show "registrar_step example_registry wired_options (Ensure ''ad'') (new_registrar []) =
      Some (fst (ensure_call ''ad'' (new_registrar [] :: (string \<times> definition_info) list registrar)), fetching_first)"
    by (simp add: registrar_step_def fetching_first_def prod_eq_iff)
qed (simp add: good_event_def)

theorem registration_records_document_witness:
  "\<exists>a st'. records_document example_registry doc_v3 a before_second st' \<and> ra_version a = ''v3'' \<and>
     (\<exists>b st''. registrar_step example_registry wired_options (Reply ''ad'' (Inr (Some doc_v1)) 0 (\<lambda>_. 0)) fetching_first =
        Some (Settled (Inr b), st'') \<and> rg_registered st'' ''ad'' = Some b \<and> ra_version b = ''v1'')"
proof -
  have ph: "rg_inFlight before_second ''ad'' = Some (Registering doc_v3)" by code_simp
  have "(case registrar_step example_registry wired_options (Register ''ad'') before_second of
      Some (Settled (Inr a), st') \<Rightarrow> True | _ \<Rightarrow> False)" by code_simp
  then obtain a st' where step: "registrar_step example_registry wired_options (Register ''ad'') before_second =
      Some (Settled (Inr a), st')" by (auto split: option.splits progress.splits sum.splits) (metis sum.exhaust)
  have g: "good_event (Register ''ad'')" by (simp add: good_event_def)
  have 1: "records_document example_registry doc_v3 a before_second st' \<and> ra_version a = vc_version doc_v3"
    using registration_records_document [OF example_registry_laws before_second_reached g _ step, of "''ad''" doc_v3] ph
    by blast
  let ?ev = "Reply ''ad'' (Inr (Some doc_v1)) 0 (\<lambda>_. 0)"
  have "(case registrar_step example_registry wired_options ?ev fetching_first of
      Some (Settled (Inr a), st') \<Rightarrow> True | _ \<Rightarrow> False)" by code_simp
  then obtain b st'' where step2: "registrar_step example_registry wired_options ?ev fetching_first =
      Some (Settled (Inr b), st'')" by (auto split: option.splits progress.splits sum.splits) (metis sum.exhaust)
  have g2: "good_event ?ev" using good_docs by (simp add: good_event_def)
  have "rg_registered st'' ''ad'' = Some b \<and> ra_version b = vc_version doc_v1"
    using registration_records_document [OF example_registry_laws fetching_first_reached g2 _ step2, of "''ad''" doc_v1]
    by blast
  with 1 step2 show ?thesis by (auto simp: doc_v3_def doc_v1_def)
qed

section \<open>Replacement waits for the leases\<close>

lemma finish_resolve_others:
  assumes "registry_laws ops" "ac_applicationId (vc_config e) = i" "finish_resolve ops i e st = (p, st1)" "j \<noteq> i"
  shows "getDefinition ops (rg_registry st1) j = getDefinition ops (rg_registry st) j"
  using register_app_others [OF assms(1), of "vc_config e" "vc_version e" "rg_registry st"] assms(2-4)
  by (auto simp: finish_resolve_def split: prod.splits sum.splits)

text \<open>C27: With a lease counter, an instance is replaced only after its own leases were seen released, and
  only by its own resolution: a resolution comes to its disposal only by reading that its instance has
  no lease, and to the registration after it only by a disposal of that instance; the registry changes
  only in these two and in the first registration of an id that has no definition; and no step of a
  resolution changes the definition of another instance.\<close>

theorem replacement_waits_for_leases:
  assumes laws: "registry_laws ops" and st: "reg_reachable ops opts r0 st" and good: "good_event ev"
    and mgr: "ro_manager opts" and step: "registrar_step ops opts ev st = Some (p, st')" and i: "event_id ev = i"
  shows "(rg_inFlight st' i = Some (Disposing e) \<and> rg_inFlight st i \<noteq> Some (Disposing e) \<longrightarrow>
      (\<exists>now leases. leases i \<le> 0 \<and> (ev = Poll i now leases \<or> (\<exists>reply. ev = Reply i reply now leases)))) \<and>
    (rg_inFlight st' i = Some (Registering e) \<and> rg_inFlight st i \<noteq> Some (Registering e) \<longrightarrow>
      ev = Dispose i \<and> rg_inFlight st i = Some (Disposing e) \<and>
      disposeInstance ops i (rg_registry st) = (None, rg_registry st')) \<and>
    (rg_registry st' \<noteq> rg_registry st \<longrightarrow>
      (\<exists>d. ev = Dispose i \<and> rg_inFlight st i = Some (Disposing d)) \<or>
      (\<exists>d. ev = Register i \<and> rg_inFlight st i = Some (Registering d)) \<or>
      (\<exists>reply now leases. ev = Reply i reply now leases \<and> getDefinition ops (rg_registry st) i = None)) \<and>
    (\<forall>j. j \<noteq> i \<longrightarrow> getDefinition ops (rg_registry st') j = getDefinition ops (rg_registry st) j)"
proof (cases "ev = Ensure i")
  case True
  then show ?thesis using step by (auto simp: registrar_step_def ensure_call_def split: option.splits)
next
  case False
  then obtain ph st1 where ph: "rg_inFlight st i = Some ph"
    "continue_with ops opts ev ph st = Some (p, st1)" "st' = advance i p st1"
    using step i by (cases ev) (auto simp: registrar_step_def split: option.splits prod.splits)
  have same: "rg_registry st' = rg_registry st1" using ph(3) by (simp add: advance_def)
  have next_phase: "rg_inFlight st' i = Some x \<longleftrightarrow> p = Going x" for x
    by (cases p) (simp_all add: ph(3) advance_def)
  have entry: "ac_applicationId (vc_config d) = i" if "phase_entry ph = Some d" for d
    using reachable_registrar_ok [OF st] ph(1) that by (simp add: registrar_ok_def phase_ok_def)
  show ?thesis
  proof (cases ev)
    case (Reply k reply now leases)
    then have k: "k = i" using i by simp
    have ph': "ph = Fetching" "on_reply ops opts i reply now (leases i) st = (p, st1)"
      using ph(2) Reply k by (cases ph; simp)+
    have fin: "finish_resolve ops i d st = (p, st1) \<Longrightarrow> p \<noteq> Going x" for d x
      by (auto simp: finish_resolve_def split: prod.splits sum.splits)
    consider (finish) d where "reply = Inr (Some d)" "getDefinition ops (rg_registry st) i = None"
        "finish_resolve ops i d st = (p, st1)"
      | (drain) d where "p = drain_start opts i d now (leases i)" "st1 = st"
      | (settled) x where "p = Settled x" "st1 = st"
      using ph'(2) by (auto simp: on_reply_def split: sum.splits option.splits if_splits)
    then show ?thesis
    proof cases
      case finish
      then have d: "ac_applicationId (vc_config d) = i" using good Reply k by (simp add: good_event_def good_reply_def)
      show ?thesis using finish(2) fin [OF finish(3)] finish_resolve_others [OF laws d finish(3)] Reply k same
        by (auto simp: next_phase)
    next
      case drain
      then show ?thesis using Reply k same mgr
        by (auto simp: next_phase drain_start_def drain_check_def split: if_splits)
    next
      case settled
      then show ?thesis using same by (simp add: next_phase)
    qed
  next
    case (Poll k now leases)
    then show ?thesis using ph(2) same i by (cases ph) (auto simp: next_phase drain_check_def split: if_splits)
  next
    case (Dispose k)
    then obtain d where d: "ph = Disposing d" "on_dispose ops i d st = (p, st1)"
      using ph(2) i by (cases ph) auto
    have "getDefinition ops (rg_registry st1) j = getDefinition ops (rg_registry st) j" if "j \<noteq> i" for j
      using d(2) laws that unfolding registry_laws_def
      by (auto simp: on_dispose_def split: prod.splits option.splits) (metis snd_conv)+
    then show ?thesis using d ph(1) Dispose i same
      by (auto simp: next_phase on_dispose_def split: prod.splits option.splits)
  next
    case (Register k)
    then obtain d where d: "ph = Registering d" "finish_resolve ops i d st = (p, st1)"
      using ph(2) i by (cases ph) auto
    then have "p \<noteq> Going x" for x by (auto simp: finish_resolve_def split: prod.splits sum.splits)
    with d entry [of d] finish_resolve_others [OF laws _ d(2)] Register ph(1) i same show ?thesis
      by (auto simp: next_phase)
  qed (use False i in simp)
qed

definition draining_second :: "(string \<times> definition_info) list registrar" where
  "draining_second = snd (the (run_registrar example_registry wired_options
     [Ensure ''ad'', Reply ''ad'' (Inr (Some doc_v3)) 5 (\<lambda>_. 2)] after_first))"

definition disposing_second :: "(string \<times> definition_info) list registrar" where
  "disposing_second = snd (the (registrar_step example_registry wired_options (Poll ''ad'' 6 (\<lambda>_. 0)) draining_second))"

lemma draining_second_reached: "reg_reachable example_registry wired_options [] draining_second"
proof -
  have "run_registrar example_registry wired_options [Ensure ''ad'', Reply ''ad'' (Inr (Some doc_v3)) 5 (\<lambda>_. 2)] after_first
      \<noteq> None" by code_simp
  then obtain ps where "run_registrar example_registry wired_options
      [Ensure ''ad'', Reply ''ad'' (Inr (Some doc_v3)) 5 (\<lambda>_. 2)] after_first = Some (ps, draining_second)"
    by (auto simp: draining_second_def)
  then show ?thesis
    by (rule run_reachable)
      (simp_all add: good_event_def good_reply_def doc_v3_def doc_v2_def after_first_reached)
qed

lemma disposing_second_step:
  "registrar_step example_registry wired_options (Poll ''ad'' 6 (\<lambda>_. 0)) draining_second =
     Some (Going (Disposing doc_v3), disposing_second)"
proof -
  have "map_option fst (registrar_step example_registry wired_options (Poll ''ad'' 6 (\<lambda>_. 0)) draining_second) =
      Some (Going (Disposing doc_v3))" by code_simp
  then show ?thesis by (auto simp: disposing_second_def)
qed

theorem replacement_waits_for_leases_witness:
  "(\<exists>now leases. leases ''ad'' \<le> 0 \<and> Poll ''ad'' 6 (\<lambda>_. 0) = Poll ''ad'' now leases) \<and>
   rg_inFlight disposing_second ''ad'' = Some (Disposing doc_v3) \<and>
   (\<exists>st'. registrar_step example_registry wired_options (Dispose ''ad'') disposing_second =
        Some (Going (Registering doc_v3), st') \<and>
      disposeInstance example_registry ''ad'' (rg_registry disposing_second) = (None, rg_registry st') \<and>
      getDefinition example_registry (rg_registry st') ''hr'' = getDefinition example_registry (rg_registry disposing_second) ''hr'')"
proof -
  have m: "ro_manager wired_options" by (simp add: wired_options_def registrar_options_def)
  have g: "good_event (Poll ''ad'' 6 (\<lambda>_. 0))" "good_event (Dispose ''ad'')" by (simp_all add: good_event_def)
  have ph: "rg_inFlight draining_second ''ad'' \<noteq> Some (Disposing doc_v3)"
    "rg_inFlight disposing_second ''ad'' = Some (Disposing doc_v3)" by code_simp+
  have reach: "reg_reachable example_registry wired_options [] disposing_second"
    by (rule reg_reachable.step [OF draining_second_reached g(1) disposing_second_step])
  have "map_option fst (registrar_step example_registry wired_options (Dispose ''ad'') disposing_second) =
      Some (Going (Registering doc_v3))" by code_simp
  then obtain st' where st': "registrar_step example_registry wired_options (Dispose ''ad'') disposing_second =
      Some (Going (Registering doc_v3), st')" by auto
  then have ph': "rg_inFlight st' ''ad'' = Some (Registering doc_v3)"
    using ph(2) by (auto simp: registrar_step_def advance_def split: prod.splits option.splits)
  note waits = replacement_waits_for_leases [OF example_registry_laws draining_second_reached g(1) m disposing_second_step refl]
  note moves = replacement_waits_for_leases [OF example_registry_laws reach g(2) m st' refl]
  have "\<exists>now leases. leases ''ad'' \<le> 0 \<and> Poll ''ad'' 6 (\<lambda>_. 0) = Poll ''ad'' now leases"
    using waits [of doc_v3] ph by auto
  moreover have "disposeInstance example_registry ''ad'' (rg_registry disposing_second) = (None, rg_registry st') \<and>
      getDefinition example_registry (rg_registry st') ''hr'' = getDefinition example_registry (rg_registry disposing_second) ''hr''"
    using moves [of doc_v3] ph(2) ph' by auto
  ultimately show ?thesis using ph(2) st' by blast
qed

section \<open>The drain ends\<close>

text \<open>The loop of \<open>drainLeases\<close> over what it observes, a time and a lease count per pass.\<close>

fun drain_loop ::
  "registrar_opts \<Rightarrow> string \<Rightarrow> versioned_config \<Rightarrow> int \<Rightarrow> (int \<times> int) list \<Rightarrow> progress" where
  "drain_loop opts i e d [] = Going (Draining e d)"
| "drain_loop opts i e d ((now, refs) # obs) =
     (case drain_check opts i e d now refs of
        Going (Draining e' d') \<Rightarrow> drain_loop opts i e d obs
      | p \<Rightarrow> p)"

lemma drain_check_cases:
  "drain_check opts i e d now refs =
     (if refs \<le> 0 then Going (Disposing e)
      else if d \<le> now then Settled (Inl (LeasesOutstanding i refs (ro_drainTimeoutMs opts)))
      else Going (Draining e d))"
  by (simp add: drain_check_def)

lemma drain_loop_ends:
  "\<exists>x\<in>set obs. snd x \<le> 0 \<or> d \<le> fst x \<Longrightarrow>
   drain_loop opts i e d obs = Going (Disposing e) \<and> (\<exists>x\<in>set obs. snd x \<le> 0) \<or>
   (\<exists>refs > 0. drain_loop opts i e d obs = Settled (Inl (LeasesOutstanding i refs (ro_drainTimeoutMs opts))))"
proof (induction opts i e d obs rule: drain_loop.induct)
  case (2 opts i e d now refs obs)
  then show ?case by (cases "refs \<le> 0"; cases "d \<le> now") (simp_all add: drain_check_cases)
qed simp

lemma drain_loop_waits:
  "\<forall>x\<in>set obs. 0 < snd x \<and> fst x < d \<Longrightarrow> drain_loop opts i e d obs = Going (Draining e d)"
  by (induction opts i e d obs rule: drain_loop.induct) (auto simp: drain_check_cases)

text \<open>C29: Waiting for leases ends: when each sleep of the drain loop lasts at least the poll interval,
  then after as many passes as the timeout holds poll intervals the resolution has left the loop, to
  the disposal if the leases were released, with the outstanding-leases error otherwise; and as long as
  leases are held and the deadline is not reached it has not left.\<close>

theorem drain_terminates:
  assumes start: "drain_start opts i e t0 refs = Going (Draining e d)"
    and poll: "0 < ro_drainPollMs opts"
    and sleeps: "\<forall>k < length obs. t0 + int (k + 1) * ro_drainPollMs opts \<le> fst (obs ! k)"
    and enough: "obs \<noteq> []" "ro_drainTimeoutMs opts \<le> int (length obs) * ro_drainPollMs opts"
  shows "d = t0 + ro_drainTimeoutMs opts \<and>
    (drain_loop opts i e d obs = Going (Disposing e) \<and> (\<exists>x\<in>set obs. snd x \<le> 0) \<or>
     (\<exists>n > 0. drain_loop opts i e d obs = Settled (Inl (LeasesOutstanding i n (ro_drainTimeoutMs opts))))) \<and>
    (\<forall>k. (\<forall>x\<in>set (take k obs). 0 < snd x \<and> fst x < d) \<longrightarrow>
       drain_loop opts i e d (take k obs) = Going (Draining e d))"
proof -
  have d: "d = t0 + ro_drainTimeoutMs opts"
    using start by (auto simp: drain_start_def drain_check_cases split: if_splits)
  let ?l = "last obs"
  have "t0 + int (length obs) * ro_drainPollMs opts \<le> fst ?l"
    using sleeps [rule_format, of "length obs - 1"] enough(1) by (simp add: last_conv_nth)
  then have "d \<le> fst ?l" using d enough(2) by linarith
  moreover have "?l \<in> set obs" using enough(1) by simp
  ultimately have "\<exists>x\<in>set obs. snd x \<le> 0 \<or> d \<le> fst x" by blast
  then show ?thesis using d drain_loop_ends [of obs d opts i e] drain_loop_waits by blast
qed

definition short_drain :: registrar_opts where
  "short_drain = registrar_options True (Some 100) (Some 50)"

theorem drain_terminates_witness:
  "drain_start short_drain ''ad'' doc_v2 0 2 = Going (Draining doc_v2 100) \<and>
   drain_loop short_drain ''ad'' doc_v2 100 [(51, 2), (103, 1)] = Settled (Inl (LeasesOutstanding ''ad'' 1 100))"
proof -
  have s: "drain_start short_drain ''ad'' doc_v2 0 2 = Going (Draining doc_v2 100)"
    by (simp add: drain_start_def drain_check_cases short_drain_def registrar_options_def)
  have p: "0 < ro_drainPollMs short_drain" by (simp add: short_drain_def registrar_options_def)
  have k: "\<forall>k < length [(51::int, 2::int), (103, 1)].
      0 + int (k + 1) * ro_drainPollMs short_drain \<le> fst ([(51::int, 2::int), (103, 1)] ! k)"
    by (auto simp: short_drain_def registrar_options_def less_Suc_eq numeral_2_eq_2)
  have e: "[(51::int, 2::int), (103, 1)] \<noteq> []"
    "ro_drainTimeoutMs short_drain \<le> int (length [(51::int, 2::int), (103, 1)]) * ro_drainPollMs short_drain"
    by (simp_all add: short_drain_def registrar_options_def)
  show ?thesis using drain_terminates [OF s p k e] s
    by (simp add: drain_check_cases short_drain_def registrar_options_def)
qed

section \<open>A failed replacement\<close>

text \<open>A replacement whose scheduling block is refused leaves the new connector in the registry and
  the old version with the registrar: the registration fails, and when the operator restores the old
  document the registrar answers its old registration at once while the instance keeps running with
  the configuration of the refused document.\<close>

theorem stale_registration_served:
  "(case run_registrar example_registry wired_options
       [Ensure ''ad'', Reply ''ad'' (Inr (Some doc_v2)) 5 (\<lambda>_. 0), Dispose ''ad'', Register ''ad'',
        Ensure ''ad'', Reply ''ad'' (Inr (Some doc_v1)) 9 (\<lambda>_. 0)] after_first of
      None \<Rightarrow> False
    | Some (ps, st) \<Rightarrow>
        ps ! 3 = Settled (Inl (RegistrationFailed ''ad'' (SchedulingRefused (FractionRange 7)))) \<and>
        (case last ps of Settled (Inr a) \<Rightarrow> ra_version a = ''v1'' | _ \<Rightarrow> False) \<and>
        ac_connectorConfig (vc_config doc_v1) = [(''url'', JStr ''old'')] \<and>
        map_option df_connectorConfig (getDefinition example_registry (rg_registry st) ''ad'') =
          Some [(''url'', JStr ''new'')])"
  by code_simp

end
