(* ===== verification/Create_Discipline.thy ===== *)
theory Create_Discipline
  imports Op_System Example_Runs "HOL-Library.Multiset"
begin

text \<open>
  A create is issued at most once per attempt, in every run of the service: neither the reaper, nor a
  crash, nor a replica that still works on a row it has lost sends it a second time under the same
  attempt number. A claim of a pending create holds the right to issue it once; the invariant
  follows these rights through claims, tasks and calls.
\<close>

section \<open>The right to create\<close>

definition new_create :: "claimed_op \<Rightarrow> bool" where
  "new_create c = (c_op_type c = CREATE \<and> c_prior_status c = Pend PENDING)"

definition right_of :: "claimed_op \<Rightarrow> string \<times> nat" where
  "right_of c = (c_id c, c_attempt_count c)"

definition dispatched :: "(claimed_op \<times> task_state) list \<Rightarrow> claimed_op list" where
  "dispatched ts = map fst (filter (\<lambda>x. snd x = Dispatched) ts)"

text \<open>The rights a replica holds: of the rows it has just claimed and of the tasks not yet attempted.\<close>

definition rights_held :: "'l disp \<Rightarrow> (string \<times> nat) list" where
  "rights_held d = map right_of (filter new_create (phase_claims (d_phase d) @ dispatched (d_tasks d)))"

definition is_create_call :: "facade_call \<Rightarrow> bool" where
  "is_create_call k = (case k of CallCreate _ _ _ \<Rightarrow> True | _ \<Rightarrow> False)"

definition rights_used :: "(claimed_op \<times> facade_call) list \<Rightarrow> (string \<times> nat) list" where
  "rights_used calls = map (\<lambda>x. right_of (fst x)) (filter (\<lambda>x. is_create_call (snd x)) calls)"

text \<open>A right is spent when the row cannot be claimed under it again.\<close>

definition spent :: "op_store \<Rightarrow> string \<times> nat \<Rightarrow> bool" where
  "spent s x =
     (known s (fst x) CREATE \<and>
      (\<forall>q\<in>set (rows s). r_id q = fst x \<longrightarrow>
         snd x \<le> r_attempt_count q \<and> (r_status q = Pend PENDING \<longrightarrow> snd x < r_attempt_count q)))"

definition rights_ok :: "'l system \<Rightarrow> bool" where
  "rights_ok w =
     (distinct (rights_used (sy_calls w)) \<and>
      (\<forall>r. distinct (rights_held (sy_replicas w r)) \<and>
         set (rights_held (sy_replicas w r)) \<inter> set (rights_used (sy_calls w)) = {} \<and>
         (\<forall>q. q \<noteq> r \<longrightarrow> set (rights_held (sy_replicas w r)) \<inter> set (rights_held (sy_replicas w q)) = {}) \<and>
         (\<forall>x\<in>set (rights_held (sy_replicas w r)). spent (sy_store w) x)) \<and>
      (\<forall>x\<in>set (rights_used (sy_calls w)). spent (sy_store w) x))"

section \<open>A spent right stays spent\<close>

lemma update_where_spent:
  assumes "spent s x" "keeps_identity f"
    and "\<And>q. q \<in> set (rows s) \<Longrightarrow> r_id q = fst x \<Longrightarrow> P q \<Longrightarrow> snd x \<le> r_attempt_count q \<Longrightarrow>
      (r_status q = Pend PENDING \<Longrightarrow> snd x < r_attempt_count q) \<Longrightarrow> r_op_type q = CREATE \<Longrightarrow>
      snd x \<le> r_attempt_count (f q) \<and> (r_status (f q) = Pend PENDING \<longrightarrow> snd x < r_attempt_count (f q))"
  shows "spent (update_where P f s) x"
proof -
  have k: "known s (fst x) CREATE" using assms(1) by (simp add: spent_def)
  have id: "r_id (f q) = r_id q" for q using keeps_identityD(1) [OF assms(2)] by simp
  have "snd x \<le> r_attempt_count (f q) \<and> (r_status (f q) = Pend PENDING \<longrightarrow> snd x < r_attempt_count (f q))"
    if "q \<in> set (rows s)" "P q" "r_id q = fst x" for q
    using assms(3) [OF that(1,3,2)] assms(1) k that by (auto simp: spent_def known_def)
  then show ?thesis
    using assms(1) update_where_known [OF assms(2) k] by (auto simp: spent_def rows_update_where id)
qed

lemma spent_known_other: "spent s x \<Longrightarrow> known t (fst x) CREATE \<Longrightarrow> set (rows t) \<subseteq> set (rows s) \<Longrightarrow> spent t x"
  by (auto simp: spent_def)

lemma store_change_spent:
  assumes "store_change s t" "store_inv s" "spent s x"
  shows "spent t x"
  using assms
proof (induction rule: store_change.induct)
  case (enqueued s j now op res s')
  have k: "known s' (fst x) CREATE"
    using store_change_known [OF store_change.enqueued [OF enqueued(1,2)] enqueued(3)] enqueued(4)
    by (simp add: spent_def)
  show ?case using enqueued(2)
  proof (cases rule: enqueue_InrE)
    case fresh
    have "j \<noteq> fst x" using enqueued(1,4) by (auto simp: fresh_id_def known_def spent_def)
    then show ?thesis using enqueued(4) fresh(3) k by (auto simp: spent_def)
  qed (use enqueued in simp)
next
  case (claimed s now held l act av)
  then show ?case
    by (auto simp: claimBatch_def claim_commit_def Let_def mark_running_def intro!: update_where_spent)
next
  case (reaped s now acq th d)
  then have "spent (reap_creates now th d s) x"
    unfolding reap_creates_def by (intro update_where_spent) (auto simp: keeps_identity_def)
  then have "spent (reap_others now th (reap_creates now th d s)) x"
    unfolding reap_others_def by (intro update_where_spent) (auto simp: keeps_identity_def stale_other_def)
  with reaped show ?case by (simp add: reapStale_def Let_def)
next
  case (requeued s j)
  then show ?case
    by (auto simp: requeue_def Let_def is_running_def keeps_identity_def intro!: update_where_spent)
next
  case (parked s j t)
  then show ?case
    by (auto simp: deferForReadback_def Let_def keeps_identity_def intro!: update_where_spent)
next
  case (finalized s now j x' v e)
  from finalized(1) show ?case
  proof (cases rule: finalize_dichotomy [where i = j and now = now and out = x' and res = v and err = e])
    case (live r)
    have "known (finalized_store now x' v e r s) (fst x) CREATE"
      using finalized_known [OF live(1)] finalized(2) by (simp add: spent_def)
    then show ?thesis using live(5) finalized(2)
      by (auto simp: spent_def finalized_store_def finalize_row_def)
  qed (use finalized in simp)
next
  case (maintained s today m)
  have "known (committed today m s) (fst x) CREATE"
    using committed_known [OF maintained(1)] maintained(2) by (simp add: spent_def)
  then show ?case using spent_known_other [OF maintained(2)] committed_rows by blast
qed

section \<open>Rights are passed on\<close>

lemma rights_okD:
  assumes "rights_ok w"
  shows "distinct (rights_used (sy_calls w))" "distinct (rights_held (sy_replicas w r))"
    "set (rights_held (sy_replicas w r)) \<inter> set (rights_used (sy_calls w)) = {}"
    "q \<noteq> r \<Longrightarrow> set (rights_held (sy_replicas w r)) \<inter> set (rights_held (sy_replicas w q)) = {}"
    "x \<in> set (rights_held (sy_replicas w r)) \<Longrightarrow> spent (sy_store w) x"
    "x \<in> set (rights_used (sy_calls w)) \<Longrightarrow> spent (sy_store w) x"
  using assms unfolding rights_ok_def by blast+

text \<open>A step of one replica that takes new rights and gives none away but to calls.\<close>

lemma rights_step:
  assumes ok: "rights_ok w" and inv: "store_inv (sy_store w)" and ch: "store_change (sy_store w) (sy_store w')"
    and reps: "\<And>q. sy_replicas w' q = (if q = r then d else sy_replicas w q)"
    and calls: "sy_calls w' = sy_calls w @ cs"
    and dist: "distinct (rights_held d @ rights_used cs)"
    and from_where: "\<And>x. x \<in> set (rights_held d @ rights_used cs) \<Longrightarrow>
      x \<in> set (rights_held (sy_replicas w r)) \<or> \<not> spent (sy_store w) x \<and> spent (sy_store w') x"
  shows "rights_ok w'"
proof -
  note w = rights_okD [OF ok]
  have kept: "spent (sy_store w) x \<Longrightarrow> spent (sy_store w') x" for x by (rule store_change_spent [OF ch inv])
  have used: "rights_used (sy_calls w') = rights_used (sy_calls w) @ rights_used cs"
    by (simp add: calls rights_used_def)
  have mine: "x \<notin> set (rights_used (sy_calls w))" "q \<noteq> r \<Longrightarrow> x \<notin> set (rights_held (sy_replicas w q))"
    "spent (sy_store w') x"
    if "x \<in> set (rights_held d @ rights_used cs)" for x q
    using from_where [OF that] w(3) [of r] w(4) [of q r] w(5,6) kept by blast+
  show ?thesis unfolding rights_ok_def
  proof (intro conjI allI ballI impI)
    show "distinct (rights_used (sy_calls w'))" using w(1) mine(1) dist by (auto simp: used)
  next
    fix q
    show "distinct (rights_held (sy_replicas w' q))" using w(2) dist by (simp add: reps)
    show "set (rights_held (sy_replicas w' q)) \<inter> set (rights_used (sy_calls w')) = {}"
      using w(3) [of q] mine(1,2) dist by (auto simp: reps used split: if_splits)
    show "set (rights_held (sy_replicas w' q)) \<inter> set (rights_held (sy_replicas w' p)) = {}" if "p \<noteq> q" for p
      using w(4) [of p q] mine(2) that by (auto simp: reps split: if_splits)
    show "spent (sy_store w') x" if "x \<in> set (rights_held (sy_replicas w' q))" for x
      using w(5) kept mine(3) that by (auto simp: reps split: if_splits)
  next
    fix x
    assume "x \<in> set (rights_used (sy_calls w'))"
    then show "spent (sy_store w') x"
      unfolding used set_append using w(6) [of x] kept [of x] mine(3) [of x] by auto
  qed
qed

lemma rights_same:
  assumes "rights_ok w" "store_inv (sy_store w)" "store_change (sy_store w) (sy_store w')"
    "sy_replicas w' = sy_replicas w" "sy_calls w' = sy_calls w"
  shows "rights_ok w'"
  by (rule rights_step [OF assms(1-3), of 0 "sy_replicas w 0" "[]"])
    (use assms(4,5) rights_okD(2) [OF assms(1)] in \<open>auto simp: rights_used_def\<close>)

lemma rights_fewer:
  assumes "rights_ok w" "store_inv (sy_store w)" "store_change (sy_store w) (sy_store w')"
    "\<And>q. sy_replicas w' q = (if q = r then d else sy_replicas w q)" "sy_calls w' = sy_calls w"
    "distinct (rights_held d)" "set (rights_held d) \<subseteq> set (rights_held (sy_replicas w r))"
  shows "rights_ok w'"
  by (rule rights_step [OF assms(1-4), of "[]"]) (use assms(5-7) in \<open>auto simp: rights_used_def\<close>)

text \<open>What a step leaves of a replica's claims and unattempted tasks.\<close>

definition keeps_work :: "'l disp \<Rightarrow> 'l disp \<Rightarrow> bool" where
  "keeps_work d d' =
     (dispatched (d_tasks d') = dispatched (d_tasks d) \<and>
      phase_claims (d_phase d') \<in> {[], phase_claims (d_phase d)})"

lemma held_keeps_work:
  "keeps_work d d' \<Longrightarrow> distinct (rights_held d) \<Longrightarrow>
     distinct (rights_held d') \<and> set (rights_held d') \<subseteq> set (rights_held d)"
  unfolding keeps_work_def rights_held_def insert_iff filter_append map_append distinct_append set_append
  by (elim conjE disjE) simp_all

lemma dispatched_replace:
  "t \<noteq> Dispatched \<Longrightarrow> t' \<noteq> Dispatched \<Longrightarrow> dispatched (replace_first (c, t) (c, t') ts) = dispatched ts"
  by (induction ts) (auto simp: dispatched_def)

lemma dispatched_attempted:
  "t \<noteq> Dispatched \<Longrightarrow> dispatched (replace_first (c, Dispatched) (c, t) ts) = remove1 c (dispatched ts)"
  by (induction ts) (auto simp: dispatched_def)

lemma dispatched_settled: "t \<noteq> Dispatched \<Longrightarrow> dispatched (remove1 (c, t) ts) = dispatched ts"
  by (induction ts) (auto simp: dispatched_def)

lemma keeps_work_tasks: "keeps_tasks d d' \<Longrightarrow> keeps_work d d'"
  by (simp add: keeps_work_def keeps_tasks_def)

lemma settle_task_keeps_work: "keeps_work d (settle_task c d)"
  by (simp add: keeps_work_def settle_task_def dispatched_settled)

lemma write_task_keeps_work: "keeps_work d (fst (write_task now dbnow fault c (Concluded t0 v) d s))"
proof -
  obtain d1 s1 where w: "write_back now dbnow fault c (Concluded t0 v) d s = (d1, s1)" by fastforce
  have "same_core d d1" using write_back_core [of d now dbnow fault c "Concluded t0 v" s] w by simp
  then show ?thesis
    by (simp add: write_task_def w keeps_work_def same_core_def dispatched_replace)
qed

section \<open>A claim takes fresh rights\<close>

lemma claimed_rights:
  assumes inv: "store_inv s" "parked_creates s"
    and c: "c \<in> set (fst (claimBatch now held l act av s))" "new_create c"
  shows "\<not> spent s (right_of c) \<and> spent (snd (claimBatch now held l act av s)) (right_of c)"
proof -
  obtain r where r: "r \<in> set (claimed_rows now held l act av s)" "c = to_claimed r"
    using c(1) by (auto simp: claimBatch_fst)
  have row: "r \<in> set (rows s)" using r(1) by (auto simp: claimed_rows_def Let_def split: if_splits)
  have x: "right_of c = (r_id r, r_attempt_count r)" "r_status r = Pend PENDING" "r_op_type r = CREATE"
    using c(2) r(2) by (simp_all add: right_of_def new_create_def to_claimed_def)
  have "known (snd (claimBatch now held l act av s)) (r_id r) CREATE"
    using claimed_ok [OF inv c(1)] x(3) r(2) by (simp add: claim_ok_def to_claimed_def)
  moreover have "r_attempt_count r \<le> r_attempt_count q \<and> r_status q \<noteq> Pend PENDING"
    if q: "q \<in> set (rows (snd (claimBatch now held l act av s)))" "r_id q = r_id r" for q
  proof -
    obtain p where p: "p \<in> set (rows s)" "r_id p = r_id r"
      "q = (if locked held (picked now l act (caps_of_availability av) (rows s)) p then mark_running now p else p)"
      using q r(1)
      by (auto simp: claimBatch_def claimed_rows_def claim_commit_def Let_def rows_update_where split: if_splits)
    with inv_same_id [OF inv(1) p(1) row] have "p = r" by blast
    with p(3) r(1) show ?thesis by (auto simp: claimed_rows_def Let_def mark_running_def split: if_splits)
  qed
  ultimately show ?thesis using row x by (auto simp: spent_def)
qed

lemma claimed_rights_distinct:
  assumes "store_inv s"
  shows "distinct (map right_of (fst (claimBatch now held l act av s)))"
proof -
  have "inj_on (\<lambda>r. right_of (to_claimed r)) (set (claimed_rows now held l act av s))"
    using inv_same_id [OF assms]
    by (auto simp: inj_on_def right_of_def to_claimed_def claimed_rows_def Let_def split: if_splits)
  then show ?thesis
    using claimed_rows_distinct [OF assms] by (simp add: claimBatch_fst distinct_map comp_def)
qed

lemma claim_phase_rights:
  assumes ok: "rights_ok w" and inv: "store_inv (sy_store w)" "parked_creates (sy_store w)"
    and new: "claim_phase dc now dbnow held fault (sy_replicas w r) (sy_store w) = (d', s')"
  shows "rights_ok (set_both r (d', s') w)"
proof -
  let ?d = "sy_replicas w r" and ?s = "sy_store w"
  have ch: "store_change ?s (sy_store (set_both r (d', s') w))"
    using claim_phase_change [of ?s dc now dbnow held fault ?d] new by (simp add: set_both_def)
  have reps: "sy_replicas (set_both r (d', s') w) q = (if q = r then d' else sy_replicas w q)"
    and calls: "sy_calls (set_both r (d', s') w) = sy_calls w" for q
    by (simp_all add: set_both_def set_replica_def)
  show ?thesis
  proof (cases "\<exists>t av. d_phase ?d = Ready t av \<and> fault = None")
    case False
    then have "keeps_tasks ?d (fst (claim_phase dc now dbnow held fault ?d ?s))" by (intro claim_phase_keeps) blast
    with new have "keeps_work ?d d'" by (simp add: keeps_work_tasks)
    from held_keeps_work [OF this rights_okD(2) [OF ok]] show ?thesis
      using rights_fewer [OF ok inv(1) ch reps calls] by blast
  next
    case True
    then obtain t av where p: "d_phase ?d = Ready t av" "fault = None" by blast
    obtain x where x: "x = excludedLanes now ?d" by simp
    have t: "d_tasks (snd x) = d_tasks ?d" by (simp add: x excludedLanes_def Let_def prune_deferred_def)
    obtain cs where cl: "claimBatch dbnow held (claimBatchSize dc) (fst x) av ?s = (cs, s')"
      "d' = (snd x)\<lparr>d_phase := Claimed t cs\<rparr>"
      using new p x by (auto simp: claim_phase_def split: prod.splits)
    let ?new = "map right_of (filter new_create cs)"
      and ?old = "map right_of (filter new_create (dispatched (d_tasks ?d)))"
    have held: "rights_held d' = ?new @ ?old" "rights_held ?d = ?old"
      using p t by (simp_all add: cl(2) rights_held_def phase_claims_def)
    have fresh: "\<not> spent ?s y \<and> spent s' y" if "y \<in> set ?new" for y
      using claimed_rights [OF inv, of _ dbnow held "claimBatchSize dc" "fst x" av] that cl(1) by auto
    have "distinct ?new"
      using claimed_rights_distinct [OF inv(1), of dbnow held "claimBatchSize dc" "fst x" av] cl(1)
      by (simp add: distinct_map_filter)
    moreover have "distinct ?old" using rights_okD(2) [OF ok, of r] held(2) by simp
    moreover have "set ?new \<inter> set ?old = {}"
      using fresh rights_okD(5) [OF ok, of _ r] unfolding held(2) by blast
    ultimately have "distinct (rights_held d' @ rights_used [])"
      by (simp only: held(1) distinct_append rights_used_def) simp
    moreover have "y \<in> set (rights_held ?d) \<or> \<not> spent ?s y \<and> spent (sy_store (set_both r (d', s') w)) y"
      if "y \<in> set (rights_held d' @ rights_used [])" for y
      using that fresh [of y] unfolding held by (auto simp: rights_used_def set_both_def)
    ultimately show ?thesis using rights_step [OF ok inv(1) ch reps, of "[]"] calls by simp
  qed
qed

lemma mset_perm:
  "mset (rights_held d' @ rs) = mset (rights_held d) \<Longrightarrow> distinct (rights_held d) \<Longrightarrow>
     distinct (rights_held d' @ rs) \<and> set (rights_held d' @ rs) = set (rights_held d)"
  using mset_eq_imp_distinct_iff mset_eq_setD by metis

lemma register_phase_rights: "mset (rights_held (snd (register_phase now d))) = mset (rights_held d)"
  by (cases "d_phase d")
    (simp_all add: register_phase_def rights_held_def phase_claims_def register_tasks_list measure_out_def
      dispatched_def comp_def)

section \<open>An attempt uses its right at most once\<close>

lemma attempt_uses_right:
  assumes "claim_ok s c"
  shows "rights_used (map (\<lambda>k. (c, k)) (fst (attempt dc caps now fac c runtime))) \<in>
    {[], if new_create c then [right_of c] else []}"
  using assms
  by (auto simp: claim_ok_def attempt_def resumeReadBack_def attemptCreate_def attemptUpdate_def attemptDelete_def
      attemptDelta_def Let_def rights_used_def is_create_call_def readback_call_def new_create_def
      split: option.splits op_type.splits)

lemma mset_taken:
  "c \<in> set xs \<Longrightarrow> mset (map f (filter P (ys @ remove1 c xs)) @ (if P c then [f c] else []))
     = mset (map f (filter P (ys @ xs)))"
  by (induction xs) auto

lemma attempt_task_rights:
  assumes "attempt_task env dc now acq c d = (calls, d')" "claim_ok s c" "(c, Dispatched) \<in> set (d_tasks d)"
    and dist: "distinct (rights_held d)"
  shows "distinct (rights_held d' @ rights_used (map (\<lambda>k. (c, k)) calls)) \<and>
    set (rights_held d' @ rights_used (map (\<lambda>k. (c, k)) calls)) \<subseteq> set (rights_held d)"
proof -
  obtain t d1 where eq: "conclude env dc now acq c d = (calls, t, d1)"
    "d' = d1\<lparr>d_tasks := replace_first (c, Dispatched) (c, t) (d_tasks d1)\<rparr>"
    using assms(1) by (auto simp: attempt_task_def split: prod.splits)
  have d1: "t \<noteq> Dispatched" "d_tasks d1 = d_tasks d" "d_phase d1 = d_phase d"
    using eq(1) by (auto simp: conclude_def log_error_def split: sum.splits prod.splits)
  have calls: "calls = [] \<or> (\<exists>fac rt. calls = fst (attempt dc (capabilitiesOf env) now fac c rt))"
    using eq(1) by (auto simp: conclude_def split: sum.splits prod.splits) (metis fst_conv)
  have used: "rights_used (map (\<lambda>k. (c, k)) calls) \<in> {[], if new_create c then [right_of c] else []}"
    using calls attempt_uses_right [OF assms(2), of dc "capabilitiesOf env" now]
    by (elim disjE exE) (simp_all add: rights_used_def)
  let ?mine = "if new_create c then [right_of c] else []"
  have "c \<in> set (dispatched (d_tasks d))" using assms(3) by (force simp: dispatched_def)
  moreover have "dispatched (d_tasks d') = remove1 c (dispatched (d_tasks d))" "d_phase d' = d_phase d"
    using d1 by (simp_all add: eq(2) dispatched_attempted)
  ultimately have "mset (rights_held d' @ ?mine) = mset (rights_held d)"
    unfolding rights_held_def using mset_taken [of c _ right_of new_create "phase_claims (d_phase d)"] by presburger
  note p = mset_perm [OF this dist]
  from used have "rights_used (map (\<lambda>k. (c, k)) calls) = ?mine \<or> rights_used (map (\<lambda>k. (c, k)) calls) = []"
    by blast
  then show ?thesis
  proof
    assume e: "rights_used (map (\<lambda>k. (c, k)) calls) = []"
    show ?thesis using p unfolding e distinct_append set_append append_Nil2 by blast
  next
    assume e: "rights_used (map (\<lambda>k. (c, k)) calls) = ?mine"
    show ?thesis using p unfolding e by blast
  qed
qed

section \<open>The invariant along a run\<close>

lemma rights_ok_replica:
  assumes "rights_ok w" "store_inv (sy_store w)" "keeps_work (sy_replicas w r) d"
  shows "rights_ok (set_replica r d w)"
proof -
  have reps: "sy_replicas (set_replica r d w) q = (if q = r then d else sy_replicas w q)" for q
    by (simp add: set_replica_def)
  have rest: "store_change (sy_store w) (sy_store (set_replica r d w))" "sy_calls (set_replica r d w) = sy_calls w"
    by (simp_all add: set_replica_def store_change.same)
  from held_keeps_work [OF assms(3) rights_okD(2) [OF assms(1)]] show ?thesis
    using rights_fewer [OF assms(1,2) rest(1) reps rest(2)] by blast
qed

lemma rights_ok_both:
  assumes "rights_ok w" "store_inv (sy_store w)" "store_change (sy_store w) (snd x)" "keeps_work (sy_replicas w r) (fst x)"
  shows "rights_ok (set_both r x w)"
proof -
  have reps: "sy_replicas (set_both r x w) q = (if q = r then fst x else sy_replicas w q)" for q
    by (simp add: set_both_def set_replica_def)
  have rest: "store_change (sy_store w) (sy_store (set_both r x w))" "sy_calls (set_both r x w) = sy_calls w"
    using assms(3) by (simp_all add: set_both_def set_replica_def)
  from held_keeps_work [OF assms(4) rights_okD(2) [OF assms(1)]] show ?thesis
    using rights_fewer [OF assms(1,2) rest(1) reps rest(2)] by blast
qed

lemma sys_step_rights:
  assumes step: "sys_step env dc day_text w w'" and ok: "sys_ok env w" and rights: "rights_ok w"
  shows "rights_ok w'"
proof -
  note w = sys_okD [OF ok]
  have ch: "store_change (sy_store w) (sy_store w')" by (rule step_store_change [OF step w(1,4)])
  show ?thesis
    using step
  proof cases
    case (enqueue i now op res s')
    then show ?thesis using rights_same [OF rights w(1) ch] by simp
  next
    case (maintain now fault' res' m' s')
    then show ?thesis using rights_same [OF rights w(1) ch] by simp
  next
    case (start r)
    then show ?thesis using rights_ok_replica [OF rights w(1) keeps_work_tasks [OF keeps_tasks_core, OF core_simps(5)]] by blast
  next
    case (stop r)
    then show ?thesis using rights_ok_replica [OF rights w(1) keeps_work_tasks [OF keeps_tasks_core, OF core_simps(6)]] by blast
  next
    case (cycle r now)
    then show ?thesis using rights_ok_replica [OF rights w(1) keeps_work_tasks [OF begin_cycle_keeps]] by blast
  next
    case (reap r now dbnow fault acq)
    then show ?thesis using rights_ok_both [OF rights w(1) reap_phase_change keeps_work_tasks [OF reap_phase_keeps]] by blast
  next
    case (offer r now faults)
    then show ?thesis using rights_ok_replica [OF rights w(1) keeps_work_tasks [OF availability_phase_keeps [OF w(3)]]] by blast
  next
    case (claim r now dbnow held fault)
    then show ?thesis using claim_phase_rights [OF rights w(1,2)] by (metis prod.collapse)
  next
    case (register r now)
    let ?d = "snd (register_phase now (sy_replicas w r))"
    have "distinct (rights_held ?d)" "set (rights_held ?d) \<subseteq> set (rights_held (sy_replicas w r))"
      using mset_perm [of ?d "[]" "sy_replicas w r"] register_phase_rights [of now "sy_replicas w r"]
        rights_okD(2) [OF rights, of r] by simp_all
    with register show ?thesis
      using rights_fewer [OF rights w(1) ch, of r ?d] by (simp add: set_replica_def)
  next
    case (attempt c r now acquire calls d')
    have "claim_ok (sy_store w) c" using attempt_task_replica [OF attempt(3) w(4) attempt(2)] by blast
    from attempt_task_rights [OF attempt(3) this attempt(2) rights_okD(2) [OF rights]] attempt(1)
    show ?thesis
      by (intro rights_step [OF rights w(1) ch, of r d' "map (\<lambda>k. (c, k)) calls"])
        (auto simp: set_replica_def)
  next
    case (write_result c t0 v r now dbnow fault)
    then show ?thesis using rights_ok_both [OF rights w(1) _ write_task_keeps_work] ch
      by (simp add: set_both_def)
  next
    case (settle c r)
    then show ?thesis using rights_ok_replica [OF rights w(1) settle_task_keeps_work] by blast
  next
    case (crash r)
    have "rights_held (new_dispatcher :: 'a disp) = []"
      by (simp add: rights_held_def new_dispatcher_def phase_claims_def dispatched_def)
    with crash show ?thesis
      using rights_fewer [OF rights w(1) ch, of r new_dispatcher] by (simp add: set_replica_def)
  qed
qed

lemma init_rights_ok: "rights_ok (init_system days m)"
  by (simp add: rights_ok_def init_system_def rights_held_def rights_used_def new_dispatcher_def phase_claims_def
      dispatched_def)

lemma reachable_rights:
  "(sys_step env dc day_text)\<^sup>*\<^sup>* w w' \<Longrightarrow> sys_ok env w \<Longrightarrow> rights_ok w \<Longrightarrow> sys_ok env w' \<and> rights_ok w'"
  by (induction rule: rtranclp_induct) (simp_all add: sys_step_ok sys_step_rights)

lemma length_distinct_bound:
  assumes "distinct (map f xs)" "\<And>x. x \<in> set xs \<Longrightarrow> f x < (n :: nat)"
  shows "length xs \<le> n"
proof -
  have "card (set (map f xs)) \<le> card {..<n}" by (rule card_mono) (use assms(2) in auto)
  then show ?thesis using distinct_card [OF assms(1)] by simp
qed

lemma creates_distinct:
  assumes ok: "rights_ok w"
  shows "distinct (map (\<lambda>x. c_attempt_count (fst x))
    (filter (\<lambda>x. is_create_call (snd x) \<and> c_id (fst x) = i) (sy_calls w)))"
proof -
  let ?mine = "filter (\<lambda>x. is_create_call (snd x) \<and> c_id (fst x) = i) (sy_calls w)"
  have "?mine = filter (\<lambda>x. c_id (fst x) = i) (filter (\<lambda>x. is_create_call (snd x)) (sy_calls w))"
    by (simp add: conj_commute)
  then have "distinct (map (\<lambda>x. right_of (fst x)) ?mine)"
    using rights_okD(1) [OF ok] by (simp only: rights_used_def distinct_map_filter)
  moreover have "map (\<lambda>x. right_of (fst x)) ?mine = map (Pair i) (map (\<lambda>x. c_attempt_count (fst x)) ?mine)"
    unfolding map_map by (rule map_cong) (auto simp: right_of_def)
  ultimately have "distinct (map (Pair i) (map (\<lambda>x. c_attempt_count (fst x)) ?mine))" by metis
  then show ?thesis unfolding distinct_map by blast
qed

lemma creates_bounded:
  assumes ok: "rights_ok w" and r: "r \<in> set (rows (sy_store w))"
  shows "length (filter (\<lambda>x. is_create_call (snd x) \<and> c_id (fst x) = r_id r) (sy_calls w))
    \<le> r_attempt_count r + (if r_status r = Pend PENDING then 0 else 1)"
proof (rule length_distinct_bound [OF creates_distinct [OF ok]])
  let ?mine = "filter (\<lambda>x. is_create_call (snd x) \<and> c_id (fst x) = r_id r) (sy_calls w)"
  show "c_attempt_count (fst x) < r_attempt_count r + (if r_status r = Pend PENDING then 0 else 1)"
    if "x \<in> set ?mine" for x
  proof -
    have "right_of (fst x) \<in> set (rights_used (sy_calls w))" using that by (auto simp: rights_used_def)
    then have "spent (sy_store w) (right_of (fst x))" by (rule rights_okD(6) [OF ok])
    then have "c_attempt_count (fst x) \<le> r_attempt_count r \<and>
        (r_status r = Pend PENDING \<longrightarrow> c_attempt_count (fst x) < r_attempt_count r)"
      using r that by (simp add: spent_def right_of_def)
    then show ?thesis by auto
  qed
qed

section \<open>At most one create per attempt\<close>

text \<open>C12: No create is issued twice for one attempt: in every reachable state of the service, with any
  replicas, interleavings, crashes and faults, the creates sent to the target carry pairwise
  different pairs of operation id and attempt number, and the target has seen at most
  \<open>attempt_count + 1\<close> creates of an operation, one fewer while its row waits to be claimed.\<close>

theorem create_issued_once_per_attempt:
  assumes "(sys_step env dc day_text)\<^sup>*\<^sup>* (init_system days m) w"
  shows "distinct (map (\<lambda>x. (c_id (fst x), c_attempt_count (fst x))) (filter (\<lambda>x. is_create_call (snd x)) (sy_calls w))) \<and>
    (\<forall>r\<in>set (rows (sy_store w)).
       length (filter (\<lambda>x. is_create_call (snd x) \<and> c_id (fst x) = r_id r) (sy_calls w))
         \<le> r_attempt_count r + (if r_status r = Pend PENDING then 0 else 1))"
proof -
  have "rights_ok w" using reachable_rights [OF assms init_system_ok init_rights_ok] by blast
  then show ?thesis using rights_okD(1) [of w] creates_bounded [of w] by (simp only: rights_used_def right_of_def) blast
qed

text \<open>A run in which the target first answers a create with a retryable failure and is asked again.\<close>

definition create_input :: enqueue_input where
  "create_input = delete_input\<lparr>e_op_type := CREATE, e_uid := None, e_name_attr_value := Some ''bob'',
     e_lane_key := ''name:user:bob''\<rparr>"

definition create_queued :: "unit system" where
  "create_queued = (init_system [0] example_maintainer)\<lparr>sy_store := store_of [new_row 5 an_id create_input]\<rparr>"

text \<open>One claim cycle of replica \<open>k\<close>.\<close>

definition cycle_run :: "nat \<Rightarrow> int \<Rightarrow> unit system \<Rightarrow> unit system" where
  "cycle_run k t w0 =
     (let w1 = set_replica k (begin_cycle t (sy_replicas w0 k)) w0;
          w2 = set_both k (reap_phase run_env DEFAULTS t (us_of_ms t) None True (sy_replicas w1 k) (sy_store w1)) w1;
          w3 = set_replica k (availability_phase run_env t (\<lambda>_. None) (sy_store w2) (sy_replicas w2 k)) w2;
          w4 = set_both k (claim_phase DEFAULTS t (us_of_ms t) [] None (sy_replicas w3 k) (sy_store w3)) w3
      in set_replica k (snd (register_phase t (sy_replicas w4 k))) w4)"

lemma cycle_run_steps: "(sys_step run_env DEFAULTS day_text)\<^sup>*\<^sup>* w (cycle_run k t w)"
  unfolding cycle_run_def Let_def
  by (rule rtranclp.rtrancl_into_rtrancl, rule rtranclp.rtrancl_into_rtrancl, rule rtranclp.rtrancl_into_rtrancl,
      rule rtranclp.rtrancl_into_rtrancl, rule rtranclp.rtrancl_into_rtrancl, rule rtranclp.rtrancl_refl)
    (rule sys_step.cycle sys_step.reap sys_step.offer sys_step.claim sys_step.register)+

text \<open>The first task of a replica makes its next step.\<close>

definition task_run :: "nat \<Rightarrow> int \<Rightarrow> facade \<Rightarrow> unit system \<Rightarrow> unit system" where
  "task_run k t fac w =
     (case d_tasks (sy_replicas w k) of
        [] \<Rightarrow> w
      | (c, Dispatched) # _ \<Rightarrow>
          (case attempt_task run_env DEFAULTS t (Inr fac) c (sy_replicas w k) of
             (calls, d) \<Rightarrow> (set_replica k d w)\<lparr>sy_calls := sy_calls w @ map (\<lambda>k. (c, k)) calls\<rparr>)
      | (c, Concluded t0 v) # _ \<Rightarrow>
          set_both k (write_task t (us_of_ms t) None c (Concluded t0 v) (sy_replicas w k) (sy_store w)) w
      | (c, Written) # _ \<Rightarrow> set_replica k (settle_task c (sy_replicas w k)) w)"

lemma task_run_cases:
  obtains (step) "sys_step run_env DEFAULTS day_text w (task_run k t fac w)" | (none) "task_run k t fac w = w"
proof (cases "d_tasks (sy_replicas w k)")
  case (Cons p ps)
  obtain c st where p: "p = (c, st)" by fastforce
  have mem: "(c, st) \<in> set (d_tasks (sy_replicas w k))" by (simp add: Cons p)
  have "sys_step run_env DEFAULTS day_text w (task_run k t fac w)"
  proof (cases st)
    case Dispatched
    obtain calls d where "attempt_task run_env DEFAULTS t (Inr fac) c (sy_replicas w k) = (calls, d)" by fastforce
    from sys_step.attempt [OF mem [unfolded Dispatched] this] this show ?thesis
      by (simp add: task_run_def Cons p Dispatched)
  next
    case (Concluded t0 v)
    from sys_step.write_result [OF mem [unfolded Concluded]] show ?thesis
      by (simp add: task_run_def Cons p Concluded)
  next
    case Written
    from sys_step.settle [OF mem [unfolded Written]] show ?thesis by (simp add: task_run_def Cons p Written)
  qed
  then show ?thesis by (rule step)
qed (simp add: none task_run_def)

lemma task_run_step: "(sys_step run_env DEFAULTS day_text)\<^sup>*\<^sup>* w (task_run k t fac w)"
  by (cases rule: task_run_cases [of day_text w k t fac]) auto

definition busy_facade :: facade where
  "busy_facade call = Inl \<lparr> t_connector = Some (CONNECTION_FAILED, True), t_deadline = False, t_message = ''refused'' \<rparr>"

definition create_retried :: "unit system" where
  "create_retried =
     task_run 0 70000 busy_facade (cycle_run 0 70000
       (task_run 0 30 busy_facade (task_run 0 20 busy_facade (task_run 0 10 busy_facade (cycle_run 0 5 create_queued)))))"

lemma create_queued_step: "sys_step run_env DEFAULTS day_text (init_system [0] example_maintainer) create_queued"
proof -
  have "enqueue 5 an_id create_input (empty_store [0]) =
      Inr (\<lparr> er_id = an_id, er_deduplicated = False \<rparr>, store_of [new_row 5 an_id create_input])"
    by (simp add: enqueue_def newest_with_key_def empty_store_def store_of_def day_of_def create_input_def
        delete_input_def)
  then show ?thesis
    unfolding create_queued_def
    by (intro sys_step.enqueue [of _ an_id 5 create_input]) (simp_all add: init_system_def)
qed

lemma create_retried_reachable:
  "(sys_step run_env DEFAULTS day_text)\<^sup>*\<^sup>* (init_system [0] example_maintainer) create_retried"
  unfolding create_retried_def
  by (intro rtranclp_trans [OF _ task_run_step] rtranclp_trans [OF _ cycle_run_steps] r_into_rtranclp [where r = "sys_step run_env DEFAULTS day_text", OF create_queued_step])

lemma create_retried_calls:
  "map (\<lambda>x. (c_id (fst x), c_attempt_count (fst x))) (filter (\<lambda>x. is_create_call (snd x)) (sy_calls create_retried))
     = [(an_id, 0), (an_id, 1)]"
  by code_simp

theorem create_issued_once_per_attempt_witness:
  "distinct (map (\<lambda>x. (c_id (fst x), c_attempt_count (fst x)))
       (filter (\<lambda>x. is_create_call (snd x)) (sy_calls create_retried))) \<and>
   length (filter (\<lambda>x. is_create_call (snd x)) (sy_calls create_retried)) = 2"
proof -
  have "length (filter (\<lambda>x. is_create_call (snd x)) (sy_calls create_retried)) = 2"
    using arg_cong [OF create_retried_calls, of length] by simp
  with create_issued_once_per_attempt [OF create_retried_reachable [of "\<lambda>_. ''d''"]] show ?thesis by blast
qed

end
