(* ===== verification/Work_Ownership.thy ===== *)
theory Work_Ownership
  imports Create_Discipline
begin

text \<open>
  Who works on an operation. While the reaper spares the rows that live replicas work on, which is
  what its threshold is for, a running row has at most one replica behind it: the table and the replicas
  agree on every claimed operation, and attempts on one lane never overlap. \<open>late_requeue_takes_row\<close>
  shows what happens when the reaper is too early.
\<close>

section \<open>Work and its row\<close>

text \<open>The operations of a replica whose result is not yet written.\<close>

definition unfinished :: "(claimed_op \<times> task_state) list \<Rightarrow> claimed_op list" where
  "unfinished ts = map fst (filter (\<lambda>x. snd x \<noteq> Written) ts)"

definition work_of :: "'l disp \<Rightarrow> claimed_op list" where
  "work_of d = phase_claims (d_phase d) @ unfinished (d_tasks d)"

definition lane_of_claim :: "claimed_op \<Rightarrow> string \<times> string" where
  "lane_of_claim c = (c_instance_id c, c_lane_key c)"

text \<open>The table has the operation running, on its lane and at its attempt.\<close>

definition runs_as :: "op_row \<Rightarrow> claimed_op \<Rightarrow> bool" where
  "runs_as q c =
     (r_id q = c_id c \<and> r_status q = Pend RUNNING \<and> lane_of q = lane_of_claim c \<and>
      r_attempt_count q = c_attempt_count c)"

definition holds_row :: "op_store \<Rightarrow> claimed_op \<Rightarrow> bool" where
  "holds_row s c = (\<exists>q\<in>set (rows s). runs_as q c)"

definition owners_ok :: "'l system \<Rightarrow> bool" where
  "owners_ok w =
     (\<forall>r. distinct (map c_id (work_of (sy_replicas w r))) \<and>
        (\<forall>q. q \<noteq> r \<longrightarrow> c_id ` set (work_of (sy_replicas w r)) \<inter> c_id ` set (work_of (sy_replicas w q)) = {}) \<and>
        (\<forall>c\<in>set (work_of (sy_replicas w r)). holds_row (sy_store w) c))"

lemma owners_okD:
  assumes "owners_ok w"
  shows "distinct (map c_id (work_of (sy_replicas w r)))"
    "q \<noteq> r \<Longrightarrow> c_id ` set (work_of (sy_replicas w r)) \<inter> c_id ` set (work_of (sy_replicas w q)) = {}"
    "c \<in> set (work_of (sy_replicas w r)) \<Longrightarrow> holds_row (sy_store w) c"
  using assms unfolding owners_ok_def by blast+

text \<open>A reaper pass takes no row a replica still works on.\<close>

definition reaper_spares :: "'l system \<Rightarrow> 'l system \<Rightarrow> bool" where
  "reaper_spares w w' =
     (\<forall>r t. d_phase (sy_replicas w r) = Started t \<and> d_phase (sy_replicas w' r) = Reaped t \<longrightarrow>
        (\<forall>p. \<forall>c\<in>set (work_of (sy_replicas w p)). \<forall>q\<in>set (rows (sy_store w)).
           runs_as q c \<longrightarrow> q \<in> set (rows (sy_store w'))))"

inductive patient_step ::
  "'l disp_env \<Rightarrow> dispatcher_config \<Rightarrow> (int \<Rightarrow> string) \<Rightarrow> 'l system \<Rightarrow> 'l system \<Rightarrow> bool"
  for env dc day_text where
  patient: "sys_step env dc day_text w w' \<Longrightarrow> reaper_spares w w' \<Longrightarrow> patient_step env dc day_text w w'"

lemma patient_run: "(patient_step env dc day_text)\<^sup>*\<^sup>* w w' \<Longrightarrow> (sys_step env dc day_text)\<^sup>*\<^sup>* w w'"
  by (erule rtranclp_mono [THEN predicate2D, rotated]) (auto elim: patient_step.cases)

section \<open>Tasks\<close>

lemma unfinished_same:
  "t \<noteq> Written \<Longrightarrow> t' \<noteq> Written \<Longrightarrow> unfinished (replace_first (c, t) (c, t') ts) = unfinished ts"
  by (induction ts) (auto simp: unfinished_def)

lemma unfinished_written:
  "(c, t) \<in> set ts \<Longrightarrow> t \<noteq> Written \<Longrightarrow>
     mset (unfinished ts) = add_mset c (mset (unfinished (replace_first (c, t) (c, Written) ts)))"
  by (induction ts) (auto simp: unfinished_def)

lemma unfinished_settled: "unfinished (remove1 (c, Written) ts) = unfinished ts"
  by (induction ts) (auto simp: unfinished_def)

lemma work_keeps:
  assumes "keeps_tasks d d'" "distinct (map c_id (work_of d))"
  shows "distinct (map c_id (work_of d')) \<and> set (work_of d') \<subseteq> set (work_of d)"
  using assms unfolding keeps_tasks_def work_of_def insert_iff map_append distinct_append set_append
  by (elim conjE disjE) simp_all

section \<open>What a store change leaves of a running row\<close>

lemma holds_row_kept:
  "holds_row s c \<Longrightarrow> (\<And>q. q \<in> set (rows s) \<Longrightarrow> runs_as q c \<Longrightarrow> q \<in> set (rows t)) \<Longrightarrow> holds_row t c"
  unfolding holds_row_def by blast

lemma update_where_other: "q \<in> set (rows s) \<Longrightarrow> \<not> P q \<Longrightarrow> q \<in> set (rows (update_where P f s))"
  by (force simp: rows_update_where)

lemma enqueue_keeps_rows: "enqueue now i op s = Inr (res, s') \<Longrightarrow> set (rows s) \<subseteq> set (rows s')"
  by (erule enqueue_InrE) auto

lemma committed_keeps_running:
  assumes "store_inv s" "q \<in> set (rows s)" "r_status q = Pend RUNNING"
  shows "q \<in> set (rows (committed today m s))"
proof -
  have "q \<in> set (filter (\<lambda>r. \<not> terminal (r_status r)) (rows s))" using assms(2,3) by simp
  then have "q \<in> set (filter (\<lambda>r. \<not> terminal (r_status r)) (rows (committed today m s)))"
    using committed_keeps [OF assms(1)] by metis
  then show ?thesis by simp
qed

lemma claim_keeps_running:
  assumes "store_inv s" "q \<in> set (rows s)" "r_status q = Pend RUNNING"
  shows "q \<in> set (rows (snd (claimBatch now held l act av s)))"
  using assms(2,3)
  by (auto simp: claimBatch_def claim_commit_def Let_def locked_def claimable_def readback_due_def
      intro!: update_where_other)

lemma finalize_others:
  assumes "store_inv s" "q \<in> set (rows s)" "\<not> has_id i q"
  shows "q \<in> set (rows (snd (finalize now i x v e s)))"
  using assms(1)
proof (cases rule: finalize_dichotomy [where i = i and now = now and out = x and res = v and err = e])
  case (live r)
  then have "r_id q \<noteq> r_id r" using assms(3) by (simp add: has_id_def)
  then show ?thesis using live assms(2) by (force simp: finalized_store_def)
qed (use assms in simp)

lemma write_others:
  assumes "store_inv s" "q \<in> set (rows s)" "\<not> has_id (c_id c) q"
  shows "q \<in> set (rows (snd (write_task now dbnow fault c (Concluded t0 v) d s)))"
proof -
  have "q \<in> set (rows (snd (dispatch_finalize now dbnow fault c v d s)))"
    using assms finalize_others [OF assms]
    by (auto simp: dispatch_finalize_def safeRequeue_def requeue_def deferForReadback_def Let_def
        split: verdict.split option.split intro!: update_where_other)
  then show ?thesis by (auto simp: write_task_def write_back_def split: prod.splits)
qed

text \<open>The id of an operation that is worked on is a canonical uuid, so a statement finds its row alone.\<close>

lemma holds_row_id:
  assumes "store_inv s" "holds_row s c"
  shows "has_id (c_id c) q \<longleftrightarrow> r_id q = c_id c"
proof -
  have "id_ok (c_id c)" using assms(2) inv_row [OF assms(1)] by (fastforce simp: holds_row_def runs_as_def)
  then show ?thesis by (auto simp: has_id_def id_ok_def)
qed

section \<open>Ownership is passed on\<close>

text \<open>A step of one replica \<open>r\<close> that ends with the state \<open>d\<close>: what it works on it worked on before, or has just
  taken from a row that nobody ran.\<close>

lemma owners_step:
  assumes ok: "owners_ok w" and inv: "store_inv (sy_store w)"
    and reps: "\<And>q. sy_replicas w' q = (if q = r then d else sy_replicas w q)"
    and dist: "distinct (map c_id (work_of d))"
    and from_where: "\<And>c. c \<in> set (work_of d) \<Longrightarrow> c \<in> set (work_of (sy_replicas w r)) \<or>
      (\<forall>q\<in>set (rows (sy_store w)). r_id q = c_id c \<longrightarrow> r_status q \<noteq> Pend RUNNING)"
    and mine: "\<And>c. c \<in> set (work_of d) \<Longrightarrow> holds_row (sy_store w') c"
    and others: "\<And>p c. p \<noteq> r \<Longrightarrow> c \<in> set (work_of (sy_replicas w p)) \<Longrightarrow> holds_row (sy_store w') c"
  shows "owners_ok w'"
proof -
  note w = owners_okD [OF ok]
  have sep: "c_id c \<noteq> c_id c'" if "p \<noteq> r" "c \<in> set (work_of d)" "c' \<in> set (work_of (sy_replicas w p))" for p c c'
  proof -
    have "\<exists>q\<in>set (rows (sy_store w)). r_id q = c_id c' \<and> r_status q = Pend RUNNING"
      using w(3) [OF that(3)] by (auto simp: holds_row_def runs_as_def)
    then show ?thesis using from_where [OF that(2)] w(2) [OF that(1)] that(3) by fastforce
  qed
  have apart: "c_id ` set (work_of d) \<inter> c_id ` set (work_of (sy_replicas w p)) = {}" if "p \<noteq> r" for p
    using sep [OF that] by blast
  show ?thesis unfolding owners_ok_def
  proof (intro conjI allI ballI impI)
    fix p
    show "distinct (map c_id (work_of (sy_replicas w' p)))" using w(1) dist by (simp add: reps)
    show "c_id ` set (work_of (sy_replicas w' p)) \<inter> c_id ` set (work_of (sy_replicas w' q)) = {}" if "q \<noteq> p" for q
    proof (cases "p = r")
      case False
      then show ?thesis using w(2) [OF that] apart [of p] by (auto simp: reps)
    qed (use apart [of q] that in \<open>simp add: reps\<close>)
    show "holds_row (sy_store w') c" if "c \<in> set (work_of (sy_replicas w' p))" for c
      using mine others [of p] that by (auto simp: reps split: if_splits)
  qed
qed

lemma owners_keep_rows:
  assumes ok: "owners_ok w" and inv: "store_inv (sy_store w)"
    and reps: "\<And>q. sy_replicas w' q = (if q = r then d else sy_replicas w q)"
    and work: "distinct (map c_id (work_of d)) \<and> set (work_of d) \<subseteq> set (work_of (sy_replicas w r))"
    and kept: "\<And>p c q. c \<in> set (work_of (sy_replicas w p)) \<Longrightarrow> q \<in> set (rows (sy_store w)) \<Longrightarrow> runs_as q c \<Longrightarrow>
      q \<in> set (rows (sy_store w'))"
  shows "owners_ok w'"
proof (rule owners_step [OF ok inv reps])
  show "holds_row (sy_store w') c" if "c \<in> set (work_of d)" for c
    using holds_row_kept [OF owners_okD(3) [OF ok]] kept work that by blast
  show "holds_row (sy_store w') c" if "c \<in> set (work_of (sy_replicas w p))" for p c
    using holds_row_kept [OF owners_okD(3) [OF ok that]] kept [OF that] by blast
qed (use work in blast)+

lemma owners_replica:
  assumes "owners_ok w" "store_inv (sy_store w)"
    "distinct (map c_id (work_of d)) \<and> set (work_of d) \<subseteq> set (work_of (sy_replicas w r))"
  shows "owners_ok (set_replica r d w)"
  by (rule owners_keep_rows [OF assms(1,2) _ assms(3)]) (simp_all add: set_replica_def)

lemma owners_keeps:
  "owners_ok w \<Longrightarrow> store_inv (sy_store w) \<Longrightarrow> keeps_tasks (sy_replicas w r) d \<Longrightarrow> owners_ok (set_replica r d w)"
  using owners_replica work_keeps owners_okD(1) by blast

lemma owners_store:
  assumes ok: "owners_ok w" and inv: "store_inv (sy_store w)" and reps: "sy_replicas w' = sy_replicas w"
    and kept: "\<And>q. q \<in> set (rows (sy_store w)) \<Longrightarrow> r_status q = Pend RUNNING \<Longrightarrow> q \<in> set (rows (sy_store w'))"
  shows "owners_ok w'"
  by (rule owners_keep_rows [OF ok inv, where r = 0 and d = "sy_replicas w 0"])
    (use reps kept owners_okD(1) [OF ok] in \<open>auto simp: runs_as_def\<close>)

lemma claimed_holds:
  assumes inv: "store_inv s" and c: "c \<in> set (fst (claimBatch now held l act av s))"
  shows "holds_row (snd (claimBatch now held l act av s)) c"
    and "q \<in> set (rows s) \<Longrightarrow> r_id q = c_id c \<Longrightarrow> r_status q \<noteq> Pend RUNNING"
proof -
  obtain r where r: "r \<in> set (claimed_rows now held l act av s)" "c = to_claimed r"
    using c by (auto simp: claimBatch_fst)
  have cand: "r \<in> set (rows s)" "claimable now r"
    using claimed_rows_picked [OF inv r(1)] picked_candidate by (auto simp: lane_candidates_iff)
  have "mark_running now r \<in> set (rows (snd (claimBatch now held l act av s)))"
    using r(1) cand(1)
    by (auto simp: claimBatch_def claimed_rows_def claim_commit_def Let_def rows_update_where split: if_splits)
  moreover have "runs_as (mark_running now r) c"
    by (simp add: r(2) runs_as_def mark_running_def to_claimed_def lane_of_claim_def lane_of_def)
  ultimately show "holds_row (snd (claimBatch now held l act av s)) c" by (auto simp: holds_row_def)
  show "r_status q \<noteq> Pend RUNNING" if "q \<in> set (rows s)" "r_id q = c_id c"
  proof -
    have "q = r" using inv_same_id [OF inv that(1) cand(1)] that(2) r(2) by (simp add: to_claimed_def)
    then show ?thesis using cand(2) by (auto simp: claimable_def readback_due_def)
  qed
qed

lemma claimed_ids_distinct:
  assumes "store_inv s"
  shows "distinct (map c_id (fst (claimBatch now held l act av s)))"
proof -
  have "inj_on (\<lambda>r. c_id (to_claimed r)) (set (claimed_rows now held l act av s))"
    using inv_same_id [OF assms]
    by (auto simp: inj_on_def to_claimed_def claimed_rows_def Let_def split: if_splits)
  then show ?thesis using claimed_rows_distinct [OF assms] by (simp add: claimBatch_fst distinct_map comp_def)
qed

section \<open>Along a patient run\<close>

lemma claim_phase_owners:
  assumes ok: "owners_ok w" and inv: "store_inv (sy_store w)"
  shows "owners_ok (set_both r (claim_phase dc now dbnow held fault (sy_replicas w r) (sy_store w)) w)"
proof (cases "fault = None \<and> (\<exists>t av. d_phase (sy_replicas w r) = Ready t av)")
  case False
  let ?x = "claim_phase dc now dbnow held fault (sy_replicas w r) (sy_store w)"
  have "snd ?x = sy_store w" using False by (auto simp: claim_phase_def split: cycle_phase.split prod.split)
  then have "set_both r ?x w = set_replica r (fst ?x) w" by (simp add: set_both_def set_replica_def)
  then show ?thesis using owners_keeps [OF ok inv claim_phase_keeps [OF False]] by metis
next
  case True
  let ?d = "sy_replicas w r" and ?s = "sy_store w"
  obtain t av where p: "d_phase ?d = Ready t av" "fault = None" using True by blast
  define x where "x = excludedLanes now ?d"
  have t: "d_tasks (snd x) = d_tasks ?d" by (simp add: x_def excludedLanes_def Let_def prune_deferred_def)
  obtain cs s' where cl: "claimBatch dbnow held (claimBatchSize dc) (fst x) av ?s = (cs, s')" by fastforce
  define d' where "d' = (snd x)\<lparr>d_phase := Claimed t cs\<rparr>"
  have eq: "claim_phase dc now dbnow held fault ?d ?s = (d', s')"
    using p cl by (cases x) (simp add: claim_phase_def x_def [symmetric] d'_def)
  have work: "work_of d' = cs @ work_of ?d"
    using t p by (simp add: d'_def work_of_def phase_claims_def)
  have new: "holds_row s' c" "\<forall>q\<in>set (rows ?s). r_id q = c_id c \<longrightarrow> r_status q \<noteq> Pend RUNNING" if "c \<in> set cs" for c
    using claimed_holds [OF inv, of c dbnow held "claimBatchSize dc" "fst x" av] that cl by auto
  have old: "holds_row s' c" if "c \<in> set (work_of (sy_replicas w p))" for p c
    using holds_row_kept [OF owners_okD(3) [OF ok that]] claim_keeps_running [OF inv] cl
    by (metis runs_as_def snd_conv)
  have "c_id ` set cs \<inter> c_id ` set (work_of ?d) = {}"
  proof -
    have "c_id c \<noteq> c_id c'" if "c \<in> set cs" "c' \<in> set (work_of ?d)" for c c'
      using new(2) [OF that(1)] owners_okD(3) [OF ok that(2)] by (auto simp: holds_row_def runs_as_def)
    then show ?thesis by blast
  qed
  then have dist: "distinct (map c_id (work_of d'))"
    using claimed_ids_distinct [OF inv, of dbnow held "claimBatchSize dc" "fst x" av] cl owners_okD(1) [OF ok, of r]
    by (simp add: work)
  show ?thesis unfolding eq
    by (rule owners_step [OF ok inv _ dist])
      (use new old in \<open>auto simp: set_both_def set_replica_def work\<close>)
qed

lemma register_phase_work: "mset (work_of (snd (register_phase now d))) = mset (work_of d)"
  by (cases "d_phase d")
    (simp_all add: register_phase_def work_of_def phase_claims_def register_tasks_list measure_out_def
      unfinished_def comp_def)

lemma mset_work:
  assumes "mset (work_of d') = mset (work_of d)" "distinct (map c_id (work_of d))"
  shows "distinct (map c_id (work_of d')) \<and> set (work_of d') \<subseteq> set (work_of d)"
  using assms mset_eq_setD [OF assms(1)] by (metis mset_eq_imp_distinct_iff mset_map order_refl)

lemma attempt_task_work:
  assumes "attempt_task env dc now acq c d = (calls, d')"
  shows "work_of d' = work_of d"
proof -
  obtain t d1 where eq: "conclude env dc now acq c d = (calls, t, d1)"
    "d' = d1\<lparr>d_tasks := replace_first (c, Dispatched) (c, t) (d_tasks d1)\<rparr>"
    using assms by (auto simp: attempt_task_def split: prod.splits)
  have "t \<noteq> Written" "d_tasks d1 = d_tasks d" "d_phase d1 = d_phase d"
    using eq(1) by (auto simp: conclude_def log_error_def split: sum.splits prod.splits)
  then show ?thesis by (simp add: eq(2) work_of_def unfinished_same)
qed

lemma write_task_work:
  assumes "(c, Concluded t0 v) \<in> set (d_tasks d)"
  shows "mset (work_of d) = add_mset c (mset (work_of (fst (write_task now dbnow fault c (Concluded t0 v) d s))))"
proof -
  obtain d1 s1 where w: "write_back now dbnow fault c (Concluded t0 v) d s = (d1, s1)" by fastforce
  have "same_core d d1" using write_back_core [of d now dbnow fault c "Concluded t0 v" s] w by simp
  then show ?thesis using unfinished_written [OF assms]
    by (simp add: write_task_def w work_of_def same_core_def)
qed

lemma write_result_owners:
  assumes ok: "owners_ok w" and inv: "store_inv (sy_store w)"
    and c: "(c, Concluded t0 v) \<in> set (d_tasks (sy_replicas w r))"
  shows "owners_ok (set_both r (write_task now dbnow fault c (Concluded t0 v) (sy_replicas w r) (sy_store w)) w)"
proof -
  let ?x = "write_task now dbnow fault c (Concluded t0 v) (sy_replicas w r) (sy_store w)"
  note m = write_task_work [OF c, of now dbnow fault "sy_store w"]
  have sub: "set (work_of (fst ?x)) \<subseteq> set (work_of (sy_replicas w r))" and mine: "c \<in> set (work_of (sy_replicas w r))"
    using arg_cong [OF m, of set_mset] by auto
  have "mset (map c_id (work_of (sy_replicas w r))) = mset (c_id c # map c_id (work_of (fst ?x)))" using m by simp
  then have d: "distinct (c_id c # map c_id (work_of (fst ?x)))"
    using owners_okD(1) [OF ok, of r] mset_eq_imp_distinct_iff by blast
  have kept: "holds_row (snd ?x) c'" if "holds_row (sy_store w) c'" "c_id c' \<noteq> c_id c" for c'
    using that(1)
  proof (rule holds_row_kept)
    show "q \<in> set (rows (snd ?x))" if "q \<in> set (rows (sy_store w))" "runs_as q c'" for q
      by (rule write_others [OF inv that(1)])
        (use that(2) \<open>c_id c' \<noteq> c_id c\<close> holds_row_id [OF inv owners_okD(3) [OF ok mine]] in \<open>simp add: runs_as_def\<close>)
  qed
  show ?thesis
  proof (rule owners_step [OF ok inv])
    show "distinct (map c_id (work_of (fst ?x)))" using d by simp
    show "holds_row (sy_store (set_both r ?x w)) c'" if "c' \<in> set (work_of (fst ?x))" for c'
    proof -
      have "c_id c' \<noteq> c_id c" using d that by (simp only: list.map distinct.simps set_map) (metis imageI)
      moreover have "holds_row (sy_store w) c'" using owners_okD(3) [OF ok] sub that by blast
      ultimately show ?thesis using kept by (simp add: set_both_def)
    qed
    show "holds_row (sy_store (set_both r ?x w)) c'" if "p \<noteq> r" "c' \<in> set (work_of (sy_replicas w p))" for p c'
      using kept [OF owners_okD(3) [OF ok that(2)]] owners_okD(2) [OF ok that(1)] mine that(2)
      by (force simp: set_both_def)
  qed (use sub in \<open>auto simp: set_both_def set_replica_def\<close>)
qed

lemma sys_step_owners:
  assumes step: "sys_step env dc day_text w w'" and spares: "reaper_spares w w'"
    and sys: "sys_ok env w" and ok: "owners_ok w"
  shows "owners_ok w'"
proof -
  note w = sys_okD [OF sys]
  note keeps = owners_keeps [OF ok w(1)] and replica = owners_replica [OF ok w(1)]
  show ?thesis
    using step
  proof cases
    case (enqueue i now op res s')
    show ?thesis by (rule owners_store [OF ok w(1)]) (use enqueue(1) enqueue_keeps_rows [OF enqueue(3)] in auto)
  next
    case (maintain now fault' res' m' s')
    have "s' = (if pm_stopped (sy_maintainer w) \<or> fault' \<noteq> None then sy_store w
        else committed (day_of now) (sy_maintainer w) (sy_store w))"
      using runPass_store [of day_text now fault' "sy_maintainer w" "sy_store w"] maintain(2) by simp
    then show ?thesis using owners_store [OF ok w(1)] committed_keeps_running [OF w(1)] maintain(1) by simp
  next
    case (start r)
    then show ?thesis using keeps [OF keeps_tasks_core, OF core_simps(5)] by blast
  next
    case (stop r)
    then show ?thesis using keeps [OF keeps_tasks_core, OF core_simps(6)] by blast
  next
    case (cycle r now)
    then show ?thesis using keeps [OF begin_cycle_keeps] by blast
  next
    case (reap r now dbnow fault acq)
    let ?x = "reap_phase env dc now dbnow fault acq (sy_replicas w r) (sy_store w)"
    show ?thesis
    proof (rule owners_keep_rows [OF ok w(1)])
      show "q \<in> set (rows (sy_store w'))"
        if "c \<in> set (work_of (sy_replicas w p))" "q \<in> set (rows (sy_store w))" "runs_as q c" for p c q
      proof (cases "\<exists>t. d_phase (sy_replicas w r) = Started t")
        case True
        then obtain t where t: "d_phase (sy_replicas w r) = Started t" by blast
        then have "d_phase (sy_replicas w' r) = Reaped t"
          by (simp add: reap(1) set_both_def set_replica_def reap_phase_def split: prod.split)
        with t spares that show ?thesis unfolding reaper_spares_def by blast
      next
        case False
        then have "snd ?x = sy_store w" by (simp add: reap_phase_def split: cycle_phase.split)
        with that(2) show ?thesis by (simp add: reap(1) set_both_def)
      qed
    qed (use work_keeps [OF reap_phase_keeps owners_okD(1) [OF ok]] in \<open>simp_all add: reap(1) set_both_def set_replica_def\<close>)
  next
    case (offer r now faults)
    then show ?thesis using keeps [OF availability_phase_keeps [OF w(3)]] by blast
  next
    case (claim r now dbnow held fault)
    then show ?thesis using claim_phase_owners [OF ok w(1)] by blast
  next
    case (register r now)
    then show ?thesis using replica [OF mset_work [OF register_phase_work owners_okD(1) [OF ok]]] by blast
  next
    case (attempt c r now acquire calls d')
    have "owners_ok (set_replica r d' w)"
      by (rule replica) (simp add: attempt_task_work [OF attempt(3)] owners_okD(1) [OF ok])
    then show ?thesis by (simp add: attempt(1) owners_ok_def)
  next
    case (write_result c t0 v r now dbnow fault)
    then show ?thesis using write_result_owners [OF ok w(1) write_result(2)] by blast
  next
    case (settle c r)
    have "work_of (settle_task c (sy_replicas w r)) = work_of (sy_replicas w r)"
      by (simp add: work_of_def settle_task_def unfinished_settled)
    with settle show ?thesis using replica [of "settle_task c (sy_replicas w r)" r] owners_okD(1) [OF ok, of r] by simp
  next
    case (crash r)
    have "work_of (new_dispatcher :: 'a disp) = []"
      by (simp add: work_of_def new_dispatcher_def phase_claims_def unfinished_def)
    with crash show ?thesis using replica [of new_dispatcher r] by simp
  qed
qed

lemma init_owners_ok: "owners_ok (init_system days m)"
  by (simp add: owners_ok_def init_system_def work_of_def new_dispatcher_def phase_claims_def unfinished_def)

lemma patient_invariants:
  assumes "(patient_step env dc day_text)\<^sup>*\<^sup>* w w'" "sys_ok env w" "owners_ok w"
  shows "sys_ok env w' \<and> owners_ok w'"
  using assms
proof (induction rule: rtranclp_induct)
  case (step u v)
  from step(2) have "sys_step env dc day_text u v" "reaper_spares u v" by (auto elim: patient_step.cases)
  with step show ?case using sys_step_ok sys_step_owners by blast
qed simp

section \<open>One replica at work on a lane\<close>


section \<open>A patient run\<close>

text \<open>No step but a reaper pass moves a replica from \<open>Started\<close> to \<open>Reaped\<close>.\<close>

lemma spares_replica:
  assumes "sy_replicas w' = (sy_replicas w)(k := d)"
    "\<And>t. d_phase (sy_replicas w k) = Started t \<Longrightarrow> d_phase d \<noteq> Reaped t"
  shows "reaper_spares w w'"
  using assms by (auto simp: reaper_spares_def split: if_splits)

lemma spares_idle:
  assumes "\<And>p. work_of (sy_replicas w p) = []"
  shows "reaper_spares w w'"
  using assms by (simp add: reaper_spares_def)

lemma patient_replica:
  "sys_step env dc day_text w (set_replica k d w) \<Longrightarrow>
     (\<And>t. d_phase (sy_replicas w k) = Started t \<Longrightarrow> d_phase d \<noteq> Reaped t) \<Longrightarrow>
     patient_step env dc day_text w (set_replica k d w)"
  by (rule patient_step.patient, assumption, rule spares_replica) (simp add: set_replica_def, blast)

lemma idle_replaced:
  "work_of d = [] \<Longrightarrow> (\<And>p. work_of (sy_replicas w p) = []) \<Longrightarrow> work_of (sy_replicas (set_replica k d w) p) = []"
  "work_of (fst x) = [] \<Longrightarrow> (\<And>p. work_of (sy_replicas w p) = []) \<Longrightarrow> work_of (sy_replicas (set_both k x w) p) = []"
  by (simp_all add: set_both_def set_replica_def)

lemma work_nil: "keeps_tasks d d' \<Longrightarrow> work_of d = [] \<Longrightarrow> work_of d' = []"
  by (auto simp: keeps_tasks_def work_of_def)

lemma cycle_run_patient:
  assumes idle: "\<And>p. work_of (sy_replicas w p) = []" and ok: "sys_ok run_env w"
  shows "(patient_step run_env DEFAULTS day_text)\<^sup>*\<^sup>* w (cycle_run k t w)"
proof -
  define w1 where "w1 = set_replica k (begin_cycle t (sy_replicas w k)) w"
  define w2 where "w2 = set_both k (reap_phase run_env DEFAULTS t (us_of_ms t) None True (sy_replicas w1 k) (sy_store w1)) w1"
  define w3 where "w3 = set_replica k (availability_phase run_env t (\<lambda>_. None) (sy_store w2) (sy_replicas w2 k)) w2"
  define w4 where "w4 = set_both k (claim_phase DEFAULTS t (us_of_ms t) [] None (sy_replicas w3 k) (sy_store w3)) w3"
  have steps: "sys_step run_env DEFAULTS day_text w w1" "sys_step run_env DEFAULTS day_text w1 w2"
    "sys_step run_env DEFAULTS day_text w2 w3" "sys_step run_env DEFAULTS day_text w3 w4"
    "sys_step run_env DEFAULTS day_text w4 (cycle_run k t w)"
    unfolding w1_def w2_def w3_def w4_def cycle_run_def Let_def
    by (rule sys_step.cycle sys_step.reap sys_step.offer sys_step.claim sys_step.register)+
  have ok2: "disp_ok run_env (sy_replicas w2 k)"
    by (rule sys_okD(3) [OF sys_step_ok [OF steps(2) sys_step_ok [OF steps(1) ok]]])
  have i1: "work_of (sy_replicas w1 p) = []" for p
    unfolding w1_def by (rule idle_replaced(1) [OF work_nil [OF begin_cycle_keeps idle] idle])
  have i2: "work_of (sy_replicas w2 p) = []" for p
    unfolding w2_def by (rule idle_replaced(2) [OF work_nil [OF reap_phase_keeps i1] i1])
  have i3: "work_of (sy_replicas w3 p) = []" for p
    unfolding w3_def by (rule idle_replaced(1) [OF work_nil [OF availability_phase_keeps [OF ok2] i2] i2])
  have cyc: "cycle_run k t w = set_replica k (snd (register_phase t (sy_replicas w4 k))) w4"
    by (simp only: cycle_run_def Let_def w4_def w3_def w2_def w1_def)
  have s5: "reaper_spares w4 (cycle_run k t w)"
  proof (rule spares_replica)
    show "sy_replicas (cycle_run k t w) = (sy_replicas w4)(k := snd (register_phase t (sy_replicas w4 k)))"
      by (simp only: cyc) (simp add: set_replica_def)
    show "d_phase (snd (register_phase t (sy_replicas w4 k))) \<noteq> Reaped t'" if "d_phase (sy_replicas w4 k) = Started t'" for t'
      using that by (simp add: register_phase_def)
  qed
  note p = patient_step.patient [OF steps(1) spares_idle [OF idle]] patient_step.patient [OF steps(2) spares_idle [OF i1]]
    patient_step.patient [OF steps(3) spares_idle [OF i2]] patient_step.patient [OF steps(4) spares_idle [OF i3]]
    patient_step.patient [OF steps(5) s5]
  note into = rtranclp.rtrancl_into_rtrancl
  show ?thesis
    by (rule into [OF into [OF into [OF into [OF r_into_rtranclp [of "patient_step run_env DEFAULTS day_text",
      OF p(1)] p(2)] p(3)] p(4)] p(5)])
qed

lemma task_step_phase:
  "attempt_task env dc now acq c d = (calls, d') \<Longrightarrow> d_phase d' = d_phase d"
  "d_phase (fst (write_task now dbnow fault c (Concluded t0 v) d s)) = d_phase d"
  "d_phase (settle_task c d) = d_phase d"
proof -
  show "d_phase d' = d_phase d" if "attempt_task env dc now acq c d = (calls, d')"
    using that by (auto simp: attempt_task_def conclude_def log_error_def split: sum.splits prod.splits)
  obtain d1 s1 where w: "write_back now dbnow fault c (Concluded t0 v) d s = (d1, s1)" by fastforce
  have "same_core d d1" using write_back_core [of d now dbnow fault c "Concluded t0 v" s] w by simp
  then show "d_phase (fst (write_task now dbnow fault c (Concluded t0 v) d s)) = d_phase d"
    by (simp add: write_task_def w same_core_def)
qed (simp add: settle_task_def)

lemma task_run_replicas: "\<exists>d. sy_replicas (task_run k t fac w) = (sy_replicas w)(k := d) \<and> d_phase d = d_phase (sy_replicas w k)"
proof (cases "d_tasks (sy_replicas w k)")
  case Nil
  then show ?thesis by (simp add: task_run_def) (metis fun_upd_triv)
next
  case (Cons x xs)
  obtain c st where x: "x = (c, st)" by fastforce
  show ?thesis
  proof (cases st)
    case Dispatched
    obtain calls d where "attempt_task run_env DEFAULTS t (Inr fac) c (sy_replicas w k) = (calls, d)" by fastforce
    then show ?thesis using Cons x Dispatched task_step_phase(1) by (fastforce simp: task_run_def set_replica_def)
  next
    case (Concluded t0 v)
    then show ?thesis using Cons x task_step_phase(2) by (fastforce simp: task_run_def set_replica_def set_both_def)
  next
    case Written
    then show ?thesis using Cons x task_step_phase(3) by (fastforce simp: task_run_def set_replica_def)
  qed
qed

lemma task_run_patient: "(patient_step run_env DEFAULTS day_text)\<^sup>*\<^sup>* w (task_run k t fac w)"
proof -
  obtain d where d: "sy_replicas (task_run k t fac w) = (sy_replicas w)(k := d)" "d_phase d = d_phase (sy_replicas w k)"
    using task_run_replicas by blast
  have spares: "reaper_spares w (task_run k t fac w)" by (rule spares_replica [OF d(1)]) (simp add: d(2))
  show ?thesis
  proof (cases rule: task_run_cases [of day_text w k t fac])
    case step
    then show ?thesis using patient_step.patient [OF _ spares] by (intro r_into_rtranclp)
  qed simp
qed

lemma run_others:
  "p \<noteq> k \<Longrightarrow> sy_replicas (cycle_run k t w) p = sy_replicas w p"
  "p \<noteq> k \<Longrightarrow> sy_replicas (task_run k t fac w) p = sy_replicas w p"
  using task_run_replicas [of k t fac w] by (auto simp: cycle_run_def Let_def set_replica_def set_both_def)

definition create_once :: "unit system" where
  "create_once = task_run 0 30 busy_facade (task_run 0 20 busy_facade (task_run 0 10 busy_facade
     (cycle_run 0 5 create_queued)))"

lemma idle_elsewhere: "p \<noteq> 0 \<Longrightarrow> work_of (sy_replicas create_once p) = []" "work_of (sy_replicas create_queued p) = []"
  by (simp_all add: create_once_def run_others create_queued_def init_system_def work_of_def new_dispatcher_def
      phase_claims_def unfinished_def)

lemma create_once_idle: "work_of (sy_replicas create_once 0) = []"
  by code_simp

lemma create_queued_patient:
  "(patient_step run_env DEFAULTS day_text)\<^sup>*\<^sup>* (init_system [0] example_maintainer) create_queued"
proof -
  have "reaper_spares (init_system [0] example_maintainer :: unit system) create_queued"
    by (rule spares_idle) (simp add: init_system_def work_of_def new_dispatcher_def phase_claims_def unfinished_def)
  from patient_step.patient [OF create_queued_step this] show ?thesis by (rule r_into_rtranclp)
qed

lemma create_retried_patient:
  "(patient_step run_env DEFAULTS day_text)\<^sup>*\<^sup>* (init_system [0] example_maintainer) create_retried"
proof -
  note ok = reachable_ok [OF patient_run init_system_ok]
  have once: "(patient_step run_env DEFAULTS day_text)\<^sup>*\<^sup>* (init_system [0] example_maintainer) create_once"
    unfolding create_once_def
    by (intro rtranclp_trans [OF _ task_run_patient]
        rtranclp_trans [OF create_queued_patient cycle_run_patient [OF idle_elsewhere(2) ok [OF create_queued_patient]]])
  have idle: "work_of (sy_replicas create_once p) = []" for p
    using idle_elsewhere(1) create_once_idle by (cases "p = 0") auto
  have eq: "create_retried = task_run 0 70000 busy_facade (cycle_run 0 70000 create_once)"
    by (simp only: create_retried_def create_once_def)
  show ?thesis unfolding eq
    by (intro rtranclp_trans [OF _ task_run_patient] rtranclp_trans [OF once cycle_run_patient [OF idle ok [OF once]]])
qed


section \<open>When the reaper is too early\<close>

text \<open>An attempt of replica 0 outlives the threshold. Replica 1 reaps the row and takes it; the requeue of
  replica 0, which asks for a running row and not for its own, gives it back under replica 1; and
  replica 2 claims it: two replicas work on one lane.\<close>

definition delete_queued :: "unit system" where
  "delete_queued = (init_system [0] example_maintainer)\<lparr>sy_store := store_of [new_row 5 an_id delete_input]\<rparr>"

definition late_requeue :: "unit system" where
  "late_requeue = cycle_run 2 700002 (task_run 0 700001 busy_facade (cycle_run 1 700000
     (task_run 0 10 busy_facade (cycle_run 0 5 delete_queued))))"

lemma late_requeue_takes_row:
  "(sys_step run_env DEFAULTS day_text)\<^sup>*\<^sup>* delete_queued late_requeue \<and>
   map (\<lambda>c. (lane_of_claim c, c_attempt_count c)) (work_of (sy_replicas late_requeue 1)) = [((''ad'', ''uid:user:u1''), 0)] \<and>
   map (\<lambda>c. (lane_of_claim c, c_attempt_count c)) (work_of (sy_replicas late_requeue 2)) = [((''ad'', ''uid:user:u1''), 1)]"
proof (intro conjI)
  show "(sys_step run_env DEFAULTS day_text)\<^sup>*\<^sup>* delete_queued late_requeue"
    unfolding late_requeue_def
    by (intro rtranclp_trans [OF _ cycle_run_steps] rtranclp_trans [OF _ task_run_step] cycle_run_steps)
qed code_simp+

end
