(* ===== verification/Attempt_Bounds.thy ===== *)
theory Attempt_Bounds
  imports Work_Ownership
begin

text \<open>
  The attempt counter of a row is raised by a requeue only, and only by the replica that owns the row, so
  the retry rule of one attempt bounds the retries of a whole run: no counter reaches the configured
  maximum, and no more creates than that are ever sent for one operation.
\<close>

section \<open>One attempt\<close>

lemma attempt_requeue_bound:
  assumes eq: "attempt dc caps now fac c runtime = (calls, r)" and assms: "rs_outcome r = REQUEUE" "1 < maxAttempts dc"
  shows "int (c_attempt_count c) + 1 < maxAttempts dc"
proof -
  show ?thesis using eq
  proof (cases rule: attempt_cases)
    case (resumed cfg)
    then show ?thesis using assms eq
      by (auto simp: resumeReadBack_def Let_def split: option.splits sum.splits if_splits)
  next
    case (create cfg)
    then show ?thesis using assms eq
      by (auto simp: attemptCreate_def resolveCreateAfterDeadline_def backoffOrGiveUp_def Let_def
          split: sum.splits if_splits)
  next
    case (update cfg opts attrs)
    then show ?thesis using assms eq
      by (auto simp: attemptUpdate_def backoffOrGiveUp_def Let_def split: sum.splits if_splits)
  next
    case (delete cfg opts)
    then show ?thesis using assms eq
      by (auto simp: attemptDelete_def backoffOrGiveUp_def Let_def split: sum.splits if_splits)
  next
    case (delta cfg opts attrs)
    then show ?thesis using assms eq
      by (auto simp: attemptDelta_def backoffOrGiveUp_def Let_def split: option.splits sum.splits if_splits)
  qed (use assms eq in auto)
qed

fun retry_ok :: "dispatcher_config \<Rightarrow> claimed_op \<times> task_state \<Rightarrow> bool" where
  "retry_ok dc (c, Concluded t0 v) = (rs_outcome v = REQUEUE \<longrightarrow> int (c_attempt_count c) + 1 < maxAttempts dc)"
| "retry_ok dc (c, t) = True"

lemma conclude_retry:
  assumes "conclude env dc now acq c d = (calls, t, d')" "1 < maxAttempts dc"
  shows "retry_ok dc (c, t)"
  using assms(1) attempt_requeue_bound [OF _ _ assms(2)]
  by (auto simp: conclude_def acquire_failed_def dispatch_error_def split: sum.splits prod.splits)

definition attempts_ok :: "dispatcher_config \<Rightarrow> 'l system \<Rightarrow> bool" where
  "attempts_ok dc w =
     ((\<forall>q\<in>set (rows (sy_store w)). int (r_attempt_count q) < maxAttempts dc) \<and>
      (\<forall>r. \<forall>x\<in>set (d_tasks (sy_replicas w r)). retry_ok dc x) \<and>
      (\<forall>x\<in>set (sy_calls w). int (c_attempt_count (fst x)) < maxAttempts dc))"

lemma update_where_counts:
  "(\<And>q. P q \<Longrightarrow> r_attempt_count (f q) = r_attempt_count q) \<Longrightarrow>
     r_attempt_count ` set (rows (update_where P f s)) = r_attempt_count ` set (rows s)"
  unfolding rows_update_where set_map image_image by (rule image_cong) simp_all

text \<open>Only a requeue raises a counter.\<close>

lemma claim_counts: "r_attempt_count ` set (rows (snd (claimBatch now held l act av s))) = r_attempt_count ` set (rows s)"
  by (simp add: claimBatch_def claim_commit_def Let_def mark_running_def update_where_counts)

lemma reap_counts: "r_attempt_count ` set (rows (snd (reapStale now acq th d s))) = r_attempt_count ` set (rows s)"
  by (simp add: reapStale_def Let_def reap_creates_def reap_others_def update_where_counts)

lemma finalize_counts:
  assumes "store_inv s"
  shows "r_attempt_count ` set (rows (snd (finalize now i x v e s))) = r_attempt_count ` set (rows s)"
  using assms
proof (cases rule: finalize_dichotomy [where i = i and now = now and out = x and res = v and err = e])
  case (live r)
  have m: "rows (finalized_store now x v e r s) = map (\<lambda>q. if q = r then finalize_row now x v e r else q) (rows s)"
    by (simp add: finalized_store_def)
  have "r_attempt_count ` set (rows (finalized_store now x v e r s)) = r_attempt_count ` set (rows s)"
    unfolding m set_map image_image by (rule image_cong) (auto simp: finalize_row_def)
  with live(5) show ?thesis by simp
qed simp

lemma enqueue_counts:
  "enqueue now i op s = Inr (res, s') \<Longrightarrow> r_attempt_count ` set (rows s') \<subseteq> insert 0 (r_attempt_count ` set (rows s))"
  by (erule enqueue_InrE) (auto simp: new_row_def)

lemma write_counts:
  assumes inv: "store_inv s" and holds: "holds_row s c"
    and n: "n \<in> r_attempt_count ` set (rows (snd (write_task now dbnow fault c (Concluded t0 v) d s)))"
  shows "n \<in> r_attempt_count ` set (rows s) \<or> rs_outcome v = REQUEUE \<and> n = c_attempt_count c + 1"
proof -
  have n': "n \<in> r_attempt_count ` set (rows (snd (dispatch_finalize now dbnow fault c v d s)))"
    using n by (simp add: write_task_def write_back_def split: prod.splits)
  show ?thesis
  proof (cases "fault = None \<and> rs_outcome v = REQUEUE")
    case True
    then have s': "snd (dispatch_finalize now dbnow fault c v d s) = snd (requeue (c_id c) s)"
      by (simp add: dispatch_finalize_def safeRequeue_def Let_def)
    have "r_attempt_count q = c_attempt_count c" if q: "q \<in> set (rows s)" "has_id (c_id c) q" for q
    proof -
      obtain p where p: "p \<in> set (rows s)" "runs_as p c" using holds by (auto simp: holds_row_def)
      have "r_id q = r_id p" using q(2) holds_row_id [OF inv holds] p(2) by (simp add: runs_as_def)
      then show ?thesis using inv_same_id [OF inv q(1) p(1)] p(2) by (simp add: runs_as_def)
    qed
    then show ?thesis using n' True unfolding s'
      by (auto simp: requeue_def Let_def rows_update_where split: if_splits)
  next
    case False
    then have "r_attempt_count ` set (rows (snd (dispatch_finalize now dbnow fault c v d s))) = r_attempt_count ` set (rows s)"
      by (auto simp: dispatch_finalize_def safeRequeue_def deferForReadback_def Let_def update_where_counts
          finalize_counts [OF inv] split: verdict.split option.split)
    with n' show ?thesis by simp
  qed
qed

text \<open>A step whose store and tasks keep to the bound.\<close>

lemma attempts_okI:
  assumes ok: "attempts_ok dc w" and "sy_calls w' = sy_calls w"
    and reps: "\<And>q. sy_replicas w' q = (if q = r then d else sy_replicas w q)"
    and "\<And>n. n \<in> r_attempt_count ` set (rows (sy_store w')) \<Longrightarrow>
      n \<in> r_attempt_count ` set (rows (sy_store w)) \<or> int n < maxAttempts dc"
    and "\<And>x. x \<in> set (d_tasks d) \<Longrightarrow> x \<in> set (d_tasks (sy_replicas w r)) \<or> retry_ok dc x"
  shows "attempts_ok dc w'"
proof -
  have "int (r_attempt_count q) < maxAttempts dc" if "q \<in> set (rows (sy_store w'))" for q
    using assms(4) [of "r_attempt_count q"] that ok by (auto simp: attempts_ok_def)
  moreover have "retry_ok dc x" if "x \<in> set (d_tasks (sy_replicas w' p))" for p x
    using assms(5) [of x] that ok unfolding attempts_ok_def by (auto simp: reps split: if_splits)
  ultimately show ?thesis using ok assms(2) unfolding attempts_ok_def by auto
qed

lemma attempts_replica:
  assumes "attempts_ok dc w" "\<And>x. x \<in> set (d_tasks d) \<Longrightarrow> x \<in> set (d_tasks (sy_replicas w r)) \<or> retry_ok dc x"
  shows "attempts_ok dc (set_replica r d w)"
  by (rule attempts_okI [OF assms(1), of _ r d]) (use assms(2) in \<open>auto simp: set_replica_def\<close>)

lemma attempts_both:
  assumes "attempts_ok dc w" "\<And>x. x \<in> set (d_tasks (fst y)) \<Longrightarrow> x \<in> set (d_tasks (sy_replicas w r)) \<or> retry_ok dc x"
    and "\<And>n. n \<in> r_attempt_count ` set (rows (snd y)) \<Longrightarrow>
      n \<in> r_attempt_count ` set (rows (sy_store w)) \<or> int n < maxAttempts dc"
  shows "attempts_ok dc (set_both r y w)"
  by (rule attempts_okI [OF assms(1), of _ r "fst y"]) (use assms(2,3) in \<open>auto simp: set_both_def set_replica_def\<close>)

lemma attempts_keeps:
  "attempts_ok dc w \<Longrightarrow> keeps_tasks (sy_replicas w r) d \<Longrightarrow> attempts_ok dc (set_replica r d w)"
  by (rule attempts_replica) (auto simp: keeps_tasks_def)

lemma claim_phase_counts:
  "r_attempt_count ` set (rows (snd (claim_phase dc now dbnow held fault d s))) = r_attempt_count ` set (rows s)"
  using claim_counts [of dbnow held "claimBatchSize dc" _ _ s]
  by (auto simp: claim_phase_def split: cycle_phase.split prod.split option.split) (metis snd_conv imageI)+

lemma claim_phase_tasks: "d_tasks (fst (claim_phase dc now dbnow held fault d s)) = d_tasks d"
  by (auto simp: claim_phase_def excludedLanes_def Let_def prune_deferred_def log_error_def
      split: cycle_phase.split prod.split option.split)

lemma reap_phase_counts:
  "r_attempt_count ` set (rows (snd (reap_phase env dc now dbnow fault acq d s))) = r_attempt_count ` set (rows s)"
proof -
  have "snd (reap_phase env dc now dbnow fault acq d s) = s \<or>
      (\<exists>delay. snd (reap_phase env dc now dbnow fault acq d s) = snd (reapStale dbnow acq (reaperThresholdMs dc) delay s))"
    by (auto simp: reap_phase_def maybeReap_def split: cycle_phase.split sum.split prod.split option.split) (metis snd_conv)+
  then show ?thesis using reap_counts by metis
qed

lemma attempt_task_retry:
  assumes "attempt_task env dc now acq c d = (calls, d')" "1 < maxAttempts dc" "x \<in> set (d_tasks d')"
  shows "x \<in> set (d_tasks d) \<or> retry_ok dc x"
proof -
  obtain t d1 where eq: "conclude env dc now acq c d = (calls, t, d1)"
    "d' = d1\<lparr>d_tasks := replace_first (c, Dispatched) (c, t) (d_tasks d1)\<rparr>"
    using assms(1) by (auto simp: attempt_task_def split: prod.splits)
  have "d_tasks d1 = d_tasks d" using eq(1) by (auto simp: conclude_def log_error_def split: sum.splits prod.splits)
  then show ?thesis
    using assms(3) set_replace_first [of "(c, Dispatched)" "(c, t)" "d_tasks d"] conclude_retry [OF eq(1) assms(2)]
    by (auto simp: eq(2))
qed

lemma write_task_tasks:
  "set (d_tasks (fst (write_task now dbnow fault c (Concluded t0 v) d s))) \<subseteq> insert (c, Written) (set (d_tasks d))"
proof -
  obtain d1 s1 where w: "write_back now dbnow fault c (Concluded t0 v) d s = (d1, s1)" by fastforce
  have "same_core d d1" using write_back_core [of d now dbnow fault c "Concluded t0 v" s] w by simp
  then show ?thesis using set_replace_first [of "(c, Concluded t0 v)" "(c, Written)" "d_tasks d"]
    by (simp add: write_task_def w same_core_def)
qed

lemma sys_step_attempts:
  assumes step: "sys_step env dc day_text w w'" and sys: "sys_ok env w" and own: "owners_ok w"
    and ok: "attempts_ok dc w" and max: "1 < maxAttempts dc"
  shows "attempts_ok dc w'"
proof -
  note w = sys_okD [OF sys]
  show ?thesis
    using step
  proof cases
    case (enqueue i now op res s')
    show ?thesis
      by (rule attempts_okI [OF ok, of _ 0 "sy_replicas w 0"])
        (use enqueue(1) enqueue_counts [OF enqueue(3)] max in auto)
  next
    case (maintain now fault' res' m' s')
    have "set (rows s') \<subseteq> set (rows (sy_store w))"
      using runPass_store [of day_text now fault' "sy_maintainer w" "sy_store w"] maintain(2)
        committed_rows [of "day_of now" "sy_maintainer w" "sy_store w"] by (auto split: if_splits)
    then show ?thesis
      by (intro attempts_okI [OF ok, of _ 0 "sy_replicas w 0"]) (use maintain(1) in auto)
  next
    case (start r)
    then show ?thesis using attempts_keeps [OF ok keeps_tasks_core, OF core_simps(5)] by blast
  next
    case (stop r)
    then show ?thesis using attempts_keeps [OF ok keeps_tasks_core, OF core_simps(6)] by blast
  next
    case (cycle r now)
    then show ?thesis using attempts_keeps [OF ok begin_cycle_keeps] by blast
  next
    case (reap r now dbnow fault acq)
    have "d_tasks (fst (reap_phase env dc now dbnow fault acq (sy_replicas w r) (sy_store w))) = d_tasks (sy_replicas w r)"
      using reap_phase_keeps unfolding keeps_tasks_def by blast
    then show ?thesis unfolding reap(1)
      by (intro attempts_both [OF ok]) (simp_all only: reap_phase_counts simp_thms)
  next
    case (offer r now faults)
    then show ?thesis using attempts_keeps [OF ok availability_phase_keeps [OF w(3)]] by blast
  next
    case (claim r now dbnow held fault)
    then show ?thesis
      by (simp only:) (intro attempts_both [OF ok], simp_all only: claim_phase_counts claim_phase_tasks simp_thms)
  next
    case (register r now)
    have "x \<in> set (d_tasks (sy_replicas w r)) \<or> retry_ok dc x"
      if "x \<in> set (d_tasks (snd (register_phase now (sy_replicas w r))))" for x
      using that by (auto simp: register_phase_def register_tasks_list measure_out_def split: cycle_phase.splits)
    with register show ?thesis using attempts_replica [OF ok] by blast
  next
    case (attempt c r now acquire calls d')
    have "c \<in> set (work_of (sy_replicas w r))" using attempt(2) by (force simp: work_of_def unfinished_def)
    from owners_okD(3) [OF own this] have "int (c_attempt_count c) < maxAttempts dc"
      using ok by (auto simp: attempts_ok_def holds_row_def runs_as_def)
    moreover have "attempts_ok dc (set_replica r d' w)"
      by (rule attempts_replica [OF ok attempt_task_retry [OF attempt(3) max]])
    ultimately show ?thesis by (auto simp: attempt(1) attempts_ok_def set_replica_def)
  next
    case (write_result c t0 v r now dbnow fault)
    have c: "c \<in> set (work_of (sy_replicas w r))" using write_result(2) by (force simp: work_of_def unfinished_def)
    have "retry_ok dc (c, Concluded t0 v)" using ok write_result(2) unfolding attempts_ok_def by blast
    then show ?thesis unfolding write_result(1)
      using write_counts [OF w(1) owners_okD(3) [OF own c], of _ now dbnow fault t0 v "sy_replicas w r"]
        write_task_tasks [of now dbnow fault c t0 v "sy_replicas w r" "sy_store w"]
      by (intro attempts_both [OF ok]) fastforce+
  next
    case (settle c r)
    have "set (d_tasks (settle_task c (sy_replicas w r))) \<subseteq> set (d_tasks (sy_replicas w r))"
      using set_remove1_subset by (fastforce simp: settle_task_def)
    with settle show ?thesis using attempts_replica [OF ok] by blast
  next
    case (crash r)
    then show ?thesis using attempts_replica [OF ok, of new_dispatcher r] by (simp add: new_dispatcher_def)
  qed
qed

lemma init_attempts_ok: "1 < maxAttempts dc \<Longrightarrow> attempts_ok dc (init_system days m)"
  by (simp add: attempts_ok_def init_system_def new_dispatcher_def empty_store_def)

lemma patient_attempts:
  assumes "(patient_step env dc day_text)\<^sup>*\<^sup>* w w'" "sys_ok env w" "owners_ok w" "attempts_ok dc w" "1 < maxAttempts dc"
  shows "attempts_ok dc w'"
  using assms
proof (induction rule: rtranclp_induct)
  case (step u v)
  have "sys_step env dc day_text u v" using step(2) by (auto elim: patient_step.cases)
  then show ?case using sys_step_attempts patient_invariants [OF step(1)] step by blast
qed

section \<open>The bound\<close>

text \<open>C13: Retries are bounded: as long as the reaper spares the rows that live replicas work on, no
  row's attempt counter ever reaches the configured maximum, and the target receives at most that
  many creates of any operation, whatever crashes and however often its rows are reaped.\<close>

theorem attempts_bounded:
  assumes "(patient_step env dc day_text)\<^sup>*\<^sup>* (init_system days m) w" "1 < maxAttempts dc"
  shows "(\<forall>q\<in>set (rows (sy_store w)). int (r_attempt_count q) < maxAttempts dc) \<and>
    (\<forall>i. int (length (filter (\<lambda>x. is_create_call (snd x) \<and> c_id (fst x) = i) (sy_calls w))) \<le> maxAttempts dc)"
proof -
  have ok: "attempts_ok dc w"
    by (rule patient_attempts [OF assms(1) init_system_ok init_owners_ok init_attempts_ok [OF assms(2)] assms(2)])
  have rights: "rights_ok w"
    using reachable_rights [OF patient_run [OF assms(1)] init_system_ok init_rights_ok] by blast
  have "length (filter (\<lambda>x. is_create_call (snd x) \<and> c_id (fst x) = i) (sy_calls w)) \<le> nat (maxAttempts dc)" for i
  proof (rule length_distinct_bound [OF creates_distinct [OF rights]])
    show "c_attempt_count (fst x) < nat (maxAttempts dc)"
      if "x \<in> set (filter (\<lambda>x. is_create_call (snd x) \<and> c_id (fst x) = i) (sy_calls w))" for x
    proof -
      have "int (c_attempt_count (fst x)) < maxAttempts dc" using ok that by (auto simp: attempts_ok_def)
      then show ?thesis by linarith
    qed
  qed
  then have "int (length (filter (\<lambda>x. is_create_call (snd x) \<and> c_id (fst x) = i) (sy_calls w))) \<le> maxAttempts dc" for i
    using assms(2) by (simp only: le_nat_iff)
  with ok show ?thesis unfolding attempts_ok_def by blast
qed

theorem attempts_bounded_witness:
  "int (length (filter (\<lambda>x. is_create_call (snd x) \<and> c_id (fst x) = an_id) (sy_calls create_retried))) \<le> 5 \<and>
   map r_attempt_count (rows (sy_store create_retried)) = [1]"
proof -
  have "map r_attempt_count (rows (sy_store create_retried)) = [1]" by code_simp
  moreover have "1 < maxAttempts DEFAULTS" "maxAttempts DEFAULTS = 5" by (simp_all add: DEFAULTS_def)
  ultimately show ?thesis using attempts_bounded [OF create_retried_patient [of "\<lambda>_. ''d''"]] by metis
qed

end
