(* ===== verification/Ledger_Refinement.thy ===== *)
theory Ledger_Refinement
  imports Op_System Example_Runs
begin

text \<open>
  The running service refines a ledger: a caller who only polls statuses cannot tell the replicas,
  the reaper, the maintainer and the target from a machine with seven moves over a map from ids to
  statuses. Every step of the service is one move of that machine or leaves the map as it is.
\<close>

section \<open>The abstract service\<close>

inductive ledger_step :: "ledger \<Rightarrow> ledger \<Rightarrow> bool" where
  idle: "ledger_step L L"
| accepted: "isOperationId i \<Longrightarrow> (\<And>j. same_id i j \<Longrightarrow> L j = None) \<Longrightarrow>
    ledger_step L (\<lambda>j. if same_id i j then Some (Pend PENDING) else L j)"
| claims: "(\<And>j. L' j \<noteq> L j \<Longrightarrow>
      L j \<in> {Some (Pend PENDING), Some (Pend AWAITING_READBACK)} \<and> L' j = Some (Pend RUNNING)) \<Longrightarrow>
    ledger_step L L'"
| reaps: "(\<And>j. L' j \<noteq> L j \<Longrightarrow>
      L j = Some (Pend RUNNING) \<and> L' j \<in> {Some (Pend PENDING), Some (Pend AWAITING_READBACK)}) \<Longrightarrow>
    ledger_step L L'"
| given_back: "ledger_step L (snd (ledger_move PENDING i L))"
| parked: "ledger_step L (snd (ledger_move AWAITING_READBACK i L))"
| finished: "ledger_step L (snd (ledger_finish i x L))"

inductive_cases ledger_stepE: "ledger_step L L'"

section \<open>Status after an update\<close>

lemma status_update_exact:
  assumes inv: "store_inv s" "store_inv (update_where P f s)" and id: "keeps_identity f"
    and ne: "status_at (update_where P f s) j \<noteq> status_at s j"
  obtains r where "r \<in> set (rows s)" "P r" "status_at s j = Some (r_status r)"
    "status_at (update_where P f s) j = Some (r_status (f r))"
proof -
  let ?t = "update_where P f s"
  have j: "isOperationId j" using ne status_at_bad_id by metis
  show thesis
  proof (cases "\<exists>r\<in>set (rows s). has_id j r")
    case True
    then obtain r where r: "r \<in> set (rows s)" "has_id j r" by blast
    let ?q = "if P r then f r else r"
    have "?q \<in> set (rows ?t)" "has_id j ?q" using r has_id_keeps [OF id] by (auto simp: mem_rows_update)
    then have t: "status_at ?t j = Some (r_status ?q)" using status_at_row [OF inv(2) j] by blast
    have s: "status_at s j = Some (r_status r)" by (rule status_at_row [OF inv(1) j r])
    have "P r" using ne s t by (cases "P r") simp_all
    then show thesis using that [OF r(1)] s t by simp
  next
    case False
    then have "\<forall>r\<in>set (rows ?t). \<not> has_id j r"
      using has_id_keeps [OF id] by (auto simp: mem_rows_update split: if_splits)
    then have "status_at ?t j = status_at s j" using False by (simp add: status_at_no_row [OF j] rows_update_where)
    with ne show thesis by simp
  qed
qed

lemma claim_ledger:
  assumes inv: "store_inv s"
  shows "ledger_step (status_at s) (status_at (snd (claimBatch now held l act av s)))"
proof (cases "caps_of_availability av = [] \<or> l \<le> 0")
  case False
  let ?P = "locked held (picked now l act (caps_of_availability av) (rows s))"
  have t: "snd (claimBatch now held l act av s) = update_where ?P (mark_running now) s"
    using False by (simp add: claimBatch_def claim_commit_def Let_def)
  have inv': "store_inv (update_where ?P (mark_running now) s)" using claimBatch_inv [OF inv] t by metis
  show ?thesis unfolding t
  proof (rule ledger_step.claims)
    fix j
    assume ne: "status_at (update_where ?P (mark_running now) s) j \<noteq> status_at s j"
    show "status_at s j \<in> {Some (Pend PENDING), Some (Pend AWAITING_READBACK)} \<and>
        status_at (update_where ?P (mark_running now) s) j = Some (Pend RUNNING)"
    proof (rule status_update_exact [OF inv inv' _ ne])
      show "keeps_identity (mark_running now)" by simp
    next
      fix r
      assume r: "?P r" "status_at s j = Some (r_status r)"
        "status_at (update_where ?P (mark_running now) s) j = Some (r_status (mark_running now r))"
      obtain p where p: "r_status r = Pend p" "p \<noteq> RUNNING"
        using r(1) by (auto simp: locked_def not_terminal_iff)
      then show ?thesis using r(2,3) by (cases p) simp_all
    qed
  qed
qed (auto simp: claimBatch_def intro: ledger_step.idle)

lemma reap_ledger:
  assumes inv: "store_inv s"
  shows "ledger_step (status_at s) (status_at (snd (reapStale now acq th d s)))"
proof (cases acq)
  case True
  let ?u = "reap_creates now th d s" and ?t = "reap_others now th (reap_creates now th d s)"
  have u: "store_inv ?u" by (rule reap_creates_inv [OF inv])
  have t: "store_inv ?t" by (rule reap_others_inv [OF u])
  have first: "status_at s j = Some (Pend RUNNING) \<and> status_at ?u j = Some (Pend AWAITING_READBACK)"
    if "status_at ?u j \<noteq> status_at s j" for j
    unfolding reap_creates_def
    by (rule status_update_exact [OF inv u [unfolded reap_creates_def] _ that [unfolded reap_creates_def]])
      (auto simp: keeps_identity_def is_running_def stale_create_def stale_def)
  have second: "status_at ?u j = Some (Pend RUNNING) \<and> status_at ?t j = Some (Pend PENDING)"
    if "status_at ?t j \<noteq> status_at ?u j" for j
    by (rule status_update_exact [OF u t [unfolded reap_others_def [of now th ?u]] _
          that [unfolded reap_others_def [of now th ?u]], folded reap_others_def])
      (auto simp: keeps_identity_def is_running_def stale_other_def stale_def)
  have "ledger_step (status_at s) (status_at ?t)"
  proof (rule ledger_step.reaps)
    fix j
    assume "status_at ?t j \<noteq> status_at s j"
    then show "status_at s j = Some (Pend RUNNING) \<and>
        status_at ?t j \<in> {Some (Pend PENDING), Some (Pend AWAITING_READBACK)}"
      using first [of j] second [of j] by (cases "status_at ?u j = status_at s j") auto
  qed
  then show ?thesis using True by (simp add: reapStale_def Let_def)
qed (simp add: reapStale_def ledger_step.idle)

section \<open>Acceptance\<close>

lemma enqueue_ledger:
  assumes inv: "store_inv s" and fresh: "fresh_id s i" and eq: "enqueue now i op s = Inr (res, s')"
  shows "ledger_step (status_at s) (status_at s')"
  using eq
proof (cases rule: enqueue_InrE)
  case again
  then show ?thesis by (simp add: ledger_step.idle)
next
  case new: fresh
  have inv': "store_inv s'" by (rule enqueue_inv [OF inv fresh eq])
  have i: "id_ok i" using fresh by (simp add: fresh_id_def)
  then have op: "isOperationId i" "uuid_of i = i" by (simp_all add: id_ok_def)
  have none: "status_at s i = None"
  proof (rule ccontr)
    assume "status_at s i \<noteq> None"
    then obtain a where "status_at s i = Some a" by blast
    with inv show False
    proof (cases rule: status_at_cases)
      case (row r)
      have "r_id r = i" using row(3) i by (simp add: has_id_def id_ok_def)
      then show False using fresh row(2) by (auto simp: fresh_id_def)
    next
      case (history h)
      then show False using fresh op(2) by (auto simp: fresh_id_def)
    qed
  qed
  have "status_at s' j = (if same_id i j then Some (Pend PENDING) else status_at s j)" for j
  proof (cases "isOperationId j")
    case j: True
    show ?thesis
    proof (cases "same_id i j")
      case True
      then have "has_id j (new_row now i op)" using op by (auto simp: has_id_def same_id_def)
      then show ?thesis using status_at_row [OF inv' j, of "new_row now i op"] new(3) True by (simp add: new_row_def)
    next
      case False
      then have no: "\<not> has_id j (new_row now i op)" using op j by (auto simp: has_id_def same_id_def)
      show ?thesis
      proof (cases "\<exists>r\<in>set (rows s). has_id j r")
        case True
        then obtain r where r: "r \<in> set (rows s)" "has_id j r" by blast
        then have "r \<in> set (rows s')" using new(3) by simp
        with r status_at_row [OF inv' j] status_at_row [OF inv j] False show ?thesis by simp
      next
        case none: False
        then have "\<forall>r\<in>set (rows s'). \<not> has_id j r" using no new(3) by auto
        with none show ?thesis using False new(3) by (simp add: status_at_no_row [OF j])
      qed
    qed
  qed (simp add: status_at_bad_id same_id_def)
  then have "status_at s' = (\<lambda>j. if same_id i j then Some (Pend PENDING) else status_at s j)" by blast
  then show ?thesis using ledger_step.accepted [of i "status_at s"] op(1) none status_at_same_id [of i] by metis
qed

section \<open>Refinement\<close>

lemma store_change_ledger:
  assumes "store_change s t" "store_inv s"
  shows "ledger_step (status_at s) (status_at t)"
  using assms
proof (induction rule: store_change.induct)
  case (enqueued s i now op res s')
  then show ?case by (intro enqueue_ledger)
next
  case (maintained s today m)
  then have "status_at (committed today m s) = status_at s" using committed_keeps by blast
  then show ?case by (simp add: ledger_step.idle)
qed (simp_all add: claim_ledger reap_ledger requeue_ledger defer_ledger finalize_ledger ledger_step.intros)

text \<open>One move of the machine moves an operation along at most one edge of its life, and forgets none.\<close>

lemma ledger_step_lifecycle:
  assumes "ledger_step L L'" "L j = Some a"
  shows "\<exists>b. L' j = Some b \<and> (b = a \<or> lifecycle a b)"
  using assms
proof cases
  case (accepted i)
  then have "\<not> same_id i j" using assms(2) by force
  with accepted assms(2) show ?thesis by simp
next
  case claims
  show ?thesis
  proof (cases "L' j = L j")
    case False
    from claims [OF False] assms(2) show ?thesis by (auto intro: lifecycle.intros)
  qed (use assms(2) in simp)
next
  case reaps
  show ?thesis
  proof (cases "L' j = L j")
    case False
    from reaps [OF False] assms(2) show ?thesis by (auto intro: lifecycle.intros)
  qed (use assms(2) in simp)
qed (use assms(2) in \<open>auto simp: ledger_move_def ledger_finish_def is_live_def lifecycle.intros
      split: option.splits op_status.splits\<close>)

lemma empty_ledger: "status_at (empty_store days) = (\<lambda>_. None)"
  by (auto simp: fun_eq_iff status_at_def getStatus_def empty_store_def)

lemma run_ledger:
  assumes "(sys_step env dc day_text)\<^sup>*\<^sup>* w w'" "sys_ok env w"
  shows "ledger_step\<^sup>*\<^sup>* (status_at (sy_store w)) (status_at (sy_store w'))"
  using run_store_changes [OF assms] sys_okD(1) [OF assms(2)]
proof (induction rule: rtranclp_induct)
  case (step t u)
  have "store_inv t" using step(1,4)
    by (induction rule: rtranclp_induct) (simp_all add: store_change_inv)
  with step show ?case by (auto intro: rtranclp.rtrancl_into_rtrancl store_change_ledger)
qed simp

text \<open>C11: The running service refines the ledger machine: seen through \<open>getStatus\<close>, the statuses of
  every reachable state are reached by moves of the machine from the empty ledger, every further
  step of any replica, of the maintainer or of a caller is one move of it, and one step takes an
  operation along at most one edge of its life and never forgets it.\<close>

theorem service_refines_ledger:
  assumes "(sys_step env dc day_text)\<^sup>*\<^sup>* (init_system days m) w" "sys_step env dc day_text w w'"
  shows "ledger_step\<^sup>*\<^sup>* (\<lambda>_. None) (status_at (sy_store w)) \<and>
    ledger_step (status_at (sy_store w)) (status_at (sy_store w')) \<and>
    (\<forall>j a. status_at (sy_store w) j = Some a \<longrightarrow>
       (\<exists>b. status_at (sy_store w') j = Some b \<and> (b = a \<or> lifecycle a b)))"
proof -
  have ok: "sys_ok env w" by (rule reachable_ok [OF assms(1) init_system_ok])
  note w = sys_okD [OF ok]
  have "store_change (sy_store w) (sy_store w')" by (rule step_store_change [OF assms(2) w(1,4)])
  then have st: "ledger_step (status_at (sy_store w)) (status_at (sy_store w'))"
    by (rule store_change_ledger [OF _ w(1)])
  moreover have "ledger_step\<^sup>*\<^sup>* (\<lambda>_. None) (status_at (sy_store w))"
    using run_ledger [OF assms(1) init_system_ok] by (simp add: init_system_def empty_ledger)
  ultimately show ?thesis using ledger_step_lifecycle [OF st] by blast
qed

theorem service_refines_ledger_witness:
  "ledger_step (status_at (sy_store run_attempted)) (status_at (sy_store run_written)) \<and>
   status_at (sy_store run_written) an_id = Some (Outc SUCCEEDED)"
  using service_refines_ledger [OF run_to_attempted run_write_step] run_written_status by blast

end
