(* ===== verification/Progress.thy ===== *)
theory Progress
  imports Ledger_Refinement Claim_Props
begin

text \<open>
  No accepted operation is ever stuck. From every reachable state, whatever crashed and whatever the
  table holds, a replica that restarts, runs its cycles and finds its instance configured can
  carry out any operation of that instance on a target that answers: reaping frees the rows of dead
  replicas, no lane stays blocked, every claim takes a row, and every claimed row can be concluded.
\<close>

section \<open>An instance that can be served\<close>

text \<open>The instance is registered once and resolves to slots of both classes, no other registration
  makes the resolution throw, and a token bucket grants its first token.\<close>

definition serviceable :: "'l disp_env \<Rightarrow> dispatcher_config \<Rightarrow> string \<Rightarrow> bool" where
  "serviceable env dc i =
     (i \<in> set (registeredIds env) \<and> distinct (registeredIds env) \<and> 0 < claimBatchSize dc \<and>
      (\<forall>k\<in>set (registeredIds env). \<exists>x. resolved_config env k = Inr x) \<and>
      (\<exists>cfg. resolved_config env i = Inr (Some cfg) \<and> 0 < mutationConcurrency (ic_runtime cfg) \<and>
         0 < batchSlots (ic_scheduling cfg)) \<and>
      (\<forall>now n v. fst (tryConsume env now (newLimiter env n v))))"

section \<open>A restarted replica\<close>

definition blank :: "'l disp_env \<Rightarrow> 'l disp \<Rightarrow> bool" where
  "blank env d =
     (d_tasks d = [] \<and> d_running d = Map.empty \<and> d_runningBatch d = Map.empty \<and> d_limiters d = Map.empty \<and>
      d_activeLanes d = [] \<and> d_laneDeferredUntil d = [] \<and> cache_for env (d_configCache d))"

lemma blank_simps [simp]:
  "blank env new_dispatcher" "blank env (measure_out m d) = blank env d" "blank env (log_error e d) = blank env d"
  "blank env (d\<lparr>d_phase := p\<rparr>) = blank env d" "blank env (d\<lparr>d_lastReapAt := t\<rparr>) = blank env d"
  "blank env (d\<lparr>d_backlogSampleCountdown := n\<rparr>) = blank env d"
  "blank env (d\<lparr>d_roundRobinCursor := c\<rparr>) = blank env d"
  by (simp_all add: blank_def new_dispatcher_def measure_out_def log_error_def)

lemma blank_cache: "blank env d \<Longrightarrow> cache_for env cache \<Longrightarrow> blank env (d\<lparr>d_configCache := cache\<rparr>)"
  by (simp add: blank_def)

text \<open>The reaper pass of a restarted replica runs.\<close>

lemma deadline_ceiling_total:
  assumes "\<forall>k\<in>set is. \<exists>x. resolved_config env k = Inr x" "cache_for env cache"
  shows "\<exists>n. fst (deadline_ceiling env is cache m) = Inr n \<and> cache_for env (snd (deadline_ceiling env is cache m))"
  using assms
proof (induction "is" arbitrary: cache m)
  case (Cons k ks)
  obtain r cache' where c: "configOf env k cache = (r, cache')" by fastforce
  from configOf_resolves [OF Cons.prems(2), of k] c
  have r: "r = resolved_config env k" "cache_for env cache'" by simp_all
  obtain x where x: "r = Inr x" using r(1) Cons.prems(1) by auto
  then show ?case using Cons.IH [OF _ r(2)] Cons.prems(1) c by (cases x) simp_all
qed simp

lemma reap_phase_runs:
  assumes "blank env d" "d_phase d = Started t0" "d_lastReapAt d = 0"
    and "\<forall>k\<in>set (registeredIds env). \<exists>x. resolved_config env k = Inr x"
  shows "\<exists>d' delay. reap_phase env dc (reaperIntervalMs dc) dbnow None True d s
      = (d', snd (reapStale dbnow True (reaperThresholdMs dc) delay s)) \<and> blank env d' \<and> d_phase d' = Reaped t0"
proof -
  let ?d = "d\<lparr>d_lastReapAt := reaperIntervalMs dc\<rparr>"
  have cache: "cache_for env (d_configCache ?d)" using assms(1) by (simp add: blank_def)
  obtain r c' where c: "deadline_ceiling env (registeredIds env) (d_configCache ?d) 0 = (r, c')" by fastforce
  with deadline_ceiling_total [OF assms(4) cache, of 0] obtain n where n: "r = Inr n" "cache_for env c'" by auto
  obtain res s' where rs: "reapStale dbnow True (reaperThresholdMs dc) (n + readBackGraceMs dc) s = (res, s')"
    by fastforce
  have "maybeReap env dc (reaperIntervalMs dc) dbnow None True d s
      = (count_reaped res (?d\<lparr>d_configCache := c'\<rparr>), s')"
    using c n rs assms(3) by (simp add: maybeReap_def readBackDelayCeilingMs_def)
  moreover have "blank env (count_reaped res (?d\<lparr>d_configCache := c'\<rparr>))"
    using blank_cache [OF _ n(2), of ?d] assms(1) by (simp add: count_reaped_def Let_def)
  ultimately show ?thesis using assms(2) rs by (auto simp: reap_phase_def intro!: exI [of _ "n + readBackGraceMs dc"])
qed

section \<open>Its offer\<close>

text \<open>What an availability pass over instances without a limiter leaves alone.\<close>

lemma hasRateLimitTokens_fresh:
  assumes "\<forall>now n v. fst (tryConsume env now (newLimiter env n v))" "d_limiters d i = None"
  obtains d' where "hasRateLimitTokens env now i cfg d = (True, d')" "same_work d d'"
    "d_laneDeferredUntil d' = d_laneDeferredUntil d" "d_configCache d' = d_configCache d"
    "\<And>k. k \<noteq> i \<Longrightarrow> d_limiters d' k = d_limiters d k"
proof (cases "configured_limit cfg")
  case None
  then show thesis by (intro that [of d]) (simp_all add: hasRateLimitTokens_def)
next
  case (Some l)
  obtain ok l' where e: "tryConsume env now (newLimiter env (requestLimit l) (per_second l)) = (ok, l')"
    by fastforce
  then have ok by (metis assms(1) fst_conv)
  then show thesis using assms(2) Some e
    by (intro that [of "d\<lparr>d_limiters := (d_limiters d)(i \<mapsto> l')\<rparr>"])
      (simp_all add: hasRateLimitTokens_def Let_def same_work_def)
qed

definition offered :: "string \<Rightarrow> avail \<Rightarrow> bool" where
  "offered i av = (\<exists>a. map_of av i = Some a \<and> 0 < totalFree a \<and> 0 < batchFree a)"

lemma availability_loop_fresh:
  assumes "distinct is" "\<forall>k\<in>set is. d_limiters d k = None"
    and "\<forall>k\<in>set is. \<exists>x. resolved_config env k = Inr x" "cache_for env (d_configCache d)"
    and "d_running d = Map.empty" "d_runningBatch d = Map.empty"
    and tokens: "\<forall>now n v. fst (tryConsume env now (newLimiter env n v))"
    and cfg: "resolved_config env i = Inr (Some cfg)" "0 < mutationConcurrency (ic_runtime cfg)"
      "0 < batchSlots (ic_scheduling cfg)"
    and "i \<in> set is \<or> offered i out"
  shows "\<exists>av d'. availability_loop env now is d out = (Inr av, d') \<and> offered i av \<and> same_work d d' \<and>
    d_laneDeferredUntil d' = d_laneDeferredUntil d"
  using assms(1-6,11)
proof (induction "is" arbitrary: d out)
  case Nil
  then show ?case by auto
next
  case (Cons k ks)
  obtain r cache where c: "configOf env k (d_configCache d) = (r, cache)" by fastforce
  from configOf_resolves [OF Cons.prems(4), of k] c
  have r: "r = resolved_config env k" "cache_for env cache" by simp_all
  obtain x where x: "r = Inr x" using r(1) Cons.prems(3) by auto
  let ?d1 = "d\<lparr>d_configCache := cache\<rparr>"
  have w1: "same_work d ?d1" by (simp add: same_work_def)
  show ?case
  proof (cases x)
    case None
    then have "i \<noteq> k" using x r(1) cfg(1) by auto
    then show ?thesis using Cons.IH [of d out] Cons.prems c x None by auto
  next
    case (Some cfg')
    let ?total = "mutationConcurrency (ic_runtime cfg')"
    have running: "count_of (d_running d) k = 0" using Cons.prems(5) by (simp add: count_of_def)
    show ?thesis
    proof (cases "?total \<le> 0")
      case True
      then have "i \<noteq> k" using x r(1) cfg(1,2) Some by auto
      then have "i \<in> set ks \<or> offered i out" using Cons.prems(7) by simp
      then have "\<exists>av d'. availability_loop env now ks ?d1 out = (Inr av, d') \<and> offered i av \<and> same_work ?d1 d' \<and>
          d_laneDeferredUntil d' = d_laneDeferredUntil ?d1"
        by (intro Cons.IH) (use Cons.prems r(2) in simp_all)
      then show ?thesis using True c x Some running same_work_trans [OF w1] by (auto simp: Let_def)
    next
      case False
      have lim: "d_limiters ?d1 k = None" using Cons.prems(2) by simp
      obtain d2 where d2: "hasRateLimitTokens env now k cfg' ?d1 = (True, d2)" "same_work ?d1 d2"
        "d_laneDeferredUntil d2 = d_laneDeferredUntil ?d1" "d_configCache d2 = d_configCache ?d1"
        "\<And>q. q \<noteq> k \<Longrightarrow> d_limiters d2 q = d_limiters ?d1 q"
        using hasRateLimitTokens_fresh [OF tokens lim, of now cfg'] by blast
      have w2: "d_running d2 = Map.empty" "d_runningBatch d2 = Map.empty"
        using d2(2) Cons.prems(5,6) by (simp_all add: same_work_def)
      let ?a = "\<lparr> batchFree = max 0 (min (batchSlots (ic_scheduling cfg') - count_of (d_runningBatch d2) k) ?total),
                  totalFree = ?total \<rparr>"
      have "i = k \<Longrightarrow> 0 < batchFree ?a"
        using cfg x r(1) Some w2(2) by (simp add: count_of_def)
      then have "i \<in> set ks \<or> offered i (AList.update k ?a out)"
        using Cons.prems(7) False by (auto simp: offered_def update_conv')
      moreover have "\<forall>q\<in>set ks. d_limiters d2 q = None"
      proof
        fix q assume "q \<in> set ks"
        moreover from this have "q \<noteq> k" using Cons.prems(1) by auto
        ultimately show "d_limiters d2 q = None" using Cons.prems(2) d2(5) by simp
      qed
      ultimately have "\<exists>av d'. availability_loop env now ks d2 (AList.update k ?a out) = (Inr av, d') \<and> offered i av \<and>
          same_work d2 d' \<and> d_laneDeferredUntil d' = d_laneDeferredUntil d2"
        by (intro Cons.IH) (use Cons.prems(1,3) r(2) w2 d2(4) in simp_all)
      then show ?thesis using False c x Some running d2(1,3) same_work_trans [OF same_work_trans [OF w1 d2(2)]]
        by (auto simp: Let_def)
    qed
  qed
qed

text \<open>The offer of a restarted replica contains the instance.\<close>

lemma sampleBacklog_rest:
  "d_activeLanes (sampleBacklog faults s av d) = d_activeLanes d \<and>
   d_laneDeferredUntil (sampleBacklog faults s av d) = d_laneDeferredUntil d"
proof -
  have "d_activeLanes (fold (\<lambda>i d'. if faults i = None then gauge_backlog s i d' else d') is d) = d_activeLanes d \<and>
      d_laneDeferredUntil (fold (\<lambda>i d'. if faults i = None then gauge_backlog s i d' else d') is d)
        = d_laneDeferredUntil d" for "is" and d :: "'a disp"
    by (induction "is" arbitrary: d) (simp_all add: gauge_backlog_def Let_def measure_out_def)
  then show ?thesis by (simp add: sampleBacklog_def Let_def)
qed

lemma rotate_from_rotate: "rotate_from n xs = rotate n xs"
  by (simp add: rotate_from_def rotate_drop_take Let_def)

lemma availability_phase_offers:
  assumes "blank env d" "d_phase d = Reaped t" "serviceable env dc i"
  shows "\<exists>av. d_phase (availability_phase env now (\<lambda>_. None) s d) = Ready t av \<and> distinct (map fst av) \<and> offered i av \<and>
    d_tasks (availability_phase env now (\<lambda>_. None) s d) = [] \<and>
    fst (excludedLanes now' (availability_phase env now (\<lambda>_. None) s d)) = []"
proof -
  let ?ids = "rotate_from (d_roundRobinCursor d) (registeredIds env)"
  let ?d1 = "d\<lparr>d_roundRobinCursor := d_roundRobinCursor d + 1\<rparr>"
  have env: "i \<in> set (registeredIds env)" "distinct (registeredIds env)"
    "\<forall>k\<in>set (registeredIds env). \<exists>x. resolved_config env k = Inr x"
    "\<forall>now n v. fst (tryConsume env now (newLimiter env n v))"
    using assms(3) by (simp_all add: serviceable_def)
  obtain cfg where cfg: "resolved_config env i = Inr (Some cfg)" "0 < mutationConcurrency (ic_runtime cfg)"
    "0 < batchSlots (ic_scheduling cfg)" using assms(3) by (auto simp: serviceable_def)
  have ids: "distinct ?ids" "set ?ids = set (registeredIds env)"
    using env(2) by (simp_all add: rotate_from_rotate)
  have b: "d_running ?d1 = Map.empty" "d_runningBatch ?d1 = Map.empty" "\<forall>k\<in>set ?ids. d_limiters ?d1 k = None"
    "cache_for env (d_configCache ?d1)" using assms(1) by (simp_all add: blank_def)
  from availability_loop_fresh [OF ids(1) b(3) _ b(4,1,2) env(4) cfg, of "[]" now] ids(2) env(1,3)
  obtain av d' where av: "availability_loop env now ?ids ?d1 [] = (Inr av, d')" "offered i av" "same_work ?d1 d'"
    "d_laneDeferredUntil d' = []" using assms(1) by (auto simp: blank_def)
  have comp: "computeAvailability env now d = (Inr av, d')"
    using av(1) env(1) by (auto simp: computeAvailability_def Let_def)
  have "counters_ok d" "in_budget env (tasks_of d)" "cache_for env (d_configCache d)"
    using assms(1) new_dispatcher_ok [of env]
    by (auto simp: blank_def disp_ok_def counters_ok_def tasks_of_def new_dispatcher_def)
  from computeAvailability_ok [OF comp this(3,1,2)] have dist: "distinct (map fst av)" by (simp add: fits_def)
  have ne: "av \<noteq> []" using av(2) by (auto simp: offered_def)
  have p: "availability_phase env now (\<lambda>_. None) s d = sampleBacklog (\<lambda>_. None) s av (d'\<lparr>d_phase := Ready t av\<rparr>)"
    using comp assms(2) ne by (cases av) (simp_all add: availability_phase_def)
  show ?thesis
    using sampleBacklog_core [of "d'\<lparr>d_phase := Ready t av\<rparr>" "\<lambda>_. None" s av]
      sampleBacklog_rest [of "\<lambda>_. None" s av "d'\<lparr>d_phase := Ready t av\<rparr>"] av(2-4) dist assms(1)
    unfolding p
    by (intro exI [of _ av]) (simp add: same_core_def same_work_def blank_def excludedLanes_def prune_deferred_def Let_def)
qed

section \<open>Requests\<close>

text \<open>What stays of an operation whatever happens to its row.\<close>

definition request_of :: "op_row \<Rightarrow> string \<times> string \<times> op_type \<times> string option \<times> string option" where
  "request_of r = (r_id r, r_instance_id r, r_op_type r, r_uid r, r_name_attr_value r)"

definition open_requests :: "op_store \<Rightarrow> (string \<times> string \<times> op_type \<times> string option \<times> string option) list" where
  "open_requests s = map request_of (filter (\<lambda>r. \<not> terminal (r_status r)) (rows s))"

lemma open_requests_iff:
  "x \<in> set (open_requests s) \<longleftrightarrow> (\<exists>r\<in>set (rows s). \<not> terminal (r_status r) \<and> x = request_of r)"
  by (auto simp: open_requests_def)

lemma open_requests_id:
  assumes "store_inv s" "x \<in> set (open_requests s)" "y \<in> set (open_requests s)" "fst x = fst y"
  shows "x = y"
proof -
  obtain q r where "q \<in> set (rows s)" "x = request_of q" "r \<in> set (rows s)" "y = request_of r"
    using assms(2,3) by (auto simp: open_requests_iff)
  moreover from this have "q = r" using inv_same_id [OF assms(1)] assms(4) by (simp add: request_of_def)
  ultimately show ?thesis by simp
qed

text \<open>A request the program can carry out: a delta names its object, a create its name.\<close>

fun complete_request :: "string \<times> string \<times> op_type \<times> string option \<times> string option \<Rightarrow> bool" where
  "complete_request (i, inst, k, uid, name) =
     ((k = CREATE \<longrightarrow> name \<noteq> None) \<and> (k \<in> {ADD_VALUES, REMOVE_VALUES} \<longrightarrow> uid \<noteq> None \<and> uid \<noteq> Some ''''))"

text \<open>Updates of live rows that keep them live keep the open requests.\<close>

lemma open_update:
  assumes "keeps_identity f"
    "\<And>r. r \<in> set (rows s) \<Longrightarrow> P r \<Longrightarrow> \<not> terminal (r_status r) \<and> \<not> terminal (r_status (f r))"
  shows "open_requests (update_where P f s) = open_requests s"
proof -
  have id: "request_of (f r) = request_of r" for r using assms(1) by (simp add: keeps_identity_def request_of_def)
  have "map request_of (filter (\<lambda>r. \<not> terminal (r_status r)) (map (\<lambda>r. if P r then f r else r) rs))
      = map request_of (filter (\<lambda>r. \<not> terminal (r_status r)) rs)" if "set rs \<subseteq> set (rows s)" for rs
    using that assms(2) by (induction rs) (auto simp: id)
  then show ?thesis by (simp add: open_requests_def rows_update_where)
qed

lemma reapStale_open: "open_requests (snd (reapStale now acq th d s)) = open_requests s"
proof -
  have a: "open_requests (reap_creates now th d s) = open_requests s" for s
    unfolding reap_creates_def
    by (rule open_update) (auto simp: keeps_identity_def stale_create_def stale_def is_running_def)
  have b: "open_requests (reap_others now th s) = open_requests s" for s
    unfolding reap_others_def
    by (rule open_update) (auto simp: keeps_identity_def stale_other_def stale_def is_running_def)
  show ?thesis by (simp add: reapStale_def Let_def a b)
qed

lemma claimBatch_open: "open_requests (snd (claimBatch now held l act av s)) = open_requests s"
proof (cases "caps_of_availability av = [] \<or> l \<le> 0")
  case False
  then show ?thesis
    using open_update [of "mark_running now" s "locked held (picked now l act (caps_of_availability av) (rows s))"]
    by (simp add: claimBatch_def claim_commit_def Let_def locked_def)
qed (auto simp: claimBatch_def)

lemma finalized_open:
  assumes inv: "store_inv s" and r: "r \<in> set (rows s)"
  shows "open_requests (finalized_store now x v e r s) = filter (\<lambda>o'. fst o' \<noteq> r_id r) (open_requests s)"
proof -
  have "q = r \<longleftrightarrow> r_id q = r_id r" if "q \<in> set (rows s)" for q using inv_same_id [OF inv that r] by blast
  then have "map request_of (filter (\<lambda>q. \<not> terminal (r_status q)) (map (\<lambda>q. if q = r then finalize_row now x v e r else q) rs))
      = filter (\<lambda>o'. fst o' \<noteq> r_id r) (map request_of (filter (\<lambda>q. \<not> terminal (r_status q)) rs))"
    if "set rs \<subseteq> set (rows s)" for rs
    using that by (induction rs) (auto simp: request_of_def)
  then show ?thesis by (simp add: open_requests_def finalized_store_def)
qed

text \<open>A reaper pass late enough leaves no row running, and at a time late enough no row waits.\<close>

lemma times_bounded: "\<exists>B. \<forall>r\<in>set rs. \<forall>t. f r = Some t \<longrightarrow> t \<le> (B :: int)"
proof (induction rs)
  case (Cons r rs)
  then obtain B where B: "\<forall>r\<in>set rs. \<forall>t. f r = Some t \<longrightarrow> t \<le> B" by blast
  show ?case
  proof (cases "f r")
    case None
    with B show ?thesis by auto
  next
    case (Some u)
    with B show ?thesis by (intro exI [of _ "max u B"]) force
  qed
qed simp

lemma reap_clears:
  assumes "store_inv s"
  shows "\<exists>T. \<forall>d. \<forall>r\<in>set (rows (snd (reapStale T True th d s))). \<not> is_running r"
proof -
  obtain B where B: "\<forall>r\<in>set (rows s). \<forall>t. r_claimed_at r = Some t \<longrightarrow> t \<le> B"
    using times_bounded [of "rows s" r_claimed_at] by blast
  let ?T = "B + us_of_ms th + 1"
  have st: "stale ?T th r" if r: "r \<in> set (rows s)" "is_running r" for r
  proof -
    obtain t where t: "r_claimed_at r = Some t" using inv_row [OF assms r(1)] r(2) by (auto simp: row_ok_def is_running_def)
    with B r(1) have "t \<le> B" by blast
    then show ?thesis using t r(2) by (simp add: stale_def)
  qed
  have "\<not> is_running r" if r: "r \<in> set (rows (snd (reapStale ?T True th d s)))" for r d
  proof -
    let ?g = "\<lambda>q. if stale_create ?T th q then q\<lparr>r_status := Pend AWAITING_READBACK, r_claimed_at := None,
              r_not_before := Some (?T + us_of_ms d)\<rparr> else q"
    obtain q where q: "q \<in> set (rows s)" "r = (if stale_other ?T th (?g q)
        then (?g q)\<lparr>r_status := Pend PENDING, r_claimed_at := None, r_not_before := None\<rparr> else ?g q)"
      using r by (auto simp: reapStale_def Let_def reap_creates_def reap_others_def rows_update_where)
    show ?thesis
    proof (cases "is_running q")
      case True
      then show ?thesis using q(2) st [OF q(1)]
        by (cases "r_op_type q = CREATE") (simp_all add: stale_create_def stale_other_def is_running_def)
    next
      case False
      then show ?thesis using q(2) by (simp add: stale_create_def stale_other_def stale_def)
    qed
  qed
  then show ?thesis by blast
qed

lemma nothing_blocked:
  assumes "store_inv s" "\<forall>r\<in>set (rows s). \<not> is_running r"
  shows "\<exists>T. blocked_lanes T (rows s) = [] \<and> (\<forall>r\<in>set (rows s). \<not> terminal (r_status r) \<longrightarrow> claimable T r)"
proof -
  obtain B where B: "\<forall>r\<in>set (rows s). \<forall>t. r_not_before r = Some t \<longrightarrow> t \<le> B"
    using times_bounded [of "rows s" r_not_before] by blast
  have "\<not> readback_waiting B r" if "r \<in> set (rows s)" for r
    using B that by (auto simp: readback_waiting_def split: option.splits)
  moreover have "claimable B r" if r: "r \<in> set (rows s)" "\<not> terminal (r_status r)" for r
  proof -
    obtain p where p: "r_status r = Pend p" "p \<noteq> RUNNING"
      using r(2) assms(2) r(1) by (auto simp: not_terminal_iff is_running_def)
    show ?thesis
    proof (cases p)
      case AWAITING_READBACK
      then obtain t where "r_not_before r = Some t" using inv_row [OF assms(1) r(1)] p(1) by (auto simp: row_ok_def)
      moreover from this have "t \<le> B" using B r(1) by blast
      ultimately show ?thesis using p(1) AWAITING_READBACK by (simp add: claimable_def readback_due_def)
    qed (use p in \<open>simp_all add: claimable_def\<close>)
  qed
  ultimately show ?thesis using assms(2) by (intro exI [of _ B]) (auto simp: blocked_lanes_def filter_empty_conv)
qed

section \<open>A target in good health\<close>

definition healthy_facade :: facade where
  "healthy_facade call =
     (case call of
        CallSearch _ _ _ _ _ \<Rightarrow> Inr (Some (JObj [(''results'', JArr [JObj []])]))
      | _ \<Rightarrow> Inr (Some (JObj [])))"

definition request_of_claim :: "claimed_op \<Rightarrow> string \<times> string \<times> op_type \<times> string option \<times> string option" where
  "request_of_claim c = (c_id c, c_instance_id c, c_op_type c, c_uid c, c_name_attr_value c)"

lemma request_to_claimed: "request_of_claim (to_claimed r) = request_of r"
  by (simp add: request_of_claim_def request_of_def to_claimed_def)

text \<open>Its answers conclude every attempt, and a complete request with a success. Only creates are resumed.\<close>

lemma healthy_attempt:
  assumes "c_prior_status c = Pend AWAITING_READBACK \<Longrightarrow> c_op_type c = CREATE"
  shows "\<exists>x. rs_outcome (snd (attempt dc caps now healthy_facade c (Some cfg))) = Final x \<and>
    (complete_request (request_of_claim c) \<longrightarrow> x = SUCCEEDED)"
proof (cases "c_prior_status c = Pend AWAITING_READBACK")
  case True
  then show ?thesis using assms
    by (auto simp: attempt_def resumeReadBack_def readback_call_def healthy_facade_def first_result_def truthy_def
        opt_field_def obj_get_def request_of_claim_def succeed_def fail_with_def Let_def split: option.split)
next
  case False
  then show ?thesis
    by (cases "c_op_type c")
      (auto simp: attempt_def attemptCreate_def attemptUpdate_def attemptDelete_def attemptDelta_def healthy_facade_def
        js_member_def nullish_def request_of_claim_def succeed_def fail_with_def Let_def split: option.split)
qed

section \<open>A round\<close>

text \<open>A claimed row can be concluded.\<close>

lemma claimed_finalize:
  assumes inv: "store_inv s" and c: "c \<in> set (fst (claimBatch now held l act av s))"
    and t: "t = snd (claimBatch now held l act av s)" and u: "u = snd (finalize now' (c_id c) x v e t)"
  shows "open_requests u = filter (\<lambda>o'. fst o' \<noteq> c_id c) (open_requests s)"
    "request_of_claim c \<in> set (open_requests s)" "status_at u (c_id c) = Some (Outc x)"
proof -
  obtain q where q: "q \<in> set (claimed_rows now held l act av s)" "c = to_claimed q"
    using c by (auto simp: claimBatch_fst)
  have row: "q \<in> set (rows s)" using q(1) by (auto simp: claimed_rows_def Let_def split: if_splits)
  have mem: "mark_running now q \<in> set (rows t)"
    using q(1) row
    by (auto simp: t claimed_rows_def claimBatch_def claim_commit_def Let_def rows_update_where split: if_splits)
  have id: "id_ok (r_id q)" using inv_row [OF inv row] by simp
  have inv': "store_inv t" using claimBatch_inv [OF inv] t by simp
  have cid: "has_id (c_id c) (mark_running now q)" "isOperationId (c_id c)" "\<not> terminal (r_status (mark_running now q))"
    "r_id (mark_running now q) = c_id c" "request_of (mark_running now q) = request_of_claim c"
    using id q(2) by (simp_all add: has_id_def id_ok_def to_claimed_def mark_running_def request_of_claim_def request_of_def)
  have fin: "finalize now' (c_id c) x v e t = (True, finalized_store now' x v e (mark_running now q) t)"
    by (rule finalize_live [OF inv' mem cid(1,3,2)])
  show "open_requests u = filter (\<lambda>o'. fst o' \<noteq> c_id c) (open_requests s)"
    using finalized_open [OF inv' mem, of now' x v e] cid(4) by (simp only: u fin snd_conv) (simp add: t claimBatch_open)
  have "request_of_claim c \<in> set (open_requests t)" unfolding open_requests_iff
    by (intro bexI [OF _ mem]) (use cid(3,5) in simp)
  then show "request_of_claim c \<in> set (open_requests s)" by (simp add: t claimBatch_open)
  show "status_at u (c_id c) = Some (Outc x)" using finalize_answer [OF inv', of now' "c_id c" x v e] fin u by simp
qed

text \<open>A replica that restarts and runs one cycle claims something of an instance it can serve.\<close>

lemma restart_claims:
  assumes ok: "sys_ok env w" and serv: "serviceable env dc i"
    and r: "r \<in> set (rows (sy_store w))" "r_instance_id r = i" "\<not> terminal (r_status r)"
  shows "\<exists>w' s now l act av c. (sys_step env dc day_text)\<^sup>*\<^sup>* w w' \<and> store_inv s \<and>
    open_requests s = open_requests (sy_store w) \<and> sy_store w' = snd (claimBatch now [] l act av s) \<and>
    c \<in> set (fst (claimBatch now [] l act av s)) \<and> (c, Dispatched) \<in> set (d_tasks (sy_replicas w' 0))"
proof -
  let ?R = "sys_step env dc day_text" and ?s = "sy_store w"
  note inv = sys_okD(1) [OF ok]
  obtain T where T: "\<And>d q. q \<in> set (rows (snd (reapStale T True (reaperThresholdMs dc) d ?s))) \<Longrightarrow> \<not> is_running q"
    using reap_clears [OF inv] by blast
  define w1 where "w1 = set_replica 0 new_dispatcher w"
  define w2 where "w2 = set_replica 0 (begin_cycle 0 (sy_replicas w1 0)) w1"
  have d2: "blank env (sy_replicas w2 0)" "d_phase (sy_replicas w2 0) = Started 0" "d_lastReapAt (sy_replicas w2 0) = 0"
    and s2: "sy_store w2 = ?s"
    by (simp_all add: w2_def w1_def set_replica_def begin_cycle_def) (simp_all add: new_dispatcher_def)
  have total: "\<forall>k\<in>set (registeredIds env). \<exists>x. resolved_config env k = Inr x" "0 < claimBatchSize dc"
    using serv by (simp_all add: serviceable_def)
  define w3 where "w3 = set_both 0 (reap_phase env dc (reaperIntervalMs dc) T None True (sy_replicas w2 0) (sy_store w2)) w2"
  from reap_phase_runs [OF d2 total(1), of dc T ?s] obtain delay where
    d3: "blank env (sy_replicas w3 0)" "d_phase (sy_replicas w3 0) = Reaped 0"
    and s3: "sy_store w3 = snd (reapStale T True (reaperThresholdMs dc) delay ?s)"
    by (auto simp: w3_def set_both_def set_replica_def s2)
  have inv3: "store_inv (sy_store w3)" unfolding s3 by (rule reapStale_inv [OF inv])
  have open3: "open_requests (sy_store w3) = open_requests ?s" by (simp add: s3 reapStale_open)
  obtain T' where T': "blocked_lanes T' (rows (sy_store w3)) = []"
    "\<And>q. q \<in> set (rows (sy_store w3)) \<Longrightarrow> \<not> terminal (r_status q) \<Longrightarrow> claimable T' q"
    using nothing_blocked [OF inv3] T unfolding s3 by blast
  define w4 where "w4 = set_replica 0 (availability_phase env 0 (\<lambda>_. None) (sy_store w3) (sy_replicas w3 0)) w3"
  from availability_phase_offers [OF d3 serv, of 0 "sy_store w3" 0] obtain av where
    d4: "d_phase (sy_replicas w4 0) = Ready 0 av" "distinct (map fst av)" "offered i av" "d_tasks (sy_replicas w4 0) = []"
      "fst (excludedLanes 0 (sy_replicas w4 0)) = []" and s4: "sy_store w4 = sy_store w3"
    by (auto simp: w4_def set_replica_def)
  let ?cl = "claimBatch T' [] (claimBatchSize dc) [] av (sy_store w3)"
  have "request_of r \<in> set (open_requests (sy_store w3))" unfolding open3 using r by (auto simp: open_requests_iff)
  then obtain q where q: "q \<in> set (rows (sy_store w3))" "r_instance_id q = i" "\<not> terminal (r_status q)"
    using r(2) by (auto simp: open_requests_iff request_of_def)
  obtain a where a: "map_of av (r_instance_id q) = Some a" "0 < totalFree a" "0 < batchFree a"
    using d4(3) q(2) by (auto simp: offered_def)
  have "fst ?cl \<noteq> []"
    by (rule claim_progress [OF inv3 d4(2) a total(2) q(1) T'(2) [OF q(1,3)]]) (simp_all add: T'(1))
  then obtain c cs where cs: "fst ?cl = c # cs" by (cases "fst ?cl") simp_all
  define w5 where "w5 = set_both 0 (claim_phase dc 0 T' [] None (sy_replicas w4 0) (sy_store w4)) w4"
  have d5: "d_phase (sy_replicas w5 0) = Claimed 0 (c # cs)" "d_tasks (sy_replicas w5 0) = []"
    and s5: "sy_store w5 = snd ?cl"
    using d4(1,4,5) cs
    by (auto simp: w5_def set_both_def set_replica_def claim_phase_def s4 excludedLanes_def prune_deferred_def Let_def
        split: prod.splits)
  define w6 where "w6 = set_replica 0 (snd (register_phase 0 (sy_replicas w5 0))) w5"
  have d6: "(c, Dispatched) \<in> set (d_tasks (sy_replicas w6 0))" and s6: "sy_store w6 = snd ?cl"
    using d5 s5 by (simp_all add: w6_def set_replica_def register_phase_def register_tasks_list
        register_task_def Let_def measure_out_def)
  have "?R\<^sup>*\<^sup>* w w1" unfolding w1_def by (rule r_into_rtranclp, rule sys_step.crash)
  moreover have "?R w1 w2" unfolding w2_def by (rule sys_step.cycle)
  moreover have "?R w2 w3" unfolding w3_def by (rule sys_step.reap)
  moreover have "?R w3 w4" unfolding w4_def by (rule sys_step.offer)
  moreover have "?R w4 w5" unfolding w5_def by (rule sys_step.claim)
  moreover have "?R w5 w6" unfolding w6_def by (rule sys_step.register)
  ultimately have "?R\<^sup>*\<^sup>* w w6" by (meson rtranclp.rtrancl_into_rtrancl)
  moreover have "c \<in> set (fst ?cl)" by (simp add: cs)
  ultimately show ?thesis using inv3 open3 s6 d6 by blast
qed

lemma replace_first_mem: "x \<in> set zs \<Longrightarrow> y \<in> set (replace_first x y zs)"
  by (induction zs) auto

text \<open>A dispatched task against a healthy target is attempted and written.\<close>

lemma task_concludes:
  assumes ok: "sys_ok env w" and task: "(c, Dispatched) \<in> set (d_tasks (sy_replicas w k))"
  shows "\<exists>w' x v e now. (sys_step env dc day_text)\<^sup>*\<^sup>* w w' \<and>
    sy_store w' = snd (finalize now (c_id c) x v e (sy_store w)) \<and>
    (complete_request (request_of_claim c) \<and> (\<exists>cfg. resolved_config env (c_instance_id c) = Inr (Some cfg)) \<longrightarrow> x = SUCCEEDED)"
proof -
  let ?R = "sys_step env dc day_text" and ?d = "sy_replicas w k"
  obtain calls t d1 where con: "conclude env dc 0 (Inr healthy_facade) c ?d = (calls, t, d1)" by (metis prod_cases3)
  have "task_ok (sy_store w) (c, Dispatched)" using sys_okD(4) [OF ok, of k] task unfolding replica_ok_def by blast
  then have resumed: "c_prior_status c = Pend AWAITING_READBACK \<Longrightarrow> c_op_type c = CREATE" by (auto simp: claim_ok_def)
  have cache: "cache_for env (d_configCache ?d)" using sys_okD(3) [OF ok, of k] by (simp add: disp_ok_def)
  obtain res cache' where cfg: "configOf env (c_instance_id c) (d_configCache ?d) = (res, cache')" by fastforce
  have res: "res = resolved_config env (c_instance_id c)" using configOf_resolves [OF cache] cfg by (metis fst_conv)
  have "\<exists>v x. t = Concluded (Some 0) v \<and> rs_outcome v = Final x \<and>
      (complete_request (request_of_claim c) \<and> (\<exists>cfg. res = Inr (Some cfg)) \<longrightarrow> x = SUCCEEDED)"
  proof (cases res)
    case (Inl e)
    then show ?thesis using con cfg by (auto simp: conclude_def dispatch_error_def)
  next
    case (Inr rt)
    have "\<exists>x. rs_outcome (snd (attempt dc (capabilitiesOf env) 0 healthy_facade c rt)) = Final x \<and>
        (complete_request (request_of_claim c) \<and> rt \<noteq> None \<longrightarrow> x = SUCCEEDED)"
      using healthy_attempt [OF resumed, of dc "capabilitiesOf env" 0]
      by (cases rt) (auto simp: attempt_def fail_with_def)
    then show ?thesis using con cfg Inr by (auto simp: conclude_def split: prod.splits)
  qed
  then obtain v x where v: "t = Concluded (Some 0) v" "rs_outcome v = Final x"
    "complete_request (request_of_claim c) \<and> (\<exists>cfg. res = Inr (Some cfg)) \<Longrightarrow> x = SUCCEEDED" by blast
  define d7 where "d7 = d1\<lparr>d_tasks := replace_first (c, Dispatched) (c, t) (d_tasks d1)\<rparr>"
  have at: "attempt_task env dc 0 (Inr healthy_facade) c ?d = (calls, d7)" by (simp add: attempt_task_def con d7_def)
  have "d_tasks d1 = d_tasks ?d" using con by (auto simp: conclude_def log_error_def split: sum.splits prod.splits)
  then have mem: "(c, Concluded (Some 0) v) \<in> set (d_tasks d7)" using task v(1) by (simp add: d7_def replace_first_mem)
  define w7 where "w7 = (set_replica k d7 w)\<lparr>sy_calls := sy_calls w @ map (\<lambda>y. (c, y)) calls\<rparr>"
  have d7': "sy_replicas w7 k = d7" "sy_store w7 = sy_store w" by (simp_all add: w7_def set_replica_def)
  define w8 where "w8 = set_both k (write_task 0 0 None c (Concluded (Some 0) v) (sy_replicas w7 k) (sy_store w7)) w7"
  have "sy_store w8 = snd (finalize 0 (c_id c) x (rs_result v) (rs_error v) (sy_store w))"
    by (simp add: w8_def set_both_def write_task_def write_back_def dispatch_finalize_def v(2) d7' split: prod.split)
  moreover have "?R w w7" unfolding w7_def by (rule sys_step.attempt [OF task at])
  moreover have "?R w7 w8" unfolding w8_def by (rule sys_step.write_result) (simp add: d7' mem)
  ultimately show ?thesis using v(3) unfolding res
    by (meson rtranclp.rtrancl_into_rtrancl rtranclp.rtrancl_refl)
qed

section \<open>Every operation can be carried out\<close>

lemma can_finish:
  assumes "sys_ok env w" "y \<in> set (open_requests (sy_store w))" "serviceable env dc (fst (snd y))" "complete_request y"
  shows "\<exists>w'. (sys_step env dc day_text)\<^sup>*\<^sup>* w w' \<and> status_at (sy_store w') (fst y) = Some (Outc SUCCEEDED)"
  using assms
proof (induction "length (open_requests (sy_store w))" arbitrary: w rule: less_induct)
  case less
  let ?R = "sys_step env dc day_text"
  obtain r where r: "r \<in> set (rows (sy_store w))" "\<not> terminal (r_status r)" "y = request_of r"
    using less.prems(2) by (auto simp: open_requests_iff)
  have "r_instance_id r = fst (snd y)" by (simp add: r(3) request_of_def)
  from restart_claims [OF less.prems(1,3) r(1) this r(2)] obtain w1 s now l act av c where
    w1: "?R\<^sup>*\<^sup>* w w1" "store_inv s" "open_requests s = open_requests (sy_store w)"
      "sy_store w1 = snd (claimBatch now [] l act av s)" "c \<in> set (fst (claimBatch now [] l act av s))"
      "(c, Dispatched) \<in> set (d_tasks (sy_replicas w1 0))" by blast
  from task_concludes [OF reachable_ok [OF w1(1) less.prems(1)] w1(6)] obtain w2 x v e t where
    w2: "?R\<^sup>*\<^sup>* w1 w2" "sy_store w2 = snd (finalize t (c_id c) x v e (sy_store w1))"
      "complete_request (request_of_claim c) \<and> (\<exists>cfg. resolved_config env (c_instance_id c) = Inr (Some cfg)) \<longrightarrow> x = SUCCEEDED"
    by blast
  have run: "?R\<^sup>*\<^sup>* w w2" using w1(1) w2(1) by (rule rtranclp_trans)
  note fin = claimed_finalize [OF w1(2,5,4) w2(2)]
  show ?case
  proof (cases "fst y = c_id c")
    case True
    have "y = request_of_claim c"
      using open_requests_id [OF sys_okD(1) [OF less.prems(1)] less.prems(2) fin(2) [unfolded w1(3)]] True
      by (simp add: request_of_claim_def)
    moreover from this have "\<exists>cfg. resolved_config env (c_instance_id c) = Inr (Some cfg)"
      using less.prems(3) by (auto simp: serviceable_def request_of_claim_def)
    ultimately have "x = SUCCEEDED" using w2(3) less.prems(4) by blast
    then show ?thesis using run fin(3) True by metis
  next
    case False
    have "length (open_requests (sy_store w2)) < length (open_requests (sy_store w))"
      unfolding fin(1) w1(3) by (rule length_filter_less [of "request_of_claim c"])
        (use fin(2) in \<open>simp_all add: w1(3) request_of_claim_def\<close>)
    moreover have "y \<in> set (open_requests (sy_store w2))" using less.prems(2) False by (simp add: fin(1) w1(3))
    ultimately show ?thesis
      using less.hyps [of w2] reachable_ok [OF run less.prems(1)] less.prems(3,4) run rtranclp_trans by metis
  qed
qed


text \<open>The replica that claimed the operation may die with it.\<close>

lemma run_serviceable: "serviceable run_env DEFAULTS ''ad''"
proof -
  have "resolved_config run_env ''ad'' = Inr (Some \<lparr> ic_runtime = \<lparr> attemptDeadlineMs = (\<lambda>_. 3000), mutationConcurrency = 1 \<rparr>,
      ic_scheduling = \<lparr> interactiveSliceFraction = 1 / 5, interactiveSlots = computeInteractiveSlots 1 (1 / 5),
        batchSlots = 1 - computeInteractiveSlots 1 (1 / 5), rateLimits = [] \<rparr> \<rparr>)"
    by (simp add: resolved_config_def run_env_def example_env_def resolve_default)
  moreover have "0 < 1 - computeInteractiveSlots 1 (1 / 5)" by (simp add: computeInteractiveSlots_def)
  ultimately show ?thesis
    by (simp add: serviceable_def run_env_def example_env_def DEFAULTS_def)
qed

definition run_crashed :: "unit system" where
  "run_crashed = set_replica 0 new_dispatcher run_attempted"

lemma run_to_crashed:
  "(sys_step run_env DEFAULTS (\<lambda>_. ''d''))\<^sup>*\<^sup>* (init_system [0] example_maintainer) run_crashed"
  unfolding run_crashed_def by (rule rtranclp.rtrancl_into_rtrancl [OF run_to_attempted sys_step.crash])

lemma run_crashed_row:
  "map (\<lambda>r. (r_status r, request_of r)) (rows (sy_store run_crashed))
     = [(Pend RUNNING, an_id, ''ad'', DELETE, Some ''u1'', None)]"
  by code_simp


end
