(* ===== verification/Service_Runs.thy ===== *)
theory Service_Runs
  imports Http_Props Progress
begin

text \<open>
  The service from end to end: callers reach the table through \<open>createApp\<close> only, in front of the replicas,
  the maintainer and crashes. What its routes accept always names what its kind needs, so whatever a
  caller was told is accepted can be carried out.
\<close>

section \<open>Runs with callers\<close>

text \<open>A request, or a step of the service that accepts nothing.\<close>

inductive service_step ::
  "'l disp_env \<Rightarrow> dispatcher_config \<Rightarrow> (int \<Rightarrow> string) \<Rightarrow> 'l system \<Rightarrow> 'l system \<Rightarrow> bool"
  for denv dc day_text where
  request: "fresh_id (sy_store w) (ev_new_id env) \<Longrightarrow>
    service_step denv dc day_text w (w\<lparr>sy_store := hr_store (createApp env auth rq (sy_store w))\<rparr>)"
| internal: "sys_step denv dc day_text w w' \<Longrightarrow>
    r_id ` set (rows (sy_store w')) \<subseteq> r_id ` set (rows (sy_store w)) \<Longrightarrow> service_step denv dc day_text w w'"

section \<open>What the routes accept\<close>

definition complete_input :: "enqueue_input \<Rightarrow> bool" where
  "complete_input op = complete_request ('''', e_instance_id op, e_op_type op, e_uid op, e_name_attr_value op)"

lemma admit_check_complete: "a_lane_key a = None \<Longrightarrow> admit_check caps counts a = Inr op \<Longrightarrow> complete_input op"
  by (auto simp: admit_check_def Let_def laneKeyFor_def complete_input_def split: if_splits sum.splits option.splits)

lemma enqueueRoute_store:
  assumes "enqueueRoute t b env inst oc uid rq body s = (h, es, s')"
  shows "s' = s \<or> (\<exists>op res. enqueue (ev_now env) (ev_new_id env) op s = Inr (res, s') \<and> complete_input op)"
proof (cases "s' = s")
  case False
  with assms obtain p n attrs res where
    a: "admitAndEnqueue (ev_now env) (ev_new_id env) (ev_caps env) (ev_counts env inst)
       (mutation_input t inst oc uid (idempotencyKeyOf env rq) p n attrs) s = Inr (res, s')"
    by (auto simp: enqueueRoute_def Let_def split: sum.splits prod.splits if_splits)
  then obtain counts op where
    "admit_check (ev_caps env) counts (mutation_input t inst oc uid (idempotencyKeyOf env rq) p n attrs) = Inr op"
    "enqueue (ev_now env) (ev_new_id env) op s = Inr (res, s')" by (rule admitAndEnqueue_InrE)
  moreover have "a_lane_key (mutation_input t inst oc uid (idempotencyKeyOf env rq) p n attrs) = None"
    by (simp add: mutation_input_def)
  ultimately show ?thesis using admit_check_complete by blast
qed simp

lemma createApp_store:
  "hr_store (createApp env auth rq s) = s \<or>
   (\<exists>op res. enqueue (ev_now env) (ev_new_id env) op s = Inr (res, hr_store (createApp env auth rq s)) \<and> complete_input op)"
proof -
  have "hr_store (objects_router env inst oc rest rq body s) = s \<or>
      (\<exists>op res. enqueue (ev_now env) (ev_new_id env) op s = Inr (res, hr_store (objects_router env inst oc rest rq body s)) \<and>
         complete_input op)" for inst oc rest body
    by (cases rule: objects_router_cases [of env inst oc rest rq body s]) (use enqueueRoute_store in simp_all)
  then show ?thesis using createApp_shape [of env auth rq s] by (elim disjE exE conjE) auto
qed

section \<open>Every row is complete\<close>

definition complete_rows :: "op_store \<Rightarrow> bool" where
  "complete_rows s = (\<forall>r\<in>set (rows s). complete_request (request_of r))"

lemma enqueue_complete:
  assumes "enqueue now i op s = Inr (res, s')" "complete_input op" "complete_rows s"
  shows "complete_rows s'"
  using assms(1)
  by (cases rule: enqueue_InrE)
    (use assms(2,3) in \<open>auto simp: complete_rows_def complete_input_def request_of_def new_row_def\<close>)

lemma update_where_requests:
  assumes "keeps_identity f"
  shows "request_of ` set (rows (update_where P f s)) = request_of ` set (rows s)"
proof -
  have "request_of (f r) = request_of r" for r using assms by (simp add: keeps_identity_def request_of_def)
  then show ?thesis unfolding rows_update_where set_map image_image by (intro image_cong) auto
qed

lemma store_change_requests:
  assumes "store_change s t" "r_id ` set (rows t) \<subseteq> r_id ` set (rows s)" "store_inv s"
  shows "request_of ` set (rows t) \<subseteq> request_of ` set (rows s)"
  using assms
proof (induction rule: store_change.induct)
  case (enqueued s i now op res s')
  from enqueued(2) show ?case
    by (cases rule: enqueue_InrE) (use enqueued(1,3) in \<open>auto simp: fresh_id_def\<close>)
next
  case (claimed s now held l act av)
  then show ?case by (simp add: claimBatch_def claim_commit_def Let_def update_where_requests)
next
  case (reaped s now acq th d)
  then show ?case
    by (simp add: reapStale_def Let_def reap_creates_def reap_others_def update_where_requests keeps_identity_def)
next
  case (requeued s j)
  then show ?case by (simp add: requeue_def Let_def update_where_requests keeps_identity_def)
next
  case (parked s j t)
  then show ?case by (simp add: deferForReadback_def Let_def update_where_requests keeps_identity_def)
next
  case (finalized s now j x v e)
  from finalized(2) show ?case
  proof (cases rule: finalize_dichotomy [where i = j and now = now and out = x and res = v and err = e])
    case (live r)
    have "request_of (finalize_row now x v e r) = request_of r" by (simp add: request_of_def finalize_row_def)
    then show ?thesis using live(1,5) by (auto simp: finalized_store_def)
  qed simp
next
  case (maintained s today m)
  then show ?case using committed_rows [of today m s] by blast
qed simp

lemma service_step_run:
  assumes "service_step denv dc day_text w w'"
  shows "(sys_step denv dc day_text)\<^sup>*\<^sup>* w w'"
  using assms
proof cases
  case (request env auth rq)
  from createApp_store [of env auth rq "sy_store w"] show ?thesis
  proof (elim disjE exE conjE)
    fix op res
    assume "enqueue (ev_now env) (ev_new_id env) op (sy_store w) = Inr (res, hr_store (createApp env auth rq (sy_store w)))"
    from sys_step.enqueue [OF request(2) this] show ?thesis unfolding request(1) by (rule r_into_rtranclp)
  qed (simp add: request(1))
qed auto

lemma service_run: "(service_step denv dc day_text)\<^sup>*\<^sup>* w w' \<Longrightarrow> (sys_step denv dc day_text)\<^sup>*\<^sup>* w w'"
  by (induction rule: rtranclp_induct) (auto dest: service_step_run)

lemma service_step_complete:
  assumes "service_step denv dc day_text w w'" "sys_ok denv w" "complete_rows (sy_store w)"
  shows "complete_rows (sy_store w')"
  using assms(1)
proof cases
  case (request env auth rq)
  from createApp_store [of env auth rq "sy_store w"] show ?thesis
  proof (elim disjE exE conjE)
    fix op res
    assume "enqueue (ev_now env) (ev_new_id env) op (sy_store w) = Inr (res, hr_store (createApp env auth rq (sy_store w)))"
      "complete_input op"
    from enqueue_complete [OF this assms(3)] request(1) show ?thesis by simp
  qed (use request(1) assms(3) in simp)
next
  case internal
  have "store_change (sy_store w) (sy_store w')"
    by (rule step_store_change [OF internal(1)]) (rule sys_okD [OF assms(2)])+
  note sub = store_change_requests [OF this internal(2) sys_okD(1) [OF assms(2)]]
  show ?thesis unfolding complete_rows_def
  proof
    fix r
    assume "r \<in> set (rows (sy_store w'))"
    then have "request_of r \<in> request_of ` set (rows (sy_store w))" using sub by (rule set_mp [OF _ imageI, rotated])
    then obtain q where "q \<in> set (rows (sy_store w))" "request_of r = request_of q" by (rule imageE)
    then show "complete_request (request_of r)" using assms(3) unfolding complete_rows_def by metis
  qed
qed

lemma service_run_complete:
  assumes "(service_step denv dc day_text)\<^sup>*\<^sup>* w w'" "sys_ok denv w" "complete_rows (sy_store w)"
  shows "complete_rows (sy_store w')"
  using assms
proof (induction rule: rtranclp_induct)
  case (step u v)
  then show ?case using service_step_complete reachable_ok [OF service_run [OF step(1)]] by blast
qed

section \<open>From the caller's request to the outcome\<close>


text \<open>The first deletion of \<open>accepted_stays_pollable_witness\<close>, on an instance that can be served.\<close>

definition deletion_accepted :: "unit system" where
  "deletion_accepted = first_system\<lparr>sy_store := hr_store (createApp plain_env (\<lambda>_. AuthPass) delete_request (sy_store first_system))\<rparr>"

lemma deletion_answer:
  "map_option (\<lambda>r. (rp_status r, rp_content r)) (hr_response (createApp plain_env (\<lambda>_. AuthPass) delete_request (sy_store first_system)))
     = Some (202, Json (JObj [(''operationId'', JStr an_id), (''status'', JStr ''PENDING''), (''idempotencyKey'', JStr ''k1'')]))"
  "map_option (\<lambda>st. (s_status st, s_instance_id st)) (getStatus an_id (sy_store deletion_accepted)) = Some (Pend PENDING, ''ad'')"
  by code_simp+


end
