(* ===== verification/Claim_Greedy.thy ===== *)
theory Claim_Greedy
  imports Claim_Protocol
begin

text \<open>
  The claim query, three window functions over a join, computes what a plain loop computes: walk over
  the claimable rows in claim order, take a row while its instance has slots left, its class has
  slots left and its lane is untouched, and stop at the limit. The loop is the one
  \<open>test/harness/MemoryOperationStore.ts\<close> uses in place of the query.
\<close>

section \<open>The loop\<close>

definition slots :: "(string \<rightharpoonup> int) \<Rightarrow> string \<Rightarrow> int" where
  "slots m i = (case m i of None \<Rightarrow> 0 | Some n \<Rightarrow> n)"

text \<open>\<open>for (const row of candidates)\<close>: \<open>room\<close> is \<open>limit - claimed.length\<close>.\<close>

fun claim_loop ::
  "int \<Rightarrow> (string \<rightharpoonup> int) \<Rightarrow> (string \<rightharpoonup> int) \<Rightarrow> string set \<Rightarrow> op_row list \<Rightarrow> op_row list" where
  "claim_loop room remaining batchRemaining taken [] = []"
| "claim_loop room remaining batchRemaining taken (row # candidates) =
     (let i = r_instance_id row; left = slots remaining i; batchLeft = slots batchRemaining i
      in if room \<le> 0 then []
         else if left \<le> 0 then claim_loop room remaining batchRemaining taken candidates
         else if r_lane_key row \<in> taken then claim_loop room remaining batchRemaining taken candidates
         else if r_priority row = Batch \<and> batchLeft \<le> 0 then claim_loop room remaining batchRemaining taken candidates
         else row # claim_loop (room - 1) (remaining(i \<mapsto> left - 1))
                (if r_priority row = Batch then batchRemaining(i \<mapsto> batchLeft - 1) else batchRemaining)
                (insert (r_lane_key row) taken) candidates)"

section \<open>Positions in a sorted list\<close>

lemma row_number_split:
  assumes "distinct xs" "sort_key k xs = us @ x # vs"
  shows "row_number p k xs x = Suc (length (filter (\<lambda>y. p y = p x) us))"
proof -
  have "distinct (us @ x # vs)" using assms by (metis distinct_sort)
  then have "x \<notin> set (filter (\<lambda>y. p y = p x) us)" by simp
  moreover have "sort_key k (filter (\<lambda>y. p y = p x) xs) = filter (\<lambda>y. p y = p x) us @ x # filter (\<lambda>y. p y = p x) vs"
    using assms(2) by (simp flip: filter_sort)
  ultimately show ?thesis by (simp add: row_number_def takeWhile_neq_split)
qed

section \<open>Lane leaders\<close>

text \<open>The first of each lane in claim order.\<close>

fun first_of :: "('a \<Rightarrow> 'k) \<Rightarrow> 'k set \<Rightarrow> 'a list \<Rightarrow> 'a list" where
  "first_of f seen [] = []"
| "first_of f seen (x # xs) = (if f x \<in> seen then first_of f seen xs else x # first_of f (insert (f x) seen) xs)"

lemma filter_first:
  assumes "distinct (us @ vs)" "\<And>us' x vs'. us @ vs = us' @ x # vs' \<Longrightarrow> P x \<longleftrightarrow> f x \<notin> f ` set us'"
  shows "filter P vs = first_of f (f ` set us) vs"
  using assms
proof (induction vs arbitrary: us)
  case (Cons x vs)
  have x: "P x \<longleftrightarrow> f x \<notin> f ` set us" using Cons.prems(2) [of us x vs] by simp
  have "filter P vs = first_of f (f ` set (us @ [x])) vs"
    by (rule Cons.IH) (use Cons.prems in simp_all)
  then show ?case using x by (simp add: insert_absorb)
qed simp

lemma leaders_first:
  assumes "distinct rs"
  shows "sort_key claim_order (lane_leaders now act cs rs)
    = first_of lane_of {} (sort_key claim_order (lane_candidates now act cs rs))"
proof -
  let ?xs = "lane_candidates now act cs rs"
  let ?P = "\<lambda>r. row_number lane_of claim_order ?xs r = 1"
  have d: "distinct ?xs" using assms by (simp add: lane_candidates_def)
  have "?P x \<longleftrightarrow> lane_of x \<notin> lane_of ` set us'" if s: "[] @ sort_key claim_order ?xs = us' @ x # vs'" for us' x vs'
  proof -
    have "row_number lane_of claim_order ?xs x = Suc (length (filter (\<lambda>y. lane_of y = lane_of x) us'))"
      by (rule row_number_split [OF d]) (use s in simp)
    then show ?thesis by (auto simp: filter_empty_conv) (metis imageI)
  qed
  from filter_first [OF _ this, of "[]"] d have "filter ?P (sort_key claim_order ?xs) = first_of lane_of {} (sort_key claim_order ?xs)"
    by simp
  then show ?thesis by (simp add: lane_leaders_def Let_def filter_sort)
qed

text \<open>A row behind a leader of its lane is never taken: the lane is taken, or what refused the leader
  refuses the row.\<close>

definition refused :: "(string \<rightharpoonup> int) \<Rightarrow> (string \<rightharpoonup> int) \<Rightarrow> op_row \<Rightarrow> bool" where
  "refused remaining batchRemaining r =
     (slots remaining (r_instance_id r) \<le> 0 \<or> r_priority r = Batch \<and> slots batchRemaining (r_instance_id r) \<le> 0)"

text \<open>The loop without its lane test.\<close>

fun cap_loop ::
  "int \<Rightarrow> (string \<rightharpoonup> int) \<Rightarrow> (string \<rightharpoonup> int) \<Rightarrow> op_row list \<Rightarrow> op_row list" where
  "cap_loop room remaining batchRemaining [] = []"
| "cap_loop room remaining batchRemaining (row # candidates) =
     (let i = r_instance_id row
      in if room \<le> 0 then []
         else if refused remaining batchRemaining row then cap_loop room remaining batchRemaining candidates
         else row # cap_loop (room - 1) (remaining(i \<mapsto> slots remaining i - 1))
                (if r_priority row = Batch then batchRemaining(i \<mapsto> slots batchRemaining i - 1) else batchRemaining) candidates)"

lemma slots_upd [simp]: "slots (m(i \<mapsto> n)) j = (if j = i then n else slots m j)"
  by (simp add: slots_def)

lemma refused_later:
  assumes "refused remaining batchRemaining r" "n \<le> slots remaining i" "b \<le> slots batchRemaining i"
  shows "refused (remaining(i \<mapsto> n)) batchRemaining r" "refused (remaining(i \<mapsto> n)) (batchRemaining(i \<mapsto> b)) r"
  using assms by (auto simp: refused_def)

lemma loops_full:
  "room \<le> 0 \<Longrightarrow> claim_loop room remaining batchRemaining taken zs = []"
  "room \<le> 0 \<Longrightarrow> cap_loop room remaining batchRemaining zs = []"
  by (cases zs; simp)+

text \<open>\<open>behind\<close>: the leaders met so far whose lane was not taken.\<close>

lemma claim_loop_leaders:
  assumes "sorted (map r_priority (behind @ zs))"
    and "\<And>q r. q \<in> set (behind @ zs) \<Longrightarrow> r \<in> set (behind @ zs) \<Longrightarrow> r_lane_key q = r_lane_key r \<Longrightarrow> r_instance_id q = r_instance_id r"
    and "\<And>q. q \<in> set behind \<Longrightarrow> refused remaining batchRemaining q"
    and "\<And>q. q \<in> set zs \<Longrightarrow> lane_of q \<in> seen \<longleftrightarrow> r_lane_key q \<in> taken \<or> r_lane_key q \<in> r_lane_key ` set behind"
  shows "claim_loop room remaining batchRemaining taken zs = cap_loop room remaining batchRemaining (first_of lane_of seen zs)"
  using assms
proof (induction zs arbitrary: behind room remaining batchRemaining taken seen)
  case (Cons z zs)
  let ?i = "r_instance_id z"
  have sub: "sorted (map r_priority (behind @ zs))" using Cons.prems(1) by (simp add: sorted_append)
  have inst: "q \<in> set (behind @ zs) \<Longrightarrow> r \<in> set (behind @ zs) \<Longrightarrow> r_lane_key q = r_lane_key r \<Longrightarrow>
      r_instance_id q = r_instance_id r" for q r
    by (rule Cons.prems(2)) auto
  show ?case
  proof (cases "lane_of z \<in> seen")
    case True
    then have z: "r_lane_key z \<in> taken \<or> r_lane_key z \<in> r_lane_key ` set behind" using Cons.prems(4) by simp
    have skip: "r_lane_key z \<in> taken \<or> refused remaining batchRemaining z"
    proof (cases "r_lane_key z \<in> taken")
      case False
      then obtain q where q: "q \<in> set behind" "r_lane_key q = r_lane_key z" using z by auto
      then have "r_instance_id q = ?i" using Cons.prems(2) [of q z] by simp
      moreover have "r_priority q \<le> r_priority z" using Cons.prems(1) q(1) by (auto simp: sorted_append)
      ultimately have "refused remaining batchRemaining z"
        using Cons.prems(3) [OF q(1)] by (cases "r_priority z") (auto simp: refused_def)
      then show ?thesis ..
    qed simp
    have "claim_loop room remaining batchRemaining taken zs
        = cap_loop room remaining batchRemaining (first_of lane_of seen zs)"
      by (rule Cons.IH [OF sub]) (rule inst, use Cons.prems(3,4) in auto)
    moreover have "claim_loop room remaining batchRemaining taken (z # zs) = claim_loop room remaining batchRemaining taken zs"
      using skip by (auto simp: refused_def loops_full Let_def)
    ultimately show ?thesis using True by simp
  next
    case False
    then have nt: "r_lane_key z \<notin> taken" using Cons.prems(4) by simp
    have lanes: "lane_of q = lane_of z \<longleftrightarrow> r_lane_key q = r_lane_key z" if "q \<in> set zs" for q
      using Cons.prems(2) [of q z] that by (auto simp: lane_of_def)
    consider (full) "room \<le> 0" | (skip) "0 < room" "refused remaining batchRemaining z"
      | (take) "0 < room" "\<not> refused remaining batchRemaining z" by linarith
    then show ?thesis
    proof cases
      case full
      then show ?thesis using False by simp
    next
      case skip
      have "claim_loop room remaining batchRemaining taken zs
          = cap_loop room remaining batchRemaining (first_of lane_of (insert (lane_of z) seen) zs)"
      proof (rule Cons.IH [where behind = "behind @ [z]"])
        show "lane_of q \<in> insert (lane_of z) seen \<longleftrightarrow>
            r_lane_key q \<in> taken \<or> r_lane_key q \<in> r_lane_key ` set (behind @ [z])" if "q \<in> set zs" for q
          using Cons.prems(4) [of q] lanes [OF that] that by auto
        show "refused remaining batchRemaining q" if "q \<in> set (behind @ [z])" for q
          using that Cons.prems(3) skip(2) by auto
      qed (use Cons.prems(1) in simp, rule Cons.prems(2), auto)
      then show ?thesis using skip False nt by (auto simp: Let_def refused_def)
    next
      case take
      let ?rem = "remaining(?i \<mapsto> slots remaining ?i - 1)"
      let ?bat = "if r_priority z = Batch then batchRemaining(?i \<mapsto> slots batchRemaining ?i - 1) else batchRemaining"
      have "claim_loop (room - 1) ?rem ?bat (insert (r_lane_key z) taken) zs
          = cap_loop (room - 1) ?rem ?bat (first_of lane_of (insert (lane_of z) seen) zs)"
      proof (rule Cons.IH [OF sub])
        show "refused ?rem ?bat q" if "q \<in> set behind" for q
          using refused_later [OF Cons.prems(3) [OF that], of "slots remaining ?i - 1" ?i "slots batchRemaining ?i - 1"]
          by simp
        show "lane_of q \<in> insert (lane_of z) seen \<longleftrightarrow>
            r_lane_key q \<in> insert (r_lane_key z) taken \<or> r_lane_key q \<in> r_lane_key ` set behind" if "q \<in> set zs" for q
          using Cons.prems(4) [of q] lanes [OF that] that by auto
      qed (rule inst)
      then show ?thesis using take False nt by (auto simp: Let_def refused_def)
    qed
  qed
qed simp

section \<open>The caps\<close>

text \<open>Of the leaders \<open>us\<close> of one instance in claim order, those within the caps.\<close>

definition of_inst :: "string \<Rightarrow> priority \<Rightarrow> op_row list \<Rightarrow> nat" where
  "of_inst i p us = length (filter (\<lambda>r. r_instance_id r = i \<and> r_priority r = p) us)"

lemma of_inst_simps [simp]:
  "of_inst i p [] = 0"
  "of_inst i p (us @ [r]) = of_inst i p us + (if r_instance_id r = i \<and> r_priority r = p then 1 else 0)"
  by (simp_all add: of_inst_def)

lemma of_inst_total: "length (filter (\<lambda>r. r_instance_id r = i) us) = of_inst i Interactive us + of_inst i Batch us"
proof (induction us rule: rev_induct)
  case (snoc r us)
  then show ?case by (cases "r_priority r") simp_all
qed simp

text \<open>The test of the window functions at a row, over what stands before it.\<close>

definition fits_caps :: "caps \<Rightarrow> op_row list \<Rightarrow> op_row \<Rightarrow> bool" where
  "fits_caps cs us r =
     (int (of_inst (r_instance_id r) Interactive us + of_inst (r_instance_id r) Batch us) + 1 \<le> cap_of cs r \<and>
      (r_priority r = Batch \<longrightarrow> int (of_inst (r_instance_id r) Batch us) + 1 \<le> batch_cap_of cs r))"

lemma within_caps_prefix:
  assumes "distinct ls" "sort_key claim_order ls = us @ r # vs"
  shows "within_caps cs ls r \<longleftrightarrow> fits_caps cs us r"
proof -
  let ?p = "\<lambda>q. (r_instance_id q, r_priority q)"
  have a: "row_number r_instance_id claim_order ls r = Suc (of_inst (r_instance_id r) Interactive us + of_inst (r_instance_id r) Batch us)"
    by (simp add: row_number_split [OF assms] of_inst_total)
  have "row_number ?p r_created_at ls r = row_number ?p claim_order ls r"
    by (rule row_number_cong) (auto simp: claim_order_def)
  also have "\<dots> = Suc (of_inst (r_instance_id r) (r_priority r) us)"
    by (simp add: row_number_split [OF assms] of_inst_def)
  finally show ?thesis using a by (auto simp: within_caps_def fits_caps_def)
qed

fun caps_pass :: "caps \<Rightarrow> op_row list \<Rightarrow> op_row list \<Rightarrow> op_row list" where
  "caps_pass cs us [] = []"
| "caps_pass cs us (r # rs) = (if fits_caps cs us r then r # caps_pass cs (us @ [r]) rs else caps_pass cs (us @ [r]) rs)"

lemma filter_caps_pass:
  assumes "distinct ls" "sort_key claim_order ls = us @ vs"
  shows "filter (within_caps cs ls) vs = caps_pass cs us vs"
  using assms(2)
proof (induction vs arbitrary: us)
  case (Cons r vs)
  from within_caps_prefix [OF assms(1) Cons.prems, of cs] Cons.IH [of "us @ [r]"] Cons.prems show ?case by simp
qed simp

text \<open>What the counters of an instance hold after \<open>n\<close> interactive rows and then \<open>m\<close> batch rows were met.\<close>

definition batch_taken :: "int \<Rightarrow> int \<Rightarrow> int \<Rightarrow> int \<Rightarrow> int" where
  "batch_taken cap b n m = min m (min b (max 0 (cap - n)))"

definition left_at :: "int \<Rightarrow> int \<Rightarrow> int \<Rightarrow> int \<Rightarrow> int" where
  "left_at cap b n m = cap - min n cap - batch_taken cap b n m"

lemma interactive_met:
  assumes "0 < cap" "0 \<le> b" "0 \<le> n"
  shows "left_at cap b n 0 \<le> 0 \<longleftrightarrow> cap < n + 1" "batch_taken cap b (n + 1) 0 = batch_taken cap b n 0"
    "n + 1 \<le> cap \<Longrightarrow> left_at cap b (n + 1) 0 = left_at cap b n 0 - 1"
    "cap < n + 1 \<Longrightarrow> left_at cap b (n + 1) 0 = left_at cap b n 0"
  using assms by (auto simp: left_at_def batch_taken_def)

lemma batch_met:
  assumes "0 < cap" "0 \<le> b" "0 \<le> n" "0 \<le> m"
  shows "left_at cap b n m \<le> 0 \<or> b - batch_taken cap b n m \<le> 0 \<longleftrightarrow> cap < n + m + 1 \<or> b < m + 1"
    "n + m + 1 \<le> cap \<Longrightarrow> m + 1 \<le> b \<Longrightarrow> batch_taken cap b n (m + 1) = batch_taken cap b n m + 1"
    "n + m + 1 \<le> cap \<Longrightarrow> m + 1 \<le> b \<Longrightarrow> left_at cap b n (m + 1) = left_at cap b n m - 1"
    "cap < n + m + 1 \<or> b < m + 1 \<Longrightarrow> batch_taken cap b n (m + 1) = batch_taken cap b n m"
    "cap < n + m + 1 \<or> b < m + 1 \<Longrightarrow> left_at cap b n (m + 1) = left_at cap b n m"
  using assms by (auto simp: left_at_def batch_taken_def)

text \<open>The counters of the loop after it has met \<open>us\<close>.\<close>

definition left_after :: "caps \<Rightarrow> op_row list \<Rightarrow> (string \<rightharpoonup> int) \<Rightarrow> (string \<rightharpoonup> int) \<Rightarrow> bool" where
  "left_after cs us remaining batchRemaining =
     (\<forall>i cap b. map_of cs i = Some (cap, b) \<longrightarrow>
        slots remaining i = left_at cap b (int (of_inst i Interactive us)) (int (of_inst i Batch us)) \<and>
        slots batchRemaining i = b - batch_taken cap b (int (of_inst i Interactive us)) (int (of_inst i Batch us)))"

lemma no_batch_before:
  assumes "sorted (map r_priority (us @ [r]))" "r_priority r = Interactive"
  shows "of_inst i Batch us = 0"
proof -
  have "r_priority u \<noteq> Batch" if "u \<in> set us" for u
    using assms that by (fastforce simp: sorted_append)
  then show ?thesis by (auto simp: of_inst_def filter_empty_conv)
qed

lemma meet_row:
  assumes s: "sorted (map r_priority (us @ [r]))" and l: "left_after cs us remaining batchRemaining"
    and c: "map_of cs (r_instance_id r) = Some (cap, b)" and pos: "0 < cap" "0 \<le> b"
  shows refused_fits: "refused remaining batchRemaining r \<longleftrightarrow> \<not> fits_caps cs us r"
    and left_after_take: "fits_caps cs us r \<Longrightarrow> left_after cs (us @ [r])
      (remaining(r_instance_id r \<mapsto> slots remaining (r_instance_id r) - 1))
      (if r_priority r = Batch then batchRemaining(r_instance_id r \<mapsto> slots batchRemaining (r_instance_id r) - 1)
       else batchRemaining)"
    and left_after_skip: "\<not> fits_caps cs us r \<Longrightarrow> left_after cs (us @ [r]) remaining batchRemaining"
proof -
  let ?i = "r_instance_id r"
  let ?n = "int (of_inst ?i Interactive us)" and ?m = "int (of_inst ?i Batch us)"
  have here: "slots remaining ?i = left_at cap b ?n ?m" "slots batchRemaining ?i = b - batch_taken cap b ?n ?m"
    and there: "\<And>i cap b. map_of cs i = Some (cap, b) \<Longrightarrow>
        slots remaining i = left_at cap b (int (of_inst i Interactive us)) (int (of_inst i Batch us)) \<and>
        slots batchRemaining i = b - batch_taken cap b (int (of_inst i Interactive us)) (int (of_inst i Batch us))"
    using l c by (simp_all add: left_after_def)
  have fits: "fits_caps cs us r \<longleftrightarrow> ?n + ?m + 1 \<le> cap \<and> (r_priority r = Batch \<longrightarrow> ?m + 1 \<le> b)"
    using c by (simp add: fits_caps_def cap_of_def batch_cap_of_def)
  have first: "r_priority r = Interactive \<Longrightarrow> ?m = 0" using no_batch_before [OF s] by simp
  note i = interactive_met [OF pos, of ?n] and bt = batch_met [OF pos, of ?n ?m]
  show "refused remaining batchRemaining r \<longleftrightarrow> \<not> fits_caps cs us r"
    using i bt first by (cases "r_priority r") (auto simp: refused_def here fits)
  show "left_after cs (us @ [r]) (remaining(?i \<mapsto> slots remaining ?i - 1))
      (if r_priority r = Batch then batchRemaining(?i \<mapsto> slots batchRemaining ?i - 1) else batchRemaining)"
    if "fits_caps cs us r"
    using that i bt first c there
    by (cases "r_priority r") (auto simp: left_after_def here fits add.commute [of 1])
  show "left_after cs (us @ [r]) remaining batchRemaining" if "\<not> fits_caps cs us r"
    using that i bt first c there
    by (cases "r_priority r") (auto simp: left_after_def here fits add.commute [of 1])
qed

lemma cap_loop_caps:
  assumes "sorted (map r_priority (us @ vs))" "left_after cs us remaining batchRemaining"
    and "\<And>r. r \<in> set vs \<Longrightarrow> r_instance_id r \<in> set (map fst cs)"
    and "\<And>i cap b. map_of cs i = Some (cap, b) \<Longrightarrow> 0 < cap \<and> 0 \<le> b"
  shows "cap_loop room remaining batchRemaining vs = take (nat room) (caps_pass cs us vs)"
  using assms(1-3)
proof (induction vs arbitrary: us room remaining batchRemaining)
  case (Cons r vs)
  obtain cap b where c: "map_of cs (r_instance_id r) = Some (cap, b)"
    using Cons.prems(3) [of r] by (cases "map_of cs (r_instance_id r)") (auto simp: map_of_eq_None_iff)
  have s: "sorted (map r_priority (us @ [r]))" using Cons.prems(1) by (auto simp: sorted_append)
  note meet = meet_row [OF s Cons.prems(2) c] assms(4) [OF c]
  have rest: "sorted (map r_priority ((us @ [r]) @ vs))" "\<And>q. q \<in> set vs \<Longrightarrow> r_instance_id q \<in> set (map fst cs)"
    using Cons.prems(1,3) by simp_all
  show ?case
  proof (cases "room \<le> 0")
    case False
    then have "nat room = Suc (nat (room - 1))" by simp
    then show ?thesis
      using meet Cons.IH [OF rest(1) _ rest(2)] False by (cases "fits_caps cs us r") (simp_all add: Let_def)
  qed (simp add: loops_full)
qed simp

section \<open>The query is the loop\<close>

definition start_slots :: "caps \<Rightarrow> (string \<rightharpoonup> int) \<times> (string \<rightharpoonup> int)" where
  "start_slots cs = (\<lambda>i. map_option fst (map_of cs i), \<lambda>i. map_option snd (map_of cs i))"

definition own_lanes :: "op_row list \<Rightarrow> bool" where
  "own_lanes rs = (\<forall>q\<in>set rs. \<forall>r\<in>set rs. r_lane_key q = r_lane_key r \<longrightarrow> r_instance_id q = r_instance_id r)"

lemma first_of_subset: "set (first_of f seen xs) \<subseteq> set xs"
  by (induction xs arbitrary: seen) auto

lemma first_of_sorted: "sorted (map k xs) \<Longrightarrow> sorted (map k (first_of f seen xs))"
  using first_of_subset by (induction xs arbitrary: seen) (simp, fastforce)

lemma sorted_priority: "sorted (map claim_order xs) \<Longrightarrow> sorted (map r_priority xs)"
  by (induction xs) (auto simp: claim_order_def less_eq_prod_def)

lemma picked_greedy:
  assumes "distinct rs" "own_lanes (lane_candidates now act cs rs)"
    and "\<And>i cap b. map_of cs i = Some (cap, b) \<Longrightarrow> 0 < cap \<and> 0 \<le> b"
  shows "picked now limit act cs rs =
    claim_loop limit (fst (start_slots cs)) (snd (start_slots cs)) {}
      (sort_key claim_order (lane_candidates now act cs rs))"
proof -
  let ?xs = "lane_candidates now act cs rs" and ?ls = "lane_leaders now act cs rs"
  let ?zs = "sort_key claim_order ?xs"
  have sub: "set ?zs = set ?xs" by simp
  have "claim_loop limit (fst (start_slots cs)) (snd (start_slots cs)) {} ?zs
      = cap_loop limit (fst (start_slots cs)) (snd (start_slots cs)) (first_of lane_of {} ?zs)"
  proof (rule claim_loop_leaders [where behind = "[]"])
    show "sorted (map r_priority ([] @ ?zs))" using sorted_priority by simp
    show "r_instance_id q = r_instance_id r"
      if "q \<in> set ([] @ ?zs)" "r \<in> set ([] @ ?zs)" "r_lane_key q = r_lane_key r" for q r
      using assms(2) that unfolding own_lanes_def append_Nil sub by blast
  qed simp_all
  also have "\<dots> = cap_loop limit (fst (start_slots cs)) (snd (start_slots cs)) (sort_key claim_order ?ls)"
    by (simp add: leaders_first [OF assms(1)])
  also have "\<dots> = take (nat limit) (caps_pass cs [] (sort_key claim_order ?ls))"
  proof (rule cap_loop_caps)
    show "sorted (map r_priority ([] @ sort_key claim_order ?ls))" using sorted_priority by simp
    show "left_after cs [] (fst (start_slots cs)) (snd (start_slots cs))"
      using assms(3) by (fastforce simp: left_after_def left_at_def batch_taken_def start_slots_def slots_def Let_def)
    show "r_instance_id r \<in> set (map fst cs)" if "r \<in> set (sort_key claim_order ?ls)" for r
      using that lane_leaders_candidate by (simp add: lane_candidates_iff)
  qed (rule assms(3))
  also have "caps_pass cs [] (sort_key claim_order ?ls) = filter (within_caps cs ?ls) (sort_key claim_order ?ls)"
    by (rule filter_caps_pass [symmetric]) (simp_all add: distinct_leaders [OF assms(1)])
  finally show ?thesis by (simp add: picked_def Let_def filter_sort)
qed

end
