(* ===== verification/Memory_Store.thy ===== *)
theory Memory_Store
  imports Claim_Greedy Store_Contract Claim_Props "HOL-Library.Multiset"
begin

text \<open>
  \<open>test/harness/MemoryOperationStore.ts\<close>: the store the dispatcher's tests run against in place of the
  table. It keeps the contract \<open>operation_store\<close>, and its claim takes what the claim query takes,
  while no two instances share a lane key. Times are in milliseconds. A \<open>Map\<close> that is iterated is a
  list in insertion order, one that is only looked up is a map.
\<close>

section \<open>State\<close>

record mem_store =
  m_rows :: "op_row list"
  m_history :: "string \<rightharpoonup> history_row"
  m_byIdempotencyKey :: "string \<rightharpoonup> string"
  m_seq :: nat

definition new_mem_store :: mem_store where
  "new_mem_store = \<lparr> m_rows = [], m_history = Map.empty, m_byIdempotencyKey = Map.empty, m_seq = 0 \<rparr>"

text \<open>\<open>rows.delete\<close> and a statement over the row with an id.\<close>

definition expireHotRow :: "string \<Rightarrow> mem_store \<Rightarrow> mem_store" where
  "expireHotRow i s = s\<lparr>m_rows := filter (\<lambda>r. r_id r \<noteq> i) (m_rows s)\<rparr>"

definition mem_update :: "(op_row \<Rightarrow> bool) \<Rightarrow> (op_row \<Rightarrow> op_row) \<Rightarrow> mem_store \<Rightarrow> mem_store" where
  "mem_update P f s = s\<lparr>m_rows := map (\<lambda>r. if P r then f r else r) (m_rows s)\<rparr>"

section \<open>enqueue\<close>

text \<open>\<open>new Date(x)\<close> drops the fraction of a millisecond.\<close>

definition date_of :: "jsnum \<Rightarrow> int" where
  "date_of x = (case x of Fin q \<Rightarrow> (if 0 \<le> q then \<lfloor>q\<rfloor> else \<lceil>q\<rceil>) | _ \<Rightarrow> 0)"

definition mem_created_at :: "int \<Rightarrow> nat \<Rightarrow> int" where
  "mem_created_at now seq =
     date_of (case to_double (of_nat seq / 1000000) of Fin q \<Rightarrow> to_double (of_int now + q) | x \<Rightarrow> x)"

definition mem_new_row :: "int \<Rightarrow> nat \<Rightarrow> enqueue_input \<Rightarrow> op_row" where
  "mem_new_row now seq op =
     \<lparr> r_id = ''op-'' @ int_to_string (int seq),
       r_instance_id = e_instance_id op,
       r_object_class = e_object_class op,
       r_op_type = e_op_type op,
       r_priority = (case e_priority op of None \<Rightarrow> Batch | Some p \<Rightarrow> p),
       r_status = Pend PENDING,
       r_lane_key = e_lane_key op,
       r_uid = e_uid op,
       r_name_attr_value = e_name_attr_value op,
       r_attrs = e_attrs op,
       r_result = None,
       r_error_code = None,
       r_attempt_count = 0,
       r_created_at = mem_created_at now seq,
       r_claimed_at = None,
       r_finalized_at = None,
       r_idempotency_key = e_idempotency_key op,
       r_not_before = None \<rparr>"

definition mem_enqueue :: "int \<Rightarrow> enqueue_input \<Rightarrow> mem_store \<Rightarrow> enqueue_result \<times> mem_store" where
  "mem_enqueue now op s =
     (case m_byIdempotencyKey s (e_idempotency_key op) of
        Some i \<Rightarrow> (\<lparr> er_id = i, er_deduplicated = True \<rparr>, s)
      | None \<Rightarrow>
          let seq = m_seq s + 1; row = mem_new_row now seq op
          in (\<lparr> er_id = r_id row, er_deduplicated = False \<rparr>,
              s\<lparr>m_seq := seq, m_rows := m_rows s @ [row],
                m_byIdempotencyKey := (m_byIdempotencyKey s)(e_idempotency_key op \<mapsto> r_id row)\<rparr>))"

section \<open>claimBatch\<close>

definition mem_remaining :: "(string \<times> availability) list \<Rightarrow> string \<rightharpoonup> int" where
  "mem_remaining av i =
     (case map_of av i of Some a \<Rightarrow> if 0 < totalFree a then Some (totalFree a) else None | None \<Rightarrow> None)"

definition mem_batchRemaining :: "(string \<times> availability) list \<Rightarrow> string \<rightharpoonup> int" where
  "mem_batchRemaining av i =
     (case map_of av i of
        Some a \<Rightarrow> if 0 < totalFree a then Some (max 0 (min (batchFree a) (totalFree a))) else None
      | None \<Rightarrow> None)"

definition mem_blockedLanes :: "int \<Rightarrow> op_row list \<Rightarrow> (string \<times> string) set" where
  "mem_blockedLanes now os =
     lane_of ` {r \<in> set os. r_status r = Pend RUNNING \<or>
       r_status r = Pend AWAITING_READBACK \<and> (case r_not_before r of None \<Rightarrow> False | Some t \<Rightarrow> now < t)}"

definition mem_candidates :: "int \<Rightarrow> string list \<Rightarrow> (string \<rightharpoonup> int) \<Rightarrow> op_row list \<Rightarrow> op_row list" where
  "mem_candidates now active remaining os =
     sort_key claim_order (filter (\<lambda>r. lane_of r \<notin> mem_blockedLanes now os) (filter (\<lambda>r. r_lane_key r \<notin> set active)
       (filter (\<lambda>r. remaining (r_instance_id r) \<noteq> None)
         (filter (\<lambda>r. r_status r = Pend PENDING \<or>
            r_status r = Pend AWAITING_READBACK \<and> (case r_not_before r of None \<Rightarrow> True | Some t \<Rightarrow> t \<le> now)) os))))"

definition mem_claimed :: "int \<Rightarrow> int \<Rightarrow> string list \<Rightarrow> (string \<times> availability) list \<Rightarrow> mem_store \<Rightarrow> op_row list" where
  "mem_claimed now limit active av s =
     claim_loop limit (mem_remaining av) (mem_batchRemaining av) {} (mem_candidates now active (mem_remaining av) (m_rows s))"

definition mem_claimBatch ::
  "int \<Rightarrow> int \<Rightarrow> string list \<Rightarrow> (string \<times> availability) list \<Rightarrow> mem_store \<Rightarrow> claimed_op list \<times> mem_store" where
  "mem_claimBatch now limit active av s =
     (if limit \<le> 0 \<or> (\<forall>i\<in>set (map fst av). mem_remaining av i = None) then ([], s)
      else let claimed = mem_claimed now limit active av s
           in (map to_claimed claimed,
               mem_update (\<lambda>r. r_id r \<in> set (map r_id claimed))
                 (\<lambda>r. r\<lparr>r_status := Pend RUNNING, r_claimed_at := Some now, r_not_before := None\<rparr>) s))"

section \<open>The other operations\<close>

definition mem_running :: "string \<Rightarrow> op_row \<Rightarrow> bool" where
  "mem_running i r = (r_id r = i \<and> r_status r = Pend RUNNING)"

definition mem_deferForReadback :: "string \<Rightarrow> int \<Rightarrow> mem_store \<Rightarrow> bool \<times> mem_store" where
  "mem_deferForReadback i notBefore s =
     (list_ex (mem_running i) (m_rows s),
      mem_update (mem_running i) (\<lambda>r. r\<lparr>r_status := Pend AWAITING_READBACK, r_claimed_at := None,
        r_not_before := Some notBefore\<rparr>) s)"

definition mem_requeue :: "string \<Rightarrow> mem_store \<Rightarrow> bool \<times> mem_store" where
  "mem_requeue i s =
     (list_ex (mem_running i) (m_rows s),
      mem_update (mem_running i) (\<lambda>r. r\<lparr>r_status := Pend PENDING, r_attempt_count := r_attempt_count r + 1\<rparr>) s)"

definition mem_stale :: "int \<Rightarrow> int \<Rightarrow> op_row \<Rightarrow> bool" where
  "mem_stale now thresholdMs r =
     (r_status r = Pend RUNNING \<and> (case r_claimed_at r of None \<Rightarrow> False | Some t \<Rightarrow> thresholdMs \<le> now - t))"

definition mem_reap_row :: "int \<Rightarrow> int \<Rightarrow> op_row \<Rightarrow> op_row" where
  "mem_reap_row now readBackDelayMs r =
     (if r_op_type r = CREATE
      then r\<lparr>r_status := Pend AWAITING_READBACK, r_claimed_at := None, r_not_before := Some (now + readBackDelayMs)\<rparr>
      else r\<lparr>r_status := Pend PENDING, r_claimed_at := None, r_not_before := None\<rparr>)"

definition mem_reapStale :: "int \<Rightarrow> int \<Rightarrow> int \<Rightarrow> mem_store \<Rightarrow> reap_result \<times> mem_store" where
  "mem_reapStale now thresholdMs readBackDelayMs s =
     (let stale = filter (mem_stale now thresholdMs) (m_rows s)
      in (\<lparr> deferredForReadback = length (filter (\<lambda>r. r_op_type r = CREATE) stale),
            requeued = length (filter (\<lambda>r. r_op_type r \<noteq> CREATE) stale) \<rparr>,
          mem_update (mem_stale now thresholdMs) (mem_reap_row now readBackDelayMs) s))"

definition mem_finalize ::
  "int \<Rightarrow> string \<Rightarrow> outcome \<Rightarrow> json option \<Rightarrow> string option \<Rightarrow> mem_store \<Rightarrow> bool \<times> mem_store" where
  "mem_finalize now i out res err s =
     (case List.find (\<lambda>r. r_id r = i) (m_rows s) of
        None \<Rightarrow> (False, s)
      | Some r \<Rightarrow>
          if terminal (r_status r) then (False, s)
          else let r' = r\<lparr>r_status := Outc out, r_result := (case res of None \<Rightarrow> r_result r | Some v \<Rightarrow> Some v),
                          r_error_code := err, r_finalized_at := Some now\<rparr>
               in (True, (mem_update (\<lambda>q. r_id q = i) (\<lambda>q. r') s)
                     \<lparr>m_history := (m_history s)(i \<mapsto> history_of now r')\<rparr>))"

definition mem_pendingCounts :: "string \<Rightarrow> mem_store \<Rightarrow> pending_counts" where
  "mem_pendingCounts inst s =
     (let waiting = filter (\<lambda>r. r_instance_id r = inst \<and>
            (r_status r = Pend PENDING \<or> r_status r = Pend AWAITING_READBACK)) (m_rows s)
      in \<lparr> interactive_count = length (filter (\<lambda>r. r_priority r = Interactive) waiting),
           batch_count = length (filter (\<lambda>r. r_priority r \<noteq> Interactive) waiting) \<rparr>)"

definition mem_getStatus :: "string \<Rightarrow> mem_store \<Rightarrow> status_row option" where
  "mem_getStatus i s =
     (case List.find (\<lambda>r. r_id r = i) (m_rows s) of
        Some r \<Rightarrow> Some \<lparr> s_id = r_id r, s_instance_id = r_instance_id r, s_object_class = r_object_class r,
            s_op_type = r_op_type r, s_status = r_status r, s_attempt_count = r_attempt_count r,
            s_result = r_result r, s_error_code = r_error_code r, s_created_at = r_created_at r,
            s_finalized_at = r_finalized_at r, s_from_history = False, s_priority = None \<rparr>
      | None \<Rightarrow> map_option status_of_history (m_history s i))"

section \<open>What the loop takes\<close>

lemma claim_loop_cases:
  obtains (stop) "claim_loop room remaining batchRemaining taken (z # zs) = []"
  | (skip) "claim_loop room remaining batchRemaining taken (z # zs) = claim_loop room remaining batchRemaining taken zs"
  | (take) "r_lane_key z \<notin> taken" "0 < slots remaining (r_instance_id z)"
      "r_priority z = Batch \<Longrightarrow> 0 < slots batchRemaining (r_instance_id z)"
      "claim_loop room remaining batchRemaining taken (z # zs) =
         z # claim_loop (room - 1) (remaining(r_instance_id z \<mapsto> slots remaining (r_instance_id z) - 1))
               (if r_priority z = Batch
                then batchRemaining(r_instance_id z \<mapsto> slots batchRemaining (r_instance_id z) - 1) else batchRemaining)
               (insert (r_lane_key z) taken) zs"
proof (cases "room \<le> 0 \<or> slots remaining (r_instance_id z) \<le> 0 \<or> r_lane_key z \<in> taken \<or>
    r_priority z = Batch \<and> slots batchRemaining (r_instance_id z) \<le> 0")
  case True
  then have "claim_loop room remaining batchRemaining taken (z # zs)
      \<in> {[], claim_loop room remaining batchRemaining taken zs}" by (auto simp: Let_def)
  then show thesis using stop skip by blast
next
  case False
  then show thesis by (intro take) (auto simp: Let_def)
qed

lemma claim_loop_subset: "set (claim_loop room remaining batchRemaining taken zs) \<subseteq> set zs"
proof (induction zs arbitrary: room remaining batchRemaining taken)
  case (Cons z zs)
  show ?case
    by (cases rule: claim_loop_cases [of room remaining batchRemaining taken z zs])
      (use Cons.IH in \<open>simp_all only: set_simps empty_subsetI, blast+\<close>)
qed simp

lemma claim_loop_total:
  "int (length (filter (\<lambda>r. r_instance_id r = i) (claim_loop room remaining batchRemaining taken zs)))
     \<le> max 0 (slots remaining i)"
proof (induction zs arbitrary: room remaining batchRemaining taken)
  case (Cons z zs)
  show ?case
  proof (cases rule: claim_loop_cases [of room remaining batchRemaining taken z zs])
    case take
    have "int (length (filter (\<lambda>r. r_instance_id r = i) (tl (claim_loop room remaining batchRemaining taken (z # zs)))))
        \<le> max 0 (slots (remaining(r_instance_id z \<mapsto> slots remaining (r_instance_id z) - 1)) i)"
      unfolding take(4) list.sel by (rule Cons.IH)
    then show ?thesis unfolding take(4) list.sel using take(2) by (simp split: if_splits)
  qed (use Cons.IH in simp_all)
qed simp

lemma claim_loop_batch:
  "int (length (filter (\<lambda>r. r_instance_id r = i \<and> r_priority r = Batch)
     (claim_loop room remaining batchRemaining taken zs))) \<le> max 0 (slots batchRemaining i)"
proof (induction zs arbitrary: room remaining batchRemaining taken)
  case (Cons z zs)
  show ?case
  proof (cases rule: claim_loop_cases [of room remaining batchRemaining taken z zs])
    case take
    have "int (length (filter (\<lambda>r. r_instance_id r = i \<and> r_priority r = Batch)
          (tl (claim_loop room remaining batchRemaining taken (z # zs)))))
        \<le> max 0 (slots (if r_priority z = Batch
             then batchRemaining(r_instance_id z \<mapsto> slots batchRemaining (r_instance_id z) - 1) else batchRemaining) i)"
      unfolding take(4) list.sel by (rule Cons.IH)
    then show ?thesis unfolding take(4) list.sel using take(3) by (simp split: if_splits)
  qed (use Cons.IH in simp_all)
qed simp

lemma claim_loop_lanes:
  "distinct (map r_lane_key (claim_loop room remaining batchRemaining taken zs)) \<and>
   r_lane_key ` set (claim_loop room remaining batchRemaining taken zs) \<inter> taken = {}"
proof (induction zs arbitrary: room remaining batchRemaining taken)
  case (Cons z zs)
  show ?case
  proof (cases rule: claim_loop_cases [of room remaining batchRemaining taken z zs])
    case take
    let ?tl = "tl (claim_loop room remaining batchRemaining taken (z # zs))"
    have "distinct (map r_lane_key ?tl) \<and> r_lane_key ` set ?tl \<inter> insert (r_lane_key z) taken = {}"
      unfolding take(4) list.sel by (rule Cons.IH)
    then show ?thesis unfolding take(4) list.sel using take(1) by auto
  qed (use Cons.IH in simp_all)
qed simp

lemma mem_claimed_row:
  assumes "r \<in> set (mem_claimed now limit act av s)"
  shows "r \<in> set (m_rows s) \<and> (r_status r = Pend PENDING \<or> r_status r = Pend AWAITING_READBACK) \<and>
    mem_remaining av (r_instance_id r) \<noteq> None \<and> r_lane_key r \<notin> set act"
  using assms claim_loop_subset unfolding mem_claimed_def by (fastforce simp: mem_candidates_def)

section \<open>The contract\<close>

definition mem_inv :: "mem_store \<Rightarrow> bool" where
  "mem_inv s = (distinct (map r_id (m_rows s)) \<and> (\<forall>i h. m_history s i = Some h \<longrightarrow> terminal (h_status h)))"

definition mem_status :: "mem_store \<Rightarrow> string \<Rightarrow> op_status option" where
  "mem_status s i = map_option s_status (mem_getStatus i s)"

definition mem_row :: "string \<Rightarrow> mem_store \<Rightarrow> op_row option" where
  "mem_row i s = List.find (\<lambda>r. r_id r = i) (m_rows s)"

lemma mem_status_row:
  "mem_status s i = (case mem_row i s of Some r \<Rightarrow> Some (r_status r) | None \<Rightarrow> map_option h_status (m_history s i))"
  by (auto simp: mem_status_def mem_getStatus_def mem_row_def status_of_history_def option.map_comp comp_def
      split: option.split)

lemma mem_row_update:
  assumes "\<And>r. r_id (f r) = r_id r"
  shows "mem_row i (mem_update P f s) = map_option (\<lambda>r. if P r then f r else r) (mem_row i s)"
proof -
  have "List.find (\<lambda>r. r_id r = i) (map (\<lambda>r. if P r then f r else r) rs)
      = map_option (\<lambda>r. if P r then f r else r) (List.find (\<lambda>r. r_id r = i) rs)" for rs
    by (induction rs) (auto simp: assms)
  then show ?thesis by (simp add: mem_row_def mem_update_def)
qed

lemma mem_update_keeps:
  assumes "\<And>r. r_id (f r) = r_id r" "mem_inv s"
  shows "mem_inv (mem_update P f s)"
proof -
  have "map r_id (m_rows (mem_update P f s)) = map r_id (m_rows s)" "m_history (mem_update P f s) = m_history s"
    by (simp_all add: mem_update_def assms(1))
  with assms(2) show ?thesis unfolding mem_inv_def by metis
qed

lemma mem_update_lifecycle:
  assumes id: "\<And>r. r_id (f r) = r_id r"
    and move: "\<And>r. mem_row j s = Some r \<Longrightarrow> P r \<Longrightarrow> lifecycle (r_status r) (r_status (f r))"
    and st: "mem_status s j = Some a"
  shows "\<exists>b. mem_status (mem_update P f s) j = Some b \<and> lifecycle\<^sup>*\<^sup>* a b"
proof (cases "mem_row j s")
  case None
  then have "mem_row j (mem_update P f s) = None" by (simp add: mem_row_update [OF id])
  then have "mem_status (mem_update P f s) j = Some a"
    using st None by (simp add: mem_status_row) (simp add: mem_update_def)
  then show ?thesis by blast
next
  case (Some r)
  then have "mem_status (mem_update P f s) j = Some (r_status (if P r then f r else r))"
    by (simp add: mem_status_row mem_row_update [OF id])
  then show ?thesis using st Some move by (auto simp: mem_status_row)
qed

lemma mem_row_Some: "mem_row i s = Some r \<Longrightarrow> r \<in> set (m_rows s) \<and> r_id r = i"
  unfolding mem_row_def using find_Some_mem [of "\<lambda>r. r_id r = i" "m_rows s" r] by simp

lemma mem_row_eq: "mem_inv s \<Longrightarrow> r \<in> set (m_rows s) \<Longrightarrow> mem_row (r_id r) s = Some r"
  unfolding mem_row_def mem_inv_def by (rule find_key_Some) simp_all

lemma mem_claim_lifecycle:
  assumes inv: "mem_inv s" and st: "mem_status s j = Some a"
  shows "\<exists>b. mem_status (snd (mem_claimBatch now l act av s)) j = Some b \<and> lifecycle\<^sup>*\<^sup>* a b"
proof (cases "l \<le> 0 \<or> (\<forall>i\<in>set (map fst av). mem_remaining av i = None)")
  case False
  let ?cl = "mem_claimed now l act av s"
  have "\<exists>b. mem_status (mem_update (\<lambda>r. r_id r \<in> set (map r_id ?cl))
      (\<lambda>r. r\<lparr>r_status := Pend RUNNING, r_claimed_at := Some now, r_not_before := None\<rparr>) s) j = Some b \<and> lifecycle\<^sup>*\<^sup>* a b"
  proof (rule mem_update_lifecycle)
    fix r
    assume r: "mem_row j s = Some r" "r_id r \<in> set (map r_id ?cl)"
    then obtain q where q: "q \<in> set ?cl" "r_id q = r_id r" by auto
    have "mem_row (r_id q) s = Some q" using mem_row_eq [OF inv] mem_claimed_row [OF q(1)] by blast
    moreover have "r_id q = j" using mem_row_Some [OF r(1)] q(2) by simp
    ultimately have "q = r" using r(1) by (metis option.inject)
    then show "lifecycle (r_status r) (r_status (r\<lparr>r_status := Pend RUNNING, r_claimed_at := Some now, r_not_before := None\<rparr>))"
      using mem_claimed_row [OF q(1)] lifecycle.claim_pending lifecycle.claim_due by fastforce
  qed (simp_all add: st)
  moreover have "snd (mem_claimBatch now l act av s) = mem_update (\<lambda>r. r_id r \<in> set (map r_id ?cl))
      (\<lambda>r. r\<lparr>r_status := Pend RUNNING, r_claimed_at := Some now, r_not_before := None\<rparr>) s"
    unfolding mem_claimBatch_def Let_def if_not_P [OF False] by (rule snd_conv)
  ultimately show ?thesis by metis
next
  case True
  then have "snd (mem_claimBatch now l act av s) = s" by (simp only: mem_claimBatch_def if_True snd_conv)
  with st show ?thesis by (metis rtranclp.rtrancl_refl)
qed

lemma mem_reap_row_id [simp]: "r_id (mem_reap_row now d r) = r_id r"
  by (simp add: mem_reap_row_def)

lemma mem_requeue_keeps: "mem_inv s \<Longrightarrow> mem_inv (snd (mem_requeue i s))"
  and mem_defer_keeps: "mem_inv s \<Longrightarrow> mem_inv (snd (mem_deferForReadback i t s))"
  and mem_reap_keeps: "mem_inv s \<Longrightarrow> mem_inv (snd (mem_reapStale now th d s))"
  by (simp_all add: mem_requeue_def mem_deferForReadback_def mem_reapStale_def Let_def mem_update_keeps)

lemma mem_requeue_lifecycle:
  "mem_inv s \<Longrightarrow> mem_status s j = Some a \<Longrightarrow>
     \<exists>b. mem_status (snd (mem_requeue i s)) j = Some b \<and> lifecycle\<^sup>*\<^sup>* a b"
  unfolding mem_requeue_def snd_conv
  by (rule mem_update_lifecycle) (simp_all add: mem_running_def lifecycle.give_back)

lemma mem_defer_lifecycle:
  "mem_inv s \<Longrightarrow> mem_status s j = Some a \<Longrightarrow>
     \<exists>b. mem_status (snd (mem_deferForReadback i t s)) j = Some b \<and> lifecycle\<^sup>*\<^sup>* a b"
  unfolding mem_deferForReadback_def snd_conv
  by (rule mem_update_lifecycle) (simp_all add: mem_running_def lifecycle.park)

lemma mem_reap_lifecycle:
  "mem_inv s \<Longrightarrow> mem_status s j = Some a \<Longrightarrow>
     \<exists>b. mem_status (snd (mem_reapStale now th d s)) j = Some b \<and> lifecycle\<^sup>*\<^sup>* a b"
  unfolding mem_reapStale_def Let_def snd_conv
  by (rule mem_update_lifecycle) (simp_all add: mem_stale_def mem_reap_row_def lifecycle.intros)

lemma mem_finalize_cases:
  assumes "mem_inv s"
  obtains (dead) "mem_finalize now i x v e s = (False, s)" "\<And>r. mem_row i s = Some r \<Longrightarrow> terminal (r_status r)"
  | (live) r s' where "mem_row i s = Some r" "\<not> terminal (r_status r)"
      "mem_finalize now i x v e s = (True, s')" "mem_inv s'"
      "\<And>j. mem_status s' j = (if j = i then Some (Outc x) else mem_status s j)"
proof (cases "\<exists>r. mem_row i s = Some r \<and> \<not> terminal (r_status r)")
  case False
  then have "mem_finalize now i x v e s = (False, s)"
    by (auto simp: mem_finalize_def mem_row_def split: option.split)
  then show thesis using dead False by blast
next
  case True
  then obtain r where r: "mem_row i s = Some r" "\<not> terminal (r_status r)" by blast
  have ri: "r_id r = i" using mem_row_Some [OF r(1)] by simp
  let ?r' = "r\<lparr>r_status := Outc x, r_result := (case v of None \<Rightarrow> r_result r | Some v \<Rightarrow> Some v),
                          r_error_code := e, r_finalized_at := Some now\<rparr>"
  let ?f = "\<lambda>q :: op_row. if r_id q = i then ?r' else q"
  let ?s' = "(mem_update (\<lambda>q. r_id q = i) (\<lambda>q. ?r') s)\<lparr>m_history := (m_history s)(i \<mapsto> history_of now ?r')\<rparr>"
  have eq: "mem_update (\<lambda>q. r_id q = i) (\<lambda>q. ?r') s = mem_update (\<lambda>q. r_id q = i) ?f s"
    by (simp add: mem_update_def)
  have id: "r_id (?f q) = r_id q" for q using ri by simp
  have fin: "mem_finalize now i x v e s = (True, ?s')"
    using r by (simp add: mem_finalize_def mem_row_def Let_def)
  have "mem_inv ?s'" using mem_update_keeps [OF id assms, of "\<lambda>q. r_id q = i"] unfolding eq [symmetric]
    by (simp add: mem_inv_def mem_update_def)
  moreover have row: "mem_row j ?s' = map_option (\<lambda>q. if r_id q = i then ?f q else q) (mem_row j s)" for j
    using mem_row_update [OF id, of j "\<lambda>q. r_id q = i" s] unfolding eq [symmetric] by (simp add: mem_row_def)
  have "mem_status ?s' j = (if j = i then Some (Outc x) else mem_status s j)" for j
  proof (cases "j = i")
    case True
    then show ?thesis using row [of i] r(1) ri by (simp add: mem_status_row)
  next
    case False
    then show ?thesis using row [of j] mem_row_Some [of j s]
      by (auto simp: mem_status_row mem_update_def split: option.split)
  qed
  ultimately show thesis using live [OF r, of ?s'] fin by simp
qed

interpretation mem: operation_store mem_inv mem_claimBatch mem_status mem_finalize mem_requeue mem_deferForReadback
  "\<lambda>now acquired. mem_reapStale now"
proof unfold_locales
  fix s :: mem_store and e :: int and l act av i a c
  assume inv: "mem_inv s"
  let ?p = "mem_claimBatch e l act av s"
  show "mem_inv (snd ?p)"
    using inv by (auto simp: mem_claimBatch_def Let_def intro!: mem_update_keeps)
  have fst: "fst ?p = [] \<or> fst ?p = map to_claimed (mem_claimed e l act av s)"
    by (simp add: mem_claimBatch_def Let_def)
  show "distinct (map (\<lambda>c. (c_instance_id c, c_lane_key c)) (fst ?p))"
  proof -
    have "distinct (map r_lane_key (mem_claimed e l act av s))" using claim_loop_lanes by (simp add: mem_claimed_def)
    then have "distinct (map (\<lambda>c. (c_instance_id c, c_lane_key c)) (map to_claimed (mem_claimed e l act av s)))"
      by (auto simp: distinct_map inj_on_def to_claimed_def)
    with fst show ?thesis by auto
  qed
  { assume a: "map_of av i = Some a"
    have "claims_of i (map to_claimed (mem_claimed e l act av s)) \<le> max 0 (slots (mem_remaining av) i)"
      using claim_loop_total [of i] by (simp add: claims_of_def mem_claimed_def filter_map o_def to_claimed_def)
    with fst a show "claims_of i (fst ?p) \<le> max 0 (totalFree a)"
      by (auto simp: slots_def mem_remaining_def split: if_splits)
    have "batch_claims_of i (map to_claimed (mem_claimed e l act av s)) \<le> max 0 (slots (mem_batchRemaining av) i)"
      using claim_loop_batch [of i] by (simp add: batch_claims_of_def mem_claimed_def filter_map o_def to_claimed_def)
    with fst a show "batch_claims_of i (fst ?p) \<le> max 0 (batchFree a)"
      by (auto simp: slots_def mem_batchRemaining_def split: if_splits) }
  { assume "c \<in> set (fst ?p)"
    then obtain r where r: "r \<in> set (mem_claimed e l act av s)" "c = to_claimed r" using fst by auto
    from mem_claimed_row [OF r(1)] show "c_instance_id c \<in> set (map fst av)" "c_lane_key c \<notin> set act"
      using r(2) by (auto simp: to_claimed_def mem_remaining_def map_of_SomeD split: option.splits
          intro: rev_image_eqI dest!: map_of_SomeD) }
next
  fix s :: mem_store and n i x v e
  assume inv: "mem_inv s"
  show "mem_inv (snd (mem_finalize n i x v e s))"
    by (cases rule: mem_finalize_cases [OF inv, of n i x v e]) (use inv in simp_all)
  show "fst (mem_finalize n i x v e s) \<Longrightarrow> mem_status (snd (mem_finalize n i x v e s)) i = Some (Outc x)"
    by (cases rule: mem_finalize_cases [OF inv, of n i x v e]) simp_all
  show "\<not> fst (mem_finalize n i x v e s) \<Longrightarrow> snd (mem_finalize n i x v e s) = s"
    by (cases rule: mem_finalize_cases [OF inv, of n i x v e]) simp_all
next
  fix s :: mem_store and i p n x v e
  assume inv: "mem_inv s" and st: "mem_status s i = Some (Pend p)"
  show "fst (mem_finalize n i x v e s)"
    using inv
  proof (cases rule: mem_finalize_cases [where now = n and i = i and x = x and v = v and e = e])
    case dead
    from st have False
    proof (cases "mem_row i s")
      case None
      then obtain h where "m_history s i = Some h" "h_status h = Pend p" using st by (auto simp: mem_status_row)
      then show False using inv unfolding mem_inv_def by fastforce
    qed (use st dead(2) in \<open>auto simp: mem_status_row\<close>)
    then show ?thesis ..
  qed simp
next
  fix s :: mem_store and j a n i x v e
  assume inv: "mem_inv s" and st: "mem_status s j = Some a"
  show "\<exists>b. mem_status (snd (mem_finalize n i x v e s)) j = Some b \<and> lifecycle\<^sup>*\<^sup>* a b"
    using inv
  proof (cases rule: mem_finalize_cases [where now = n and i = i and x = x and v = v and e = e])
    case (live r s')
    then show ?thesis using st by (auto simp: mem_status_row not_terminal_iff intro!: r_into_rtranclp lifecycle.conclude)
  qed (use st in simp)
qed (rule mem_requeue_keeps mem_defer_keeps mem_reap_keeps mem_claim_lifecycle mem_requeue_lifecycle
    mem_defer_lifecycle mem_reap_lifecycle; assumption)+

section \<open>The claim is the claim query\<close>

lemma mem_slots:
  assumes "distinct (map fst av)"
  shows "start_slots (caps_of_availability av) = (mem_remaining av, mem_batchRemaining av)"
  by (auto simp: start_slots_def fun_eq_iff caps_of_availability_map_of [OF assms] mem_remaining_def
      mem_batchRemaining_def split: option.split)

lemma mem_remaining_caps:
  "distinct (map fst av) \<Longrightarrow> mem_remaining av i = None \<longleftrightarrow> i \<notin> set (map fst (caps_of_availability av))"
proof -
  assume "distinct (map fst av)"
  then have "mem_remaining av i = map_option fst (map_of (caps_of_availability av) i)"
    using mem_slots by (simp add: start_slots_def fun_eq_iff)
  then show ?thesis by (simp add: map_of_eq_None_iff)
qed

lemma mem_no_slots:
  assumes "distinct (map fst av)"
  shows "(\<forall>i\<in>set (map fst av). mem_remaining av i = None) \<longleftrightarrow> caps_of_availability av = []"
proof -
  have "set (map fst (caps_of_availability av)) \<subseteq> set (map fst av)" by (force simp: caps_of_availability_def)
  then have "(\<forall>i\<in>set (map fst av). mem_remaining av i = None) \<longleftrightarrow> set (map fst (caps_of_availability av)) = {}"
    unfolding mem_remaining_caps [OF assms] by (metis subset_iff all_not_in_conv)
  then show ?thesis by simp
qed

lemma mem_candidates_query:
  assumes inv: "store_inv s" and av: "distinct (map fst av)"
  shows "mem_candidates now act (mem_remaining av) (rows s)
    = sort_key claim_order (lane_candidates now act (caps_of_availability av) (rows s))"
proof -
  note cap = mem_remaining_caps [OF av]
  have due: "(r_status r = Pend AWAITING_READBACK \<and> (case r_not_before r of None \<Rightarrow> True | Some t \<Rightarrow> t \<le> now))
      \<longleftrightarrow> readback_due now r" if "r \<in> set (rows s)" for r
    using inv_row [OF inv that] by (auto simp: readback_due_def row_ok_def split: option.splits)
  have lanes: "mem_blockedLanes now (rows s) = set (blocked_lanes now (rows s))"
    by (auto simp: mem_blockedLanes_def blocked_lanes_def is_running_def readback_waiting_def)
  show ?thesis unfolding mem_candidates_def lane_candidates_def filter_filter
    by (rule arg_cong [where f = "sort_key claim_order"], rule filter_cong [OF refl])
      (use due cap lanes in \<open>auto simp: claimable_def\<close>)
qed

lemma mem_claimed_query:
  assumes inv: "store_inv s" and av: "distinct (map fst av)" 
    and own: "own_lanes (lane_candidates now act (caps_of_availability av) (rows s))" and m: "m_rows m = rows s"
  shows "mem_claimed now limit act av m = picked now limit act (caps_of_availability av) (rows s)"
proof -
  have "0 < cap \<and> 0 \<le> b" if "map_of (caps_of_availability av) i = Some (cap, b)" for i cap b
    using that by (auto simp: caps_of_availability_map_of [OF av] split: option.splits if_splits)
  from picked_greedy [OF inv_distinct_rows [OF inv] own this] show ?thesis
    by (simp add: mem_claimed_def m mem_slots [OF av] mem_candidates_query [OF inv av])
qed

lemma locked_free:
  assumes inv: "store_inv s" and r: "r \<in> set (rows s)"
    and ps: "\<And>p. p \<in> set ps \<Longrightarrow> p \<in> set (rows s) \<and> claimable now p"
  shows "locked [] ps r \<longleftrightarrow> r_id r \<in> set (map r_id ps)"
proof
  assume "r_id r \<in> set (map r_id ps)"
  then obtain p where p: "p \<in> set ps" "r_id p = r_id r" by auto
  then have "p = r" using inv_same_id [OF inv _ r] ps by blast
  then show "locked [] ps r" using p(1) ps [OF p(1)] by (auto simp: locked_def claimable_def readback_due_def)
qed (auto simp: locked_def)

lemma same_claims:
  assumes "store_inv s" "distinct (map fst av)" "own_lanes (lane_candidates now act (caps_of_availability av) (rows s))" "m_rows m = rows s"
  shows "mset (fst (mem_claimBatch now limit act av m)) = mset (fst (claimBatch now [] limit act av s)) \<and>
    m_rows (snd (mem_claimBatch now limit act av m)) = rows (snd (claimBatch now [] limit act av s))"
proof -
  let ?cs = "caps_of_availability av"
  let ?ps = "picked now limit act ?cs (rows s)"
  note none = mem_no_slots [OF assms(2)]
  show ?thesis
  proof (cases "limit \<le> 0 \<or> ?cs = []")
    case True
    then show ?thesis using none assms(4) by (auto simp: mem_claimBatch_def claimBatch_def)
  next
    case False
    have ps: "p \<in> set (rows s) \<and> claimable now p" if "p \<in> set ?ps" for p
      using picked_candidate [OF that] by (simp add: lane_candidates_iff)
    have same: "locked [] ?ps r \<longleftrightarrow> r_id r \<in> set (map r_id ?ps)" if "r \<in> set (rows s)" for r
      by (rule locked_free [OF assms(1) that ps])
    have mem: "mem_claimBatch now limit act av m = (map to_claimed ?ps,
        mem_update (\<lambda>r. r_id r \<in> set (map r_id ?ps)) (mark_running now) m)"
    proof -
      have "\<not> (limit \<le> 0 \<or> (\<forall>i\<in>set (map fst av). mem_remaining av i = None))" using False none by blast
      then show ?thesis unfolding mem_claimBatch_def Let_def mem_claimed_query [OF assms] mark_running_def
        by (rule if_not_P)
    qed
    have sql: "claimBatch now [] limit act av s = (map to_claimed (filter (locked [] ?ps) (rows s)),
        update_where (locked [] ?ps) (mark_running now) s)"
      using False by (simp add: claimBatch_def claim_commit_def Let_def)
    have "set ?ps = set (filter (locked [] ?ps) (rows s))"
      using ps same inv_same_id [OF assms(1)] by fastforce
    moreover have "distinct ?ps" "distinct (filter (locked [] ?ps) (rows s))"
      using inv_distinct_rows [OF assms(1)] by (simp_all add: distinct_picked)
    ultimately have "mset ?ps = mset (filter (locked [] ?ps) (rows s))"
      by (simp only: set_eq_iff_mset_eq_distinct)
    then have "mset (map to_claimed ?ps) = mset (map to_claimed (filter (locked [] ?ps) (rows s)))"
      unfolding mset_map by simp
    moreover have "m_rows (mem_update (\<lambda>r. r_id r \<in> set (map r_id ?ps)) (mark_running now) m)
        = rows (update_where (locked [] ?ps) (mark_running now) s)"
      using same by (simp add: mem_update_def rows_update_where assms(4))
    ultimately show ?thesis by (simp add: mem sql)
  qed
qed

text \<open>C31: The test double claims what the claim query claims, as far as it keeps lanes apart: over the
  same rows and while no other transaction holds one, every operation the loop of the in-memory store
  takes is one the query may take; and when no two claimable operations of different offered instances
  have one lane key, as with a single instance, the loop and the query with its three window functions
  take the same operations and leave the same rows. Where two instances do share a key the loop takes
  one of them only (\<open>memory_shares_lanes\<close>).\<close>

theorem memory_claim_matches_query:
  assumes "store_inv s" "distinct (map fst av)" "m_rows m = rows s"
  shows "set (fst (mem_claimBatch now limit act av m)) \<subseteq>
      to_claimed ` set (lane_candidates now act (caps_of_availability av) (rows s)) \<and>
    (own_lanes (lane_candidates now act (caps_of_availability av) (rows s)) \<longrightarrow>
      mset (fst (mem_claimBatch now limit act av m)) = mset (fst (claimBatch now [] limit act av s)) \<and>
      m_rows (snd (mem_claimBatch now limit act av m)) = rows (snd (claimBatch now [] limit act av s)))"
proof (intro conjI [OF _ impI])
  have "set (mem_claimed now limit act av m) \<subseteq> set (lane_candidates now act (caps_of_availability av) (rows s))"
    using claim_loop_subset by (simp add: mem_claimed_def assms(3) mem_candidates_query [OF assms(1,2)]) fastforce
  then show "set (fst (mem_claimBatch now limit act av m)) \<subseteq>
      to_claimed ` set (lane_candidates now act (caps_of_availability av) (rows s))"
    by (auto simp: mem_claimBatch_def Let_def)
next
  assume own: "own_lanes (lane_candidates now act (caps_of_availability av) (rows s))"
  show "mset (fst (mem_claimBatch now limit act av m)) = mset (fst (claimBatch now [] limit act av s)) \<and>
      m_rows (snd (mem_claimBatch now limit act av m)) = rows (snd (claimBatch now [] limit act av s))"
    by (rule same_claims [OF assms(1,2) own assms(3)])
qed

theorem memory_claim_matches_query_witness:
  "mset (fst (mem_claimBatch 9 100 [] two_slots (new_mem_store\<lparr>m_rows := rows busy_desk\<rparr>)))
     = mset (map to_claimed [pending_delete, helpdesk_delete])"
proof -
  have "own_lanes (lane_candidates 9 [] (caps_of_availability two_slots) (rows busy_desk))"
    by (auto simp: own_lanes_def lane_candidates_iff busy_desk_def store_of_def helpdesk_delete_def pending_delete_def row_like_def)
  with memory_claim_matches_query [OF store_inv_busy_desk, of two_slots "new_mem_store\<lparr>m_rows := rows busy_desk\<rparr>" 9 100 "[]"]
  show ?thesis by (simp add: two_slots_def claimBatch_fst busy_desk_rows [unfolded two_slots_def])
qed

section \<open>Either store keeps a caller's first answer\<close>

lemma stores_first_answer:
  "store_inv s \<Longrightarrow> status_at s i = Some (Pend p) \<Longrightarrow>
     status_at (sql.finish_all fs (snd (finalize n i x v e s))) i = Some (Outc x)"
  "mem_inv m \<Longrightarrow> mem_status m i = Some (Pend p) \<Longrightarrow>
     mem_status (mem.finish_all fs (snd (mem_finalize n i x v e m))) i = Some (Outc x)"
  by (rule sql.first_answer_wins mem.first_answer_wins; assumption)+

section \<open>Where the two differ\<close>

text \<open>Two instances that use one lane key: the loop notes taken lanes by key alone.\<close>

definition hr_delete :: op_row where
  "hr_delete = pending_delete\<lparr>r_id := another_id, r_instance_id := ''hr'', r_idempotency_key := ''k2''\<rparr>"

definition two_instances :: "(string \<times> availability) list" where
  "two_instances = [(''ad'', \<lparr> batchFree = 1, totalFree = 2 \<rparr>), (''hr'', \<lparr> batchFree = 1, totalFree = 2 \<rparr>)]"

lemma memory_shares_lanes:
  "map c_instance_id (fst (claimBatch 9 [] 100 [] two_instances (store_of [pending_delete, hr_delete]))) = [''ad'', ''hr''] \<and>
   map c_instance_id (fst (mem_claimBatch 9 100 [] two_instances
     (new_mem_store\<lparr>m_rows := [pending_delete, hr_delete]\<rparr>))) = [''ad'']"
  by code_simp

text \<open>A row that has run for exactly the threshold is reaped by the loop and not by the statement.\<close>

lemma memory_reaps_at_threshold:
  assumes "r_status r = Pend RUNNING" "r_claimed_at r = Some t"
  shows "mem_stale (t + th) th r \<and> \<not> stale (us_of_ms (t + th)) th (r\<lparr>r_claimed_at := Some (us_of_ms t)\<rparr>)"
  using assms by (simp add: mem_stale_def stale_def us_of_ms_def)

end
