(* ===== verification/Service_Config.thy ===== *)
theory Service_Config
  imports Wiring Resolution Partition_Maintainer
begin

text \<open>
  How the settings of \<open>provisioning/wiring.ts\<close> reach the parts: the options \<open>start\<close> hands to the
  dispatcher and to the partition maintainer, and the defaults the constructor of the dispatcher
  puts in place of the missing ones.
\<close>

section \<open>The constructor of the dispatcher\<close>

text \<open>\<open>DispatcherConfig\<close>, as far as it is numbers; the clock, the logger and the sink are elsewhere.\<close>

record dispatcher_options =
  do_claimIntervalMs :: "int option"
  do_claimBatchSize :: "int option"
  do_maxAttempts :: "int option"
  do_backoffBaseMs :: "int option"
  do_backoffMaxMs :: "int option"
  do_readBackGraceMs :: "int option"
  do_reaperThresholdMs :: "int option"
  do_reaperIntervalMs :: "int option"

definition or_default :: "int option \<Rightarrow> int \<Rightarrow> int" where
  "or_default x d = (case x of None \<Rightarrow> d | Some n \<Rightarrow> n)"

definition resolve_dispatcher_options :: "dispatcher_options option \<Rightarrow> dispatcher_config" where
  "resolve_dispatcher_options given =
     (let c = (case given of Some c \<Rightarrow> c
               | None \<Rightarrow> \<lparr> do_claimIntervalMs = None, do_claimBatchSize = None, do_maxAttempts = None,
                   do_backoffBaseMs = None, do_backoffMaxMs = None, do_readBackGraceMs = None,
                   do_reaperThresholdMs = None, do_reaperIntervalMs = None \<rparr>)
      in \<lparr> claimIntervalMs = or_default (do_claimIntervalMs c) (claimIntervalMs DEFAULTS),
           claimBatchSize = or_default (do_claimBatchSize c) (claimBatchSize DEFAULTS),
           maxAttempts = or_default (do_maxAttempts c) (maxAttempts DEFAULTS),
           backoffBaseMs = or_default (do_backoffBaseMs c) (backoffBaseMs DEFAULTS),
           backoffMaxMs = or_default (do_backoffMaxMs c) (backoffMaxMs DEFAULTS),
           readBackGraceMs = or_default (do_readBackGraceMs c) (readBackGraceMs DEFAULTS),
           reaperThresholdMs = or_default (do_reaperThresholdMs c) (reaperThresholdMs DEFAULTS),
           reaperIntervalMs = or_default (do_reaperIntervalMs c) (reaperIntervalMs DEFAULTS) \<rparr>)"

lemma resolve_nothing: "resolve_dispatcher_options None = DEFAULTS"
  by (simp add: resolve_dispatcher_options_def or_default_def)

section \<open>What start hands out\<close>

definition wired_dispatcher :: "wiring_config \<Rightarrow> dispatcher_config" where
  "wired_dispatcher c =
     resolve_dispatcher_options (Some
       \<lparr> do_claimIntervalMs = Some (wc_claimIntervalMs c), do_claimBatchSize = None, do_maxAttempts = None,
         do_backoffBaseMs = None, do_backoffMaxMs = None, do_readBackGraceMs = None,
         do_reaperThresholdMs = Some (wc_reaperThresholdMs c), do_reaperIntervalMs = None \<rparr>)"

definition wired_maintainer :: "wiring_config \<Rightarrow> maintainer" where
  "wired_maintainer c =
     new_maintainer (wc_partitionRetentionDays c) None (Some (wc_partitionMaintenanceIntervalMs c)) None"

section \<open>Accepted settings\<close>

text \<open>C38: The service starts from complete settings only: settings read from the environment name a
  database and a bundle directory, all their counts and durations are positive, and they carry what
  the chosen application store needs, so building it never fails for a missing setting; the claim
  loop and the maintainer that \<open>start\<close> builds from
  them have a positive claim size, interval and reaper threshold, at least two attempts, a backoff that
  does not shrink, a positive retention and a day of lookahead; and an accepted port is between 1 and 65535.\<close>

theorem accepted_settings_complete:
  "(\<forall>c. loadWiringConfig env = Inr c \<longrightarrow> wiring_config_ok c \<and>
      (let d = wired_dispatcher c; m = wired_maintainer c
       in 0 < claimBatchSize d \<and> 0 < claimIntervalMs d \<and> 0 < reaperThresholdMs d \<and> 2 \<le> maxAttempts d \<and>
          0 < backoffBaseMs d \<and> backoffBaseMs d \<le> backoffMaxMs d \<and>
          0 < retentionDays m \<and> 1 \<le> lookaheadDays m \<and> 0 < intervalMs m \<and> \<not> pm_stopped m)) \<and>
   (\<forall>p. loadHttpConfig env = Inr p \<longrightarrow> 1 \<le> p \<and> p \<le> 65535)"
  using loaded_config_ok loaded_port_range
  by (auto simp: wiring_config_ok_def Let_def wired_dispatcher_def wired_maintainer_def new_maintainer_def
      resolve_dispatcher_options_def or_default_def DEFAULTS_def)

theorem accepted_settings_complete_witness:
  "loadWiringConfig minimal_env = Inr minimal_config \<and> wiring_config_ok minimal_config \<and>
   0 < claimBatchSize (wired_dispatcher minimal_config) \<and> wc_drainBudgetMs minimal_config = 8"
  using accepted_settings_complete [of minimal_env] minimal_settings by (simp add: minimal_config_def Let_def)

end
