(* ===== verification/Spec2Isabelle.thy ===== *)
theory Spec2Isabelle
  imports Client_Props Entry_Point Registrar Attempt_Bounds Service_Runs Memory_Store Service_Config
begin

text \<open>
  The governance provisioning service: its components, how they work together, and what is proved of
  each. The service accepts mutations of accounts over HTTP, keeps them in a PostgreSQL table, and a
  claim loop in every replica carries them out against connectors; a client package calls it.

  \<^bold>\<open>Parts.\<close> A request enters \<open>createApp\<close> (\<open>src/http/app.ts\<close>), passes the bearer middleware
  (\<open>auth.ts\<close>), and an object route registers the application if needed (\<open>config/registerApplication.ts\<close>
  over \<open>FileApplicationConfigStore.ts\<close>), checks the backlog (\<open>ops/admission.ts\<close>) and inserts a row
  (\<open>OperationStore.enqueue\<close>). The dispatcher (\<open>ops/Dispatcher.ts\<close>) computes free slots per instance
  from the scheduling settings (\<open>config/scheduling.ts\<close>), claims rows with the claim query, attempts
  each against the connector, and finalizes, requeues or parks the row. The maintainer
  (\<open>ops/PartitionMaintainer.ts\<close>) creates and drops day partitions. \<open>provisioning/wiring.ts\<close> starts and
  stops all of it, \<open>src/index.ts\<close> is the process. \<open>clients/node/src\<close> polls for outcomes and reads the
  search stream.

  \<^bold>\<open>Theories, bottom up.\<close>
  \<^item> \<open>Prelude\<close>, \<open>Js_Runtime\<close>: shared facts on lists and on results that may be errors, \<open>row_number\<close>; what the
    program uses of JavaScript (binary64 numbers with rounding, JSON values, strings, \<open>parseInt\<close>,
    \<open>Number\<close>).
  \<^item> \<open>Op_Types\<close>, \<open>Metrics\<close>: the vocabulary of \<open>ops/types.ts\<close> and of \<open>ops/metrics.ts\<close>.
  \<^item> \<open>Operation_Store\<close>: \<open>ops/OperationStore.ts\<close> with \<open>sql/schema.sql\<close>. The state \<open>op_store\<close> holds the hot
    rows, the history rows and the partition days; each SQL statement is one definition, the claim
    query clause by clause (\<open>blocked_lanes\<close>, \<open>lane_leaders\<close>, \<open>within_caps\<close>, \<open>picked\<close>, \<open>locked\<close>).
    \<open>Store_Invariant\<close> has the invariant \<open>store_inv\<close> and that every statement keeps it, \<open>Claim_Protocol\<close> what a
    claim guarantees, \<open>Claim_Props\<close> and \<open>Store_Props\<close> the properties.
  \<^item> \<open>Store_Api\<close>: the interface \<open>OperationStoreApi\<close> as locales. \<open>claim_store\<close> is what the claim loop
    relies on; \<open>operation_store\<close> extends it with the life cycle of statuses, the abstract view of an
    operation. \<open>Store_Contract\<close> interprets it on the SQL (\<open>sql\<close>), \<open>Memory_Store\<close> on the store of
    the test harness (\<open>mem\<close>, \<open>test/harness/MemoryOperationStore.ts\<close>). \<open>Claim_Greedy\<close> shows that the claim
    query, window functions and all, is the greedy loop that store runs.
  \<^item> \<open>Admission\<close>, \<open>Scheduling\<close>, \<open>Resolution\<close>, \<open>Dispatcher\<close>: the gate, the settings, one attempt of each kind
    against an arbitrary facade, and the claim loop with its suspension points as phases.
    \<open>Resolution_Props\<close> and \<open>Dispatcher_Props\<close> have their properties.
  \<^item> \<open>Partition_Maintainer\<close>: the maintenance pass with every point at which it may fail.
  \<^item> \<open>Op_System\<close>: the running service as a step relation over one table, any number of replicas, the
    maintainer and the log of facade calls; \<open>Example_Runs\<close> is one run of it, which the witnesses use.
    \<open>Create_Discipline\<close>, \<open>Ledger_Refinement\<close> and \<open>Progress\<close> are properties of every run: how often a
    create is sent, the abstract ledger the service implements, and that no operation is ever stuck.
    \<open>Work_Ownership\<close> and \<open>Attempt_Bounds\<close> are about runs whose reaper spares the rows live replicas work
    on, which is what its threshold is documented for: each lane is worked on once, retries are bounded.
    \<open>Service_Runs\<close> closes the system: its callers reach the table through \<open>createApp\<close> only.
  \<^item> \<open>App_Config\<close>, \<open>Registrar\<close>: application documents (locale \<open>config_store\<close>, interpreted on the file
    store) and the registrar as a machine over its suspension points.
  \<^item> \<open>Filter_Query\<close>, \<open>Http_Errors\<close>, \<open>Http_Routes\<close>, \<open>Http_Props\<close>, \<open>Auth\<close>: the search filter, the error mapping,
    the routes in their mounting order, the bearer middleware.
  \<^item> \<open>Token_Provider\<close>: the two OAuth providers, which share the locale \<open>token_provider\<close>.
  \<^item> \<open>Wiring\<close>, \<open>Service_Config\<close>, \<open>Entry_Point\<close>: settings from the environment and how they reach the parts,
    start and stop, the process.
  \<^item> \<open>Node_Client\<close>, \<open>Client_Props\<close>: the client, and the client against the modelled service.

  \<^bold>\<open>What is shown.\<close> In every reachable state of the running service the table is well-formed and no
  lane has two running operations, replicas stay within their budgets, accepted operations keep a
  status that only moves along its life cycle, outcomes are final, and connectors are asked only what
  was accepted; timed-out creates are read back, not replayed, and a create is sent at most once under
  one attempt number. While the reaper is not too early, at most one replica works on a lane and retries
  stay below the configured maximum. The service as a whole refines an abstract ledger of statuses, and from every
  reachable state an operation that is still open can be brought to a success. The HTTP properties
  carry this to callers: an accepted operation can always be polled and can be carried out, so that polls
  answer SUCCEEDED, only verified tokens act, and what the client's wait resolves with is the final
  outcome. Parsers and streams have round trips; the waits
  of the registrar, of the stop and of the client end. Where the code falls short of its comments a
  lemma says so: \<open>parked_create_overtaken\<close> and \<open>snapshots_break_lane\<close> are concrete runs of the claim
  query, \<open>late_requeue_takes_row\<close> is a run in which a reaper that is too early puts two replicas on one
  lane, \<open>memory_shares_lanes\<close> and \<open>memory_reaps_at_threshold\<close> tell the test double from it.

  \<^bold>\<open>Bounds and fuel.\<close> Nothing here uses fuel. Loops over time take the list of what they observe (clock,
  counts, answers); the theorems on their end say how long a list suffices. The stream reader recurses
  on the length of its buffer.

  \<^bold>\<open>Assumptions.\<close> A claim is one step of the running service, as its transaction is; \<open>patient_step\<close> restricts reaper passes as
  the comment on \<open>reapStale\<close> asks, in the two properties that need it; the effect of
  claims picked from different snapshots is studied separately. The registry of instances is fixed
  in a run of the claim loop. New ids are fresh. Days are those of one time zone. A character is a
  UTF-16 unit below 256. Parameters stand for code outside the repository: the connector framework
  (registry, leases, facade, rate limiter), \<open>pg\<close>, Express and the socket, \<open>jose\<close>, \<open>fetch\<close> and the token
  endpoint, \<open>JSON.parse\<close>, SHA-256, the file system and the URL parser. Where a property relies on one of
  them, a named hypothesis says what is documented: \<open>verifier_laws\<close> for the verifier of tokens,
  \<open>registry_laws\<close> for the registry, \<open>line_json\<close> for the printer and the parser of JSON.

  \<^bold>\<open>Not modelled.\<close> The readiness query and the path of the schema file are input and output only;
  \<open>src/ops/index.ts\<close> only exports. Tests, the development authority, the fake connector, load tests, scripts,
  container files and documents are not part of the running service. The console sink is
  modelled as the text of its lines.
\<close>

section \<open>Properties of every run\<close>



text \<open>C5: In every reachable state no replica has more attempts in flight for an instance than its
  mutation budget, nor more batch attempts than its batch slots, not even while claims, results and
  cleanups interleave; and its counters are the counts of its attempts.\<close>

theorem reachable_budgets:
  assumes "(sys_step env dc day_text)\<^sup>*\<^sup>* (init_system days m) w"
  shows "claims_of i (tasks_of (sy_replicas w r)) \<le> total_budget env i \<and>
    batch_claims_of i (tasks_of (sy_replicas w r)) \<le> batch_budget env i \<and>
    count_of (d_running (sy_replicas w r)) i = claims_of i (tasks_of (sy_replicas w r)) \<and>
    count_of (d_runningBatch (sy_replicas w r)) i = batch_claims_of i (tasks_of (sy_replicas w r))"
  using sys_okD(3) [OF reachable_ok [OF assms init_system_ok], of r]
  by (simp add: disp_ok_def in_budget_def counters_ok_def)

theorem reachable_budgets_witness:
  "claims_of ''ad'' (tasks_of (sy_replicas run_attempted 0)) \<le> total_budget run_env ''ad'' \<and>
   tasks_of (sy_replicas run_attempted 0) = [run_claim]"
  using reachable_budgets [OF run_to_attempted, of "''ad''" 0] run_attempted_rows(3) by blast

text \<open>C2: No accepted operation is lost and no answer is taken back: in every run, an operation id that
  has a status keeps having one, the status only moves along the life cycle, and once it is an
  outcome it stays that outcome, also after its partition has been dropped.\<close>

theorem answers_survive_runs:
  assumes "(sys_step env dc day_text)\<^sup>*\<^sup>* (init_system days m) w"
    and "(sys_step env dc day_text)\<^sup>*\<^sup>* w w'" "status_at (sy_store w) i = Some a"
  shows "(\<exists>b. status_at (sy_store w') i = Some b \<and> lifecycle\<^sup>*\<^sup>* a b) \<and>
    (\<forall>x. a = Outc x \<longrightarrow> status_at (sy_store w') i = Some (Outc x))"
proof -
  have ok: "sys_ok env w" by (rule reachable_ok [OF assms(1) init_system_ok])
  obtain b where "status_at (sy_store w') i = Some b" "lifecycle\<^sup>*\<^sup>* a b"
    using store_changes_status [OF run_store_changes [OF assms(2) ok] sys_okD(1) [OF ok] assms(3)] by blast
  then show ?thesis using lifecycle_star_terminal by blast
qed

theorem answers_survive_runs_witness:
  "\<exists>b. status_at (sy_store run_attempted) an_id = Some b \<and> lifecycle\<^sup>*\<^sup>* (Pend PENDING) b"
  using answers_survive_runs [OF run_to_next run_from_next example_status] by blast

text \<open>C3: The target is only asked to do what was accepted: every facade call ever made belongs to a
  claimed operation of the recorded kind, with that operation's object class, uid and attributes;
  and every mutation call was made for an operation claimed as pending, so a create resumed from
  its read-back wait only ever looks.\<close>

theorem target_calls_match:
  assumes "(sys_step env dc day_text)\<^sup>*\<^sup>* (init_system days m) w" "(c, k) \<in> set (sy_calls w)"
  shows "call_ok c k \<and> known (sy_store w) (c_id c) (c_op_type c) \<and>
    (is_mutation k \<longrightarrow> c_prior_status c = Pend PENDING)"
proof -
  have ok: "claim_ok (sy_store w) c" "call_ok c k"
    using reachable_ok [OF assms(1) init_system_ok] assms(2) by (auto simp: sys_ok_def)
  then have "is_mutation k \<longrightarrow> c_prior_status c = Pend PENDING"
    by (cases k) (auto simp: claim_ok_def)
  with ok show ?thesis by (simp add: claim_ok_def)
qed

theorem target_calls_match_witness:
  "sy_calls run_attempted = [(run_claim, run_call)] \<and> call_ok run_claim run_call \<and>
   c_prior_status run_claim = Pend PENDING"
proof -
  have "(run_claim, run_call) \<in> set (sy_calls run_attempted)" by (simp add: run_attempted_calls)
  from target_calls_match [OF run_to_attempted this] run_attempted_calls show ?thesis
    by (simp add: run_call_def)
qed

end
